(* ===== verification/Prelude.thy ===== *)
theory Prelude
  imports Main "HOL-Library.AList"
begin

text \<open>
  Shared vocabulary of the development.

  \<^item> The exception classes the package raises, with the subclass test an \<open>except\<close>
    clause performs.
  \<^item> Stateful code as functions from a state to a result and the state it leaves:
    an exception does not undo the writes that came before it.
  \<^item> Python dictionaries as association lists (insertion order kept, one entry
    per key), with the rewrite rules the component proofs use.
  \<^item> \<open>evolution\<close>: a preorder on states that every primitive of a component respects
    is respected by everything composed from the primitives.
\<close>

section \<open>Exceptions\<close>

datatype exn =
    ValueError | PermissionError | TypeError | KeyError | AttributeError | IndexError
  | OSError | FileNotFoundError | FileExistsError | RuntimeError
  | UnicodeDecodeError | JSONDecodeError
  | RecoveryError | RecoveryRequiredError | InjectedFailure
  | LockError | LockTimeoutError
  | GuardError | ContinuityError | ConflictError | ContractError | ConfigurationError
  | IntegrityDriftError | PersistenceError | TimeoutExpired | CalledProcessError
  | PowerLoss

text \<open>
  \<open>PowerLoss\<close> is no Python exception: it is the end of the process at a point between
  two durable effects, and no handler catches it.
\<close>

fun superclass :: "exn \<Rightarrow> exn option" where
  "superclass PermissionError = Some OSError"
| "superclass FileNotFoundError = Some OSError"
| "superclass FileExistsError = Some OSError"
| "superclass PersistenceError = Some OSError"
| "superclass UnicodeDecodeError = Some ValueError"
| "superclass JSONDecodeError = Some ValueError"
| "superclass RecoveryError = Some ValueError"
| "superclass RecoveryRequiredError = Some RecoveryError"
| "superclass GuardError = Some ValueError"
| "superclass ContractError = Some ValueError"
| "superclass ConfigurationError = Some ValueError"
| "superclass InjectedFailure = Some RuntimeError"
| "superclass LockError = Some RuntimeError"
| "superclass LockTimeoutError = Some LockError"
| "superclass ContinuityError = Some RuntimeError"
| "superclass ConflictError = Some ContinuityError"
| "superclass IntegrityDriftError = Some PermissionError"
| "superclass _ = None"

definition is_a :: "exn \<Rightarrow> exn \<Rightarrow> bool" where
  "is_a e c \<longleftrightarrow> e = c \<or>
     (case superclass e of None \<Rightarrow> False
      | Some d \<Rightarrow> d = c \<or>
          (case superclass d of None \<Rightarrow> False
           | Some d' \<Rightarrow> d' = c \<or> superclass d' = Some c))"

lemma is_a_refl [simp]: "is_a e e"
  by (simp add: is_a_def)

lemma is_a_PowerLoss [simp]: "is_a PowerLoss c \<longleftrightarrow> c = PowerLoss"
  by (auto simp: is_a_def)

section \<open>Results\<close>

type_synonym 'a result = "exn + 'a"

fun bindR :: "'a result \<Rightarrow> ('a \<Rightarrow> 'b result) \<Rightarrow> 'b result" where
  "bindR (Inl e) f = Inl e"
| "bindR (Inr x) f = f x"

lemma bindR_Inr_iff: "bindR m f = Inr y \<longleftrightarrow> (\<exists>x. m = Inr x \<and> f x = Inr y)"
  by (cases m) auto

lemma bindR_cong [fundef_cong]:
  "m = m' \<Longrightarrow> (\<And>x. m' = Inr x \<Longrightarrow> f x = g x) \<Longrightarrow> bindR m f = bindR m' g"
  by (cases m') auto

fun mapR :: "('a \<Rightarrow> 'b result) \<Rightarrow> 'a list \<Rightarrow> 'b list result" where
  "mapR f [] = Inr []"
| "mapR f (x # xs) = bindR (f x) (\<lambda>y. bindR (mapR f xs) (\<lambda>ys. Inr (y # ys)))"

lemma mapR_Inr_all: "mapR f xs = Inr ys \<Longrightarrow> list_all2 (\<lambda>x y. f x = Inr y) xs ys"
  by (induction xs arbitrary: ys) (auto simp: bindR_Inr_iff)

fun is_ok :: "'a result \<Rightarrow> bool" where
  "is_ok (Inr _) = True"
| "is_ok (Inl _) = False"

section \<open>Stateful code\<close>

type_synonym ('s, 'a) M = "'s \<Rightarrow> 'a result \<times> 's"

definition ret :: "'a \<Rightarrow> ('s, 'a) M" where
  "ret x = (\<lambda>s. (Inr x, s))"

definition raise :: "exn \<Rightarrow> ('s, 'a) M" where
  "raise e = (\<lambda>s. (Inl e, s))"

definition bindM :: "('s, 'a) M \<Rightarrow> ('a \<Rightarrow> ('s, 'b) M) \<Rightarrow> ('s, 'b) M" where
  "bindM m f = (\<lambda>s. case m s of (Inl e, s') \<Rightarrow> (Inl e, s') | (Inr x, s') \<Rightarrow> f x s')"

text \<open>Reading the state: a result that depends on it and leaves it alone.\<close>

definition readM :: "('s \<Rightarrow> 'a result) \<Rightarrow> ('s, 'a) M" where
  "readM f = (\<lambda>s. (f s, s))"

text \<open>\<open>try: m except c: h\<close>, with the exception handed on when it is no instance of \<open>c\<close>.\<close>

definition catchM :: "('s, 'a) M \<Rightarrow> exn list \<Rightarrow> ('s, 'a) M \<Rightarrow> ('s, 'a) M" where
  "catchM m cs h = (\<lambda>s. case m s of
      (Inl e, s') \<Rightarrow> (if \<exists>c \<in> set cs. is_a e c then h s' else (Inl e, s'))
    | (Inr x, s') \<Rightarrow> (Inr x, s'))"

fun foldM :: "('b \<Rightarrow> 'a \<Rightarrow> ('s, 'b) M) \<Rightarrow> 'b \<Rightarrow> 'a list \<Rightarrow> ('s, 'b) M" where
  "foldM f b [] = ret b"
| "foldM f b (x # xs) = bindM (f b x) (\<lambda>b'. foldM f b' xs)"

named_theorems monad_defs \<open>unfolding of the monad operations\<close>
declare ret_def [monad_defs] raise_def [monad_defs] bindM_def [monad_defs]
  readM_def [monad_defs] catchM_def [monad_defs]

lemma bindM_ret [simp]: "bindM (ret x) f = f x"
  by (simp add: monad_defs)

lemma bindM_raise [simp]: "bindM (raise e) f = raise e"
  by (simp add: monad_defs)

lemma ret_apply [simp]: "ret x s = (Inr x, s)"
  by (simp add: ret_def)

lemma raise_apply [simp]: "raise e s = (Inl e, s)"
  by (simp add: raise_def)

lemma readM_apply [simp]: "readM f s = (f s, s)"
  by (simp add: readM_def)

lemma bindM_assoc: "bindM (bindM m f) g = bindM m (\<lambda>x. bindM (f x) g)"
  by (auto simp: bindM_def fun_eq_iff split: prod.splits sum.splits)

text \<open>How a run of a sequence ended, read backwards: the rule the success proofs use.\<close>

lemma bindM_InrE:
  assumes "bindM m f s = (Inr y, s'')"
  obtains x s' where "m s = (Inr x, s')" "f x s' = (Inr y, s'')"
  using assms by (auto simp: bindM_def split: prod.splits sum.splits)

lemma bindM_Inr: "m s = (Inr x, s') \<Longrightarrow> bindM m f s = f x s'"
  by (simp add: bindM_def)

lemma bindM_Inl: "m s = (Inl e, s') \<Longrightarrow> bindM m f s = (Inl e, s')"
  by (simp add: bindM_def)

lemma bindM_readM_Inr: "f s = Inr x \<Longrightarrow> bindM (readM f) g s = g x s"
  by (simp add: bindM_def)

lemma bindM_app:
  "bindM m f s = (case m s of (Inl e, s') \<Rightarrow> (Inl e, s') | (Inr x, s') \<Rightarrow> f x s')"
  by (simp add: bindM_def)

lemma bindM_readM:
  "bindM (readM f) g s = (case f s of Inl e \<Rightarrow> (Inl e, s) | Inr x \<Rightarrow> g x s)"
  by (simp add: bindM_def split: sum.split)

section \<open>State evolution\<close>

text \<open>
  A preorder \<open>R\<close> on states holds between the state before and the state after a
  computation, whatever its result. The rules make the proof for a composed operation a
  matter of its primitives.
\<close>

definition evolves :: "('s \<Rightarrow> 's \<Rightarrow> bool) \<Rightarrow> ('s, 'a) M \<Rightarrow> bool" where
  "evolves R m \<longleftrightarrow> (\<forall>s. R s (snd (m s)))"

named_theorems evolve \<open>introduction rules for state evolution\<close>

locale evolution =
  fixes R :: "'s \<Rightarrow> 's \<Rightarrow> bool"
  assumes R_refl: "R s s"
    and R_trans: "R s t \<Longrightarrow> R t u \<Longrightarrow> R s u"
begin

lemma ret_evolves: "evolves R (ret x)"
  by (simp add: evolves_def R_refl)

lemma raise_evolves: "evolves R (raise e)"
  by (simp add: evolves_def R_refl)

lemma readM_evolves: "evolves R (readM f)"
  by (simp add: evolves_def R_refl)

lemma bindM_evolves:
  assumes "evolves R m" and "\<And>x. evolves R (f x)"
  shows "evolves R (bindM m f)"
  unfolding evolves_def
proof
  fix s
  have 1: "R s (snd (m s))" using assms(1) by (simp add: evolves_def)
  show "R s (snd (bindM m f s))"
  proof (cases "m s")
    case (Pair r s')
    show ?thesis
    proof (cases r)
      case (Inl e)
      with 1 Pair show ?thesis by (simp add: bindM_def)
    next
      case (Inr x)
      have "R s' (snd (f x s'))" using assms(2) by (simp add: evolves_def)
      with 1 Pair Inr show ?thesis by (auto simp: bindM_def intro: R_trans)
    qed
  qed
qed

lemma catchM_evolves:
  assumes "evolves R m" and "evolves R h"
  shows "evolves R (catchM m cs h)"
  unfolding evolves_def
proof
  fix s
  obtain r s' where ms: "m s = (r, s')" by (cases "m s")
  with assms(1) have 1: "R s s'" by (metis evolves_def snd_conv)
  have 2: "R s' (snd (h s'))" using assms(2) by (simp add: evolves_def)
  show "R s (snd (catchM m cs h s))"
  proof (cases r)
    case (Inl e)
    with ms 1 R_trans [OF 1 2] show ?thesis by (simp add: catchM_def)
  next
    case (Inr x)
    with ms 1 show ?thesis by (simp add: catchM_def)
  qed
qed

lemma foldM_evolves:
  assumes "\<And>b x. evolves R (f b x)"
  shows "evolves R (foldM f b xs)"
  by (induction xs arbitrary: b) (auto intro: ret_evolves bindM_evolves assms)

lemma if_evolves: "evolves R m \<Longrightarrow> evolves R n \<Longrightarrow> evolves R (if c then m else n)"
  by simp

lemma option_evolves:
  "evolves R m \<Longrightarrow> (\<And>x. evolves R (f x)) \<Longrightarrow> evolves R (case v of None \<Rightarrow> m | Some x \<Rightarrow> f x)"
  by (cases v) simp_all

lemma sum_evolves:
  "(\<And>e. evolves R (f e)) \<Longrightarrow> (\<And>x. evolves R (g x)) \<Longrightarrow>
   evolves R (case v of Inl e \<Rightarrow> f e | Inr x \<Rightarrow> g x)"
  by (cases v) simp_all

lemma prod_evolves:
  "(\<And>x y. evolves R (f x y)) \<Longrightarrow> evolves R (case v of (x, y) \<Rightarrow> f x y)"
  by (cases v) simp

lemma let_evolves: "(\<And>x. evolves R (f x)) \<Longrightarrow> evolves R (let x = v in f x)"
  by simp

text \<open>The same from one state on, where a step depends on what an earlier one read.\<close>

lemma bindM_at:
  assumes "R s (snd (m s))" and "\<And>x s'. m s = (Inr x, s') \<Longrightarrow> R s' (snd (f x s'))"
  shows "R s (snd (bindM m f s))"
proof (cases "m s")
  case (Pair r s')
  then show ?thesis
    using assms by (cases r) (auto simp: bindM_def intro: R_trans)
qed

lemma readM_at:
  assumes "\<And>x. f s = Inr x \<Longrightarrow> R s (snd (g x s))"
  shows "R s (snd (bindM (readM f) g s))"
  by (rule bindM_at) (auto simp: R_refl intro: assms)

lemma readM_evolves_at:
  assumes "\<And>x s. f s = Inr x \<Longrightarrow> R s (snd (g x s))"
  shows "evolves R (bindM (readM f) g)"
  unfolding evolves_def by (blast intro: readM_at assms)

lemma catchM_at:
  assumes "R s (snd (m s))" and "evolves R h"
  shows "R s (snd (catchM m cs h s))"
proof (cases "m s")
  case (Pair r s')
  with assms show ?thesis
    by (cases r) (auto simp: catchM_def evolves_def intro: R_trans)
qed

lemmas combinators =
  ret_evolves raise_evolves readM_evolves bindM_evolves catchM_evolves foldM_evolves
  if_evolves option_evolves sum_evolves prod_evolves let_evolves

end

lemma evolvesD: "evolves R m \<Longrightarrow> m s = (r, s') \<Longrightarrow> R s s'"
  by (metis evolves_def snd_conv)

text \<open>An invariant is the special case of a relation that carries it along.\<close>

definition carries :: "('s \<Rightarrow> bool) \<Rightarrow> 's \<Rightarrow> 's \<Rightarrow> bool" where
  "carries P s t \<longleftrightarrow> (P s \<longrightarrow> P t)"

interpretation carry: evolution "carries P" for P
  by unfold_locales (auto simp: carries_def)

text \<open>A quantity no primitive touches is the other: the frame of an operation.\<close>

definition frames :: "('s \<Rightarrow> 'v) \<Rightarrow> 's \<Rightarrow> 's \<Rightarrow> bool" where
  "frames v s t \<longleftrightarrow> v t = v s"

interpretation frame: evolution "frames v" for v
  by unfold_locales (auto simp: frames_def)

section \<open>Runs of a deterministic machine\<close>

text \<open>
  Operations of one component, called in any order by any number of clients that hold its
  lock, are a list of calls run one after the other.
\<close>

fun run_all :: "('op \<Rightarrow> ('s, 'r) M) \<Rightarrow> 's \<Rightarrow> 'op list \<Rightarrow> 'r result list \<times> 's" where
  "run_all step s [] = ([], s)"
| "run_all step s (c # cs) =
     (let (r, s') = step c s; (rs, s'') = run_all step s' cs in (r # rs, s''))"

lemma run_all_length: "length (fst (run_all step s cs)) = length cs"
proof (induction cs arbitrary: s)
  case Nil
  show ?case by simp
next
  case (Cons c cs)
  obtain r s' where 1: "step c s = (r, s')" by (cases "step c s")
  obtain rs s'' where 2: "run_all step s' cs = (rs, s'')" by (cases "run_all step s' cs")
  from 1 2 Cons.IH [of s'] show ?case by simp
qed

lemma run_all_evolves:
  assumes "evolution R" and "\<And>c. evolves R (step c)"
  shows "R s (snd (run_all step s cs))"
proof (induction cs arbitrary: s)
  case Nil
  show ?case using assms(1) by (simp add: evolution_def)
next
  case (Cons c cs)
  obtain r s' where 1: "step c s = (r, s')" by (cases "step c s")
  obtain rs s'' where 2: "run_all step s' cs = (rs, s'')" by (cases "run_all step s' cs")
  have "R s s'" using assms(2) 1 by (rule evolvesD)
  moreover have "R s' s''" using Cons.IH [of s'] 2 by simp
  ultimately have "R s s''" using assms(1) unfolding evolution_def by blast
  with 1 2 show ?case by simp
qed

lemma run_all_append:
  "run_all step s (xs @ ys) =
     (let (r, s') = run_all step s xs; (q, s'') = run_all step s' ys in (r @ q, s''))"
  by (induction xs arbitrary: s) (auto simp: Let_def split: prod.splits)

section \<open>Dictionaries\<close>

type_synonym ('k, 'v) alist = "('k \<times> 'v) list"

abbreviation aget :: "('k, 'v) alist \<Rightarrow> 'k \<Rightarrow> 'v option" where
  "aget \<equiv> map_of"

abbreviation aset :: "'k \<Rightarrow> 'v \<Rightarrow> ('k, 'v) alist \<Rightarrow> ('k, 'v) alist" where
  "aset \<equiv> AList.update"

abbreviation adel :: "'k \<Rightarrow> ('k, 'v) alist \<Rightarrow> ('k, 'v) alist" where
  "adel \<equiv> AList.delete"

lemma aget_aset [simp]: "aget (aset k v d) k' = (if k' = k then Some v else aget d k')"
  by (simp add: update_conv')

lemma aget_adel [simp]: "aget (adel k d) k' = (if k' = k then None else aget d k')"
  by (simp add: delete_conv')

lemma fst_set_aset: "fst ` set (aset k v d) = insert k (fst ` set d)"
  by (simp add: dom_update)

lemma fst_set_adel: "fst ` set (adel k d) = fst ` set d - {k}"
  by (induction d) auto

section \<open>Lists\<close>

fun find_index :: "('a \<Rightarrow> bool) \<Rightarrow> 'a list \<Rightarrow> nat option" where
  "find_index p [] = None"
| "find_index p (x # xs) = (if p x then Some 0 else map_option Suc (find_index p xs))"

lemma find_index_Some:
  "find_index p xs = Some i \<Longrightarrow> i < length xs \<and> p (xs ! i) \<and> (\<forall>j < i. \<not> p (xs ! j))"
proof (induction xs arbitrary: i)
  case Nil
  then show ?case by simp
next
  case (Cons x xs)
  show ?case
  proof (cases "p x")
    case True
    with Cons.prems show ?thesis by simp
  next
    case False
    with Cons.prems obtain j where j: "find_index p xs = Some j" "i = Suc j"
      by auto
    with Cons.IH [OF j(1)] False show ?thesis
      by (auto simp: nth_Cons' less_Suc_eq_0_disj)
  qed
qed

fun last_opt :: "'a list \<Rightarrow> 'a option" where
  "last_opt [] = None"
| "last_opt [x] = Some x"
| "last_opt (x # y # ys) = last_opt (y # ys)"

fun is_prefix_list :: "'a list \<Rightarrow> 'a list \<Rightarrow> bool" where
  "is_prefix_list [] ys = True"
| "is_prefix_list (x # xs) [] = False"
| "is_prefix_list (x # xs) (y # ys) = (x = y \<and> is_prefix_list xs ys)"

lemma is_prefix_list_iff: "is_prefix_list xs ys \<longleftrightarrow> (\<exists>zs. ys = xs @ zs)"
  by (induction xs ys rule: is_prefix_list.induct) auto

lemma is_prefix_list_append [simp]: "is_prefix_list xs (xs @ ys)"
  by (auto simp: is_prefix_list_iff)

end
