(* ===== verification/Pystr.thy ===== *)
theory Pystr
  imports Prelude "HOL-Library.Char_ord" "HOL-Library.List_Lexorder"
begin

text \<open>
  Python's \<open>str\<close> methods, as far as the package uses them.

  A text is a list of characters whose code points are below 256; \<open>string\<close> literals are
  the ASCII ones. The case mappings are Python's on these characters, with three
  exceptions the Latin-1 range cannot hold (the capital of U+00FF, and U+00B5, whose case
  mappings leave the range; the capital of U+00DF, which is two letters): they are left alone.
  Texts are ordered by code point, as Python compares them.
\<close>

type_synonym bytes = "char list"

definition code :: "char \<Rightarrow> nat" where
  "code c = of_char c"

definition chr :: "nat \<Rightarrow> char" where
  "chr n = char_of n"

lemma code_less [simp]: "code c < 256"
  unfolding code_def by (metis nat_of_char_less_256)

lemma chr_code [simp]: "chr (code c) = c"
  by (simp add: chr_def code_def)

lemma code_chr [simp]: "n < 256 \<Longrightarrow> code (chr n) = n"
  by (simp add: chr_def code_def)

lemma code_inject [simp]: "code a = code b \<longleftrightarrow> a = b"
  by (metis chr_code)

section \<open>Character classes\<close>

definition is_space :: "char \<Rightarrow> bool" where
  "is_space c \<longleftrightarrow> (let n = code c in
     9 \<le> n \<and> n \<le> 13 \<or> 28 \<le> n \<and> n \<le> 32 \<or> n = 133 \<or> n = 160)"

definition is_control :: "char \<Rightarrow> bool" where
  "is_control c \<longleftrightarrow> code c \<le> 31 \<or> code c = 127"

definition is_digit :: "char \<Rightarrow> bool" where
  "is_digit c \<longleftrightarrow> 48 \<le> code c \<and> code c \<le> 57"

definition is_lower_az :: "char \<Rightarrow> bool" where
  "is_lower_az c \<longleftrightarrow> 97 \<le> code c \<and> code c \<le> 122"

definition is_upper_az :: "char \<Rightarrow> bool" where
  "is_upper_az c \<longleftrightarrow> 65 \<le> code c \<and> code c \<le> 90"

definition is_hex :: "char \<Rightarrow> bool" where
  "is_hex c \<longleftrightarrow> is_digit c \<or> 97 \<le> code c \<and> code c \<le> 102 \<or> 65 \<le> code c \<and> code c \<le> 70"

text \<open>\<open>\w\<close>: letters, digits and the underscore, the Latin-1 letters and digits included.\<close>

definition is_word :: "char \<Rightarrow> bool" where
  "is_word c \<longleftrightarrow> is_digit c \<or> is_lower_az c \<or> is_upper_az c \<or> c = CHR ''_'' \<or>
     code c \<in> {170, 178, 179, 181, 185, 186, 188, 189, 190} \<or>
     192 \<le> code c \<and> code c \<noteq> 215 \<and> code c \<noteq> 247"

section \<open>Case mappings\<close>

definition lower_char :: "char \<Rightarrow> char" where
  "lower_char c = (let n = code c in
     if 65 \<le> n \<and> n \<le> 90 \<or> 192 \<le> n \<and> n \<le> 222 \<and> n \<noteq> 215 then chr (n + 32) else c)"

definition upper_char :: "char \<Rightarrow> char" where
  "upper_char c = (let n = code c in
     if 97 \<le> n \<and> n \<le> 122 \<or> 224 \<le> n \<and> n \<le> 254 \<and> n \<noteq> 247 then chr (n - 32) else c)"

definition lower :: "string \<Rightarrow> string" where
  "lower s = map lower_char s"

definition upper :: "string \<Rightarrow> string" where
  "upper s = map upper_char s"

text \<open>\<open>casefold\<close> differs from \<open>lower\<close> in the sharp s, which becomes two letters.\<close>

definition casefold :: "string \<Rightarrow> string" where
  "casefold s = concat (map (\<lambda>c. if code c = 223 then ''ss'' else [lower_char c]) s)"

lemma lower_char_idem [simp]: "lower_char (lower_char c) = lower_char c"
proof -
  have "code c < 256" by simp
  then show ?thesis by (auto simp: lower_char_def Let_def)
qed

lemma upper_char_idem [simp]: "upper_char (upper_char c) = upper_char c"
proof -
  have "code c < 256" by simp
  then show ?thesis by (auto simp: upper_char_def Let_def)
qed

lemma lower_idem [simp]: "lower (lower s) = lower s"
  by (simp add: lower_def)

lemma upper_idem [simp]: "upper (upper s) = upper s"
  by (simp add: upper_def)

lemma lower_append [simp]: "lower (s @ t) = lower s @ lower t"
  by (simp add: lower_def)

lemma casefold_append [simp]: "casefold (s @ t) = casefold s @ casefold t"
  by (simp add: casefold_def)

lemma casefold_Nil [simp]: "casefold [] = []"
  by (simp add: casefold_def)

lemma casefold_Cons [simp]:
  "casefold (c # s) = (if code c = 223 then ''ss'' else [lower_char c]) @ casefold s"
  by (simp add: casefold_def)

lemma code_lower_char_223: "code (lower_char c) = 223 \<longleftrightarrow> code c = 223"
proof -
  have "code c < 256" by simp
  then show ?thesis by (auto simp: lower_char_def Let_def)
qed

lemma lower_char_s [simp]: "lower_char (CHR ''s'') = CHR ''s''"
  by (simp add: lower_char_def code_def)

lemma code_s [simp]: "code (CHR ''s'') = 115"
  by (simp add: code_def)

lemma casefold_idem [simp]: "casefold (casefold s) = casefold s"
  by (induction s) (simp_all add: code_lower_char_223)

text \<open>The case mappings as code: they set or clear one bit.\<close>

lemma code_Char: "code (Char b0 b1 b2 b3 b4 b5 b6 b7) =
   of_bool b0 + 2 * of_bool b1 + 4 * of_bool b2 + 8 * of_bool b3 + 16 * of_bool b4 + 32 * of_bool b5 + 64 * of_bool b6 + 128 * of_bool b7"
  by (simp add: code_def)

definition with_bit5 :: "bool \<Rightarrow> char \<Rightarrow> char" where
  "with_bit5 b c = (case c of Char b0 b1 b2 b3 b4 b5 b6 b7 \<Rightarrow> Char b0 b1 b2 b3 b4 b b6 b7)"

lemma low_bits: "of_bool b0 + 2 * of_bool b1 + 4 * of_bool b2 + 8 * of_bool b3 + 16 * of_bool b4 < (32 :: nat)"
  by (cases b0; cases b1; cases b2; cases b3; cases b4) simp_all

lemma lower_char_bits [code]:
  "lower_char c = (let n = code c in if 65 \<le> n \<and> n \<le> 90 \<or> 192 \<le> n \<and> n \<le> 222 \<and> n \<noteq> 215 then with_bit5 True c else c)"
proof -
  obtain b0 b1 b2 b3 b4 b5 b6 b7 where c: "c = Char b0 b1 b2 b3 b4 b5 b6 b7" by (cases c)
  note l = low_bits [of b0 b1 b2 b3 b4]
  have "chr (code c + 32) = with_bit5 True c" if "65 \<le> code c \<and> code c \<le> 90 \<or> 192 \<le> code c \<and> code c \<le> 222 \<and> code c \<noteq> 215"
  proof -
    have "\<not> b5" using that l by (cases b5; cases b6; cases b7) (auto simp: c code_Char)
    then have "code c + 32 = code (with_bit5 True c)" by (simp add: c code_Char with_bit5_def)
    then show ?thesis by simp
  qed
  then show ?thesis by (simp add: lower_char_def Let_def)
qed

lemma upper_char_bits [code]:
  "upper_char c = (let n = code c in if 97 \<le> n \<and> n \<le> 122 \<or> 224 \<le> n \<and> n \<le> 254 \<and> n \<noteq> 247 then with_bit5 False c else c)"
proof -
  obtain b0 b1 b2 b3 b4 b5 b6 b7 where c: "c = Char b0 b1 b2 b3 b4 b5 b6 b7" by (cases c)
  note l = low_bits [of b0 b1 b2 b3 b4]
  have "chr (code c - 32) = with_bit5 False c" if "97 \<le> code c \<and> code c \<le> 122 \<or> 224 \<le> code c \<and> code c \<le> 254 \<and> code c \<noteq> 247"
  proof -
    have "b5" using that l by (cases b5; cases b6; cases b7) (auto simp: c code_Char)
    then have "code c - 32 = code (with_bit5 False c)" by (simp add: c code_Char with_bit5_def)
    then show ?thesis by simp
  qed
  then show ?thesis by (simp add: upper_char_def Let_def)
qed
section \<open>Stripping, splitting and joining\<close>

definition lstrip :: "(char \<Rightarrow> bool) \<Rightarrow> string \<Rightarrow> string" where
  "lstrip p s = dropWhile p s"

definition rstrip :: "(char \<Rightarrow> bool) \<Rightarrow> string \<Rightarrow> string" where
  "rstrip p s = rev (dropWhile p (rev s))"

definition strip :: "(char \<Rightarrow> bool) \<Rightarrow> string \<Rightarrow> string" where
  "strip p s = rstrip p (lstrip p s)"

abbreviation strip_ws :: "string \<Rightarrow> string" where
  "strip_ws \<equiv> strip is_space"

lemma rstrip_idem [simp]: "rstrip p (rstrip p s) = rstrip p s"
  by (simp add: rstrip_def)

text \<open>\<open>s.split(c)\<close> for a one-character separator; never empty.\<close>

fun split_on :: "char \<Rightarrow> string \<Rightarrow> string list" where
  "split_on c [] = [[]]"
| "split_on c (x # xs) =
     (if x = c then [] # split_on c xs
      else (case split_on c xs of [] \<Rightarrow> [[x]] | w # ws \<Rightarrow> (x # w) # ws))"

fun join :: "string \<Rightarrow> string list \<Rightarrow> string" where
  "join sep [] = []"
| "join sep [w] = w"
| "join sep (w # v # ws) = w @ sep @ join sep (v # ws)"

lemma split_on_nonempty [simp]: "split_on c s \<noteq> []"
  by (induction s) (auto split: list.splits)

lemma split_on_no_sep: "w \<in> set (split_on c s) \<Longrightarrow> c \<notin> set w"
  by (induction s arbitrary: w) (auto split: list.splits if_splits)

lemma split_on_free: "c \<notin> set w \<Longrightarrow> split_on c w = [w]"
  by (induction w) auto

lemma join_Cons: "ws \<noteq> [] \<Longrightarrow> join sep (w # ws) = w @ sep @ join sep ws"
  by (cases ws) simp_all

lemma join_split_on: "join [c] (split_on c s) = s"
proof (induction s)
  case Nil
  show ?case by simp
next
  case (Cons x xs)
  obtain w ws where w: "split_on c xs = w # ws" by (cases "split_on c xs") auto
  show ?case
  proof (cases "x = c")
    case True
    with Cons w show ?thesis by simp
  next
    case False
    with Cons w show ?thesis by (cases ws) auto
  qed
qed

lemma split_on_append_sep:
  "c \<notin> set w \<Longrightarrow> split_on c (w @ c # s) = w # split_on c s"
  by (induction w) auto

lemma split_on_join:
  "ws \<noteq> [] \<Longrightarrow> \<forall>w \<in> set ws. c \<notin> set w \<Longrightarrow> split_on c (join [c] ws) = ws"
  by (induction "[c]" ws rule: join.induct) (auto simp: split_on_free split_on_append_sep)

lemma set_split_on: "w \<in> set (split_on c s) \<Longrightarrow> x \<in> set w \<Longrightarrow> x \<in> set s"
  by (induction s arbitrary: w) (force split: list.splits if_splits)+

text \<open>\<open>s.split()\<close>: the maximal runs of characters that are not white space.\<close>

fun tokens_acc :: "(char \<Rightarrow> bool) \<Rightarrow> string \<Rightarrow> string \<Rightarrow> string list" where
  "tokens_acc p acc [] = (if acc = [] then [] else [rev acc])"
| "tokens_acc p acc (x # xs) =
     (if p x then (if acc = [] then [] else [rev acc]) @ tokens_acc p [] xs
      else tokens_acc p (x # acc) xs)"

definition split_ws :: "string \<Rightarrow> string list" where
  "split_ws s = tokens_acc is_space [] s"

lemma tokens_acc_props:
  "w \<in> set (tokens_acc p acc s) \<Longrightarrow> \<forall>x \<in> set acc. \<not> p x \<Longrightarrow> w \<noteq> [] \<and> (\<forall>x \<in> set w. \<not> p x)"
  by (induction p acc s arbitrary: w rule: tokens_acc.induct) (auto split: if_splits)

lemma split_ws_props: "w \<in> set (split_ws s) \<Longrightarrow> w \<noteq> [] \<and> (\<forall>x \<in> set w. \<not> is_space x)"
  unfolding split_ws_def by (rule tokens_acc_props) auto

lemma tokens_acc_word:
  "\<forall>x \<in> set w. \<not> p x \<Longrightarrow> tokens_acc p acc (w @ s) = tokens_acc p (rev w @ acc) s"
  by (induction w arbitrary: acc) auto

lemma tokens_acc_sep:
  "p x \<Longrightarrow> tokens_acc p acc (x # s) = (if acc = [] then [] else [rev acc]) @ tokens_acc p [] s"
  by simp

lemma is_space_blank [simp]: "is_space CHR '' ''"
  by (simp add: is_space_def code_def)

lemma split_ws_join:
  "\<forall>w \<in> set ws. w \<noteq> [] \<and> (\<forall>x \<in> set w. \<not> is_space x) \<Longrightarrow> split_ws (join '' '' ws) = ws"
  unfolding split_ws_def
  by (induction "'' ''" ws rule: join.induct) (auto simp: tokens_acc_word tokens_acc_word [where s = "[]", simplified])

section \<open>Searching\<close>

abbreviation startswith :: "string \<Rightarrow> string \<Rightarrow> bool" where
  "startswith s p \<equiv> is_prefix_list p s"

definition endswith :: "string \<Rightarrow> string \<Rightarrow> bool" where
  "endswith s e \<longleftrightarrow> is_prefix_list (rev e) (rev s)"

lemma endswith_iff: "endswith s e \<longleftrightarrow> (\<exists>t. s = t @ e)"
  unfolding endswith_def is_prefix_list_iff
  by (metis rev_append rev_rev_ident)

text \<open>\<open>needle in s\<close>.\<close>

fun contains :: "string \<Rightarrow> string \<Rightarrow> bool" where
  "contains needle [] = (needle = [])"
| "contains needle (x # xs) = (is_prefix_list needle (x # xs) \<or> contains needle xs)"

lemma contains_iff: "contains needle s \<longleftrightarrow> (\<exists>u v. s = u @ needle @ v)"
proof (induction s)
  case Nil
  show ?case by auto
next
  case (Cons x xs)
  show ?case
  proof
    assume "contains needle (x # xs)"
    then consider "is_prefix_list needle (x # xs)" | "contains needle xs" by auto
    then show "\<exists>u v. x # xs = u @ needle @ v"
    proof cases
      case 1
      then obtain v where "x # xs = [] @ needle @ v" by (auto simp: is_prefix_list_iff)
      then show ?thesis by blast
    next
      case 2
      with Cons.IH obtain u v where "xs = u @ needle @ v" by blast
      then have "x # xs = (x # u) @ needle @ v" by simp
      then show ?thesis by blast
    qed
  next
    assume "\<exists>u v. x # xs = u @ needle @ v"
    then obtain u v where uv: "x # xs = u @ needle @ v" by blast
    show "contains needle (x # xs)"
    proof (cases u)
      case Nil
      with uv have "is_prefix_list needle (x # xs)" by (auto simp: is_prefix_list_iff)
      then show ?thesis by simp
    next
      case (Cons y ys)
      with uv have "xs = ys @ needle @ v" by simp
      with Cons.IH show ?thesis by auto
    qed
  qed
qed

text \<open>\<open>s.count(needle)\<close>: occurrences that do not overlap.\<close>

function count_sub :: "string \<Rightarrow> string \<Rightarrow> nat" where
  "count_sub needle s =
     (if needle = [] then length s + 1
      else if s = [] then 0
      else if is_prefix_list needle s then 1 + count_sub needle (drop (length needle) s)
      else count_sub needle (tl s))"
  by pat_completeness auto
termination
  by (relation "measure (\<lambda>(n, s). length s)") (auto simp: neq_Nil_conv)

declare count_sub.simps [simp del]

text \<open>\<open>s.replace(old, new)\<close> for a non-empty \<open>old\<close>.\<close>

function replace_sub :: "string \<Rightarrow> string \<Rightarrow> string \<Rightarrow> string" where
  "replace_sub old new s =
     (if s = [] \<or> old = [] then s
      else if is_prefix_list old s then new @ replace_sub old new (drop (length old) s)
      else hd s # replace_sub old new (tl s))"
  by pat_completeness auto
termination
  by (relation "measure (\<lambda>(u, n, s). length s)") (auto simp: neq_Nil_conv)

declare replace_sub.simps [simp del]

text \<open>\<open>s.split(sep, 1)\<close>: \<open>None\<close> when the separator does not occur.\<close>

fun split_once :: "string \<Rightarrow> string \<Rightarrow> (string \<times> string) option" where
  "split_once sep [] = (if sep = [] then Some ([], []) else None)"
| "split_once sep (x # xs) =
     (if is_prefix_list sep (x # xs) then Some ([], drop (length sep) (x # xs))
      else map_option (\<lambda>(a, b). (x # a, b)) (split_once sep xs))"

lemma split_once_Some: "split_once sep s = Some (a, b) \<Longrightarrow> s = a @ sep @ b"
proof (induction s arbitrary: a b)
  case Nil
  then show ?case by (auto split: if_splits)
next
  case (Cons x xs)
  show ?case
  proof (cases "is_prefix_list sep (x # xs)")
    case True
    then obtain z where z: "x # xs = sep @ z" by (auto simp: is_prefix_list_iff)
    with True Cons.prems show ?thesis
      by (metis append_Nil append_eq_conv_conj option.inject prod.inject split_once.simps(2))
  next
    case False
    with Cons.prems obtain a' where "split_once sep xs = Some (a', b)" "a = x # a'"
      by (auto split: if_splits prod.splits)
    with Cons.IH show ?thesis by simp
  qed
qed

lemma split_once_char:
  "c \<notin> set a \<Longrightarrow> split_once [c] (a @ c # b) = Some (a, b)"
  by (induction a) (auto simp: is_prefix_list_iff)

text \<open>\<open>str.splitlines()\<close>: line boundaries are those of Python, a carriage return followed
  by a line feed counting as one.\<close>

definition is_line_end :: "char \<Rightarrow> bool" where
  "is_line_end c \<longleftrightarrow> 10 \<le> code c \<and> code c \<le> 13 \<or> 28 \<le> code c \<and> code c \<le> 30 \<or> code c = 133"

fun lines_acc :: "string \<Rightarrow> string \<Rightarrow> string list" where
  "lines_acc acc [] = (if acc = [] then [] else [rev acc])"
| "lines_acc acc [x] = (if is_line_end x then [rev acc] else [rev (x # acc)])"
| "lines_acc acc (x # y # ys) =
     (if code x = 13 \<and> code y = 10 then rev acc # lines_acc [] ys
      else if is_line_end x then rev acc # lines_acc [] (y # ys)
      else lines_acc (x # acc) (y # ys))"

definition splitlines :: "string \<Rightarrow> string list" where
  "splitlines s = lines_acc [] s"

section \<open>Numbers and encodings\<close>

fun nat_digits :: "nat \<Rightarrow> string" where
  "nat_digits n = (if n < 10 then [chr (48 + n)] else nat_digits (n div 10) @ [chr (48 + n mod 10)])"

declare nat_digits.simps [simp del]

definition int_digits :: "int \<Rightarrow> string" where
  "int_digits i = (if i < 0 then CHR ''-'' # nat_digits (nat (- i)) else nat_digits (nat i))"

text \<open>\<open>f"{n:06d}"\<close>.\<close>

definition zero_pad :: "nat \<Rightarrow> string \<Rightarrow> string" where
  "zero_pad k s = replicate (k - length s) CHR ''0'' @ s"

text \<open>\<open>s.encode("utf-8")\<close>: two bytes from code point 128 on.\<close>

definition utf8 :: "string \<Rightarrow> bytes" where
  "utf8 s = concat (map (\<lambda>c. if code c < 128 then [c]
                             else [chr (192 + code c div 64), chr (128 + code c mod 64)]) s)"

lemma utf8_ascii: "\<forall>c \<in> set s. code c < 128 \<Longrightarrow> utf8 s = s"
  by (induction s) (auto simp: utf8_def)

end
