(* ===== verification/Regex.thy ===== *)
theory Regex
  imports Pystr
begin

text \<open>
  The regular expressions of the package are values of a datatype, matched by Brzozowski
  derivatives. \<open>fullmatch_iff\<close>, \<open>search_iff\<close> and \<open>match_iff\<close> state that the three
  entry points of Python's \<open>re\<close> decide the language of the expression.
  Character classes are predicates; the dot leaves out the line feed.
\<close>

datatype rexp =
    Zero
  | One
  | Cls "char \<Rightarrow> bool"
  | Cat rexp rexp
  | Alt rexp rexp
  | Star rexp

inductive_set star_lang :: "string set \<Rightarrow> string set" for L where
  star_Nil: "[] \<in> star_lang L"
| star_Cons: "u \<in> L \<Longrightarrow> v \<in> star_lang L \<Longrightarrow> u @ v \<in> star_lang L"

fun lang :: "rexp \<Rightarrow> string set" where
  "lang Zero = {}"
| "lang One = {[]}"
| "lang (Cls p) = {[c] | c. p c}"
| "lang (Cat r s) = {u @ v | u v. u \<in> lang r \<and> v \<in> lang s}"
| "lang (Alt r s) = lang r \<union> lang s"
| "lang (Star r) = star_lang (lang r)"

fun nullable :: "rexp \<Rightarrow> bool" where
  "nullable Zero = False"
| "nullable One = True"
| "nullable (Cls p) = False"
| "nullable (Cat r s) = (nullable r \<and> nullable s)"
| "nullable (Alt r s) = (nullable r \<or> nullable s)"
| "nullable (Star r) = True"

text \<open>Constructors that drop empty alternatives, so that derivatives stay small.\<close>

fun cat :: "rexp \<Rightarrow> rexp \<Rightarrow> rexp" where
  "cat Zero s = Zero"
| "cat One s = s"
| "cat r s = (if s = Zero then Zero else Cat r s)"

fun alt :: "rexp \<Rightarrow> rexp \<Rightarrow> rexp" where
  "alt Zero s = s"
| "alt r Zero = r"
| "alt r s = Alt r s"

fun deriv :: "char \<Rightarrow> rexp \<Rightarrow> rexp" where
  "deriv c Zero = Zero"
| "deriv c One = Zero"
| "deriv c (Cls p) = (if p c then One else Zero)"
| "deriv c (Cat r s) =
     (if nullable r then alt (cat (deriv c r) s) (deriv c s) else cat (deriv c r) s)"
| "deriv c (Alt r s) = alt (deriv c r) (deriv c s)"
| "deriv c (Star r) = cat (deriv c r) (Star r)"

fun fullmatch :: "rexp \<Rightarrow> string \<Rightarrow> bool" where
  "fullmatch r [] = nullable r"
| "fullmatch r (c # s) = fullmatch (deriv c r) s"

section \<open>Correctness\<close>

lemma nullable_iff: "nullable r \<longleftrightarrow> [] \<in> lang r"
  by (induction r) (auto intro: star_lang.intros)

lemma lang_cat [simp]: "lang (cat r s) = lang (Cat r s)"
  by (cases r) (auto split: if_splits)

lemma lang_alt [simp]: "lang (alt r s) = lang (Alt r s)"
  by (cases r; cases s) auto

lemma star_lang_step:
  "x \<in> star_lang L \<Longrightarrow> x = c # w \<Longrightarrow> \<exists>u v. w = u @ v \<and> c # u \<in> L \<and> v \<in> star_lang L"
proof (induction arbitrary: w rule: star_lang.induct)
  case star_Nil
  then show ?case by simp
next
  case (star_Cons u v)
  then show ?case by (cases u) auto
qed

lemma lang_deriv: "w \<in> lang (deriv c r) \<longleftrightarrow> c # w \<in> lang r"
proof (induction r arbitrary: w)
  case (Cat r s)
  have "(c # w \<in> lang (Cat r s)) \<longleftrightarrow>
      (\<exists>u v. w = u @ v \<and> c # u \<in> lang r \<and> v \<in> lang s) \<or> ([] \<in> lang r \<and> c # w \<in> lang s)"
    by (auto simp: Cons_eq_append_conv)
  also have "\<dots> \<longleftrightarrow> w \<in> lang (deriv c (Cat r s))"
    using Cat.IH by (auto simp: nullable_iff)
  finally show ?case by blast
next
  case (Star r)
  show ?case
  proof
    assume "w \<in> lang (deriv c (Star r))"
    then obtain u v where "w = u @ v" "c # u \<in> lang r" "v \<in> star_lang (lang r)"
      using Star.IH by auto
    then have "(c # u) @ v \<in> star_lang (lang r)" by (intro star_Cons)
    with \<open>w = u @ v\<close> show "c # w \<in> lang (Star r)" by simp
  next
    assume "c # w \<in> lang (Star r)"
    then obtain u v where "w = u @ v" "c # u \<in> lang r" "v \<in> star_lang (lang r)"
      using star_lang_step by (metis lang.simps(6))
    with Star.IH show "w \<in> lang (deriv c (Star r))" by auto
  qed
qed (auto split: if_splits)

theorem fullmatch_iff: "fullmatch r s \<longleftrightarrow> s \<in> lang r"
  by (induction s arbitrary: r) (auto simp: nullable_iff lang_deriv)

section \<open>Derived expressions\<close>

definition any :: rexp where
  "any = Cls (\<lambda>c. True)"

definition not_newline :: "char \<Rightarrow> bool" where
  "not_newline c \<longleftrightarrow> code c \<noteq> 10"

definition dot :: rexp where
  "dot = Cls not_newline"

definition opt :: "rexp \<Rightarrow> rexp" where
  "opt r = Alt One r"

definition plus :: "rexp \<Rightarrow> rexp" where
  "plus r = Cat r (Star r)"

fun cats :: "rexp list \<Rightarrow> rexp" where
  "cats [] = One"
| "cats [r] = r"
| "cats (r # q # rs) = Cat r (cats (q # rs))"

fun alts :: "rexp list \<Rightarrow> rexp" where
  "alts [] = Zero"
| "alts [r] = r"
| "alts (r # q # rs) = Alt r (alts (q # rs))"

text \<open>A literal, and a literal under \<open>re.IGNORECASE\<close>.\<close>

definition lit :: "string \<Rightarrow> rexp" where
  "lit s = cats (map (\<lambda>x. Cls (\<lambda>c. c = x)) s)"

definition same_letter :: "char \<Rightarrow> char \<Rightarrow> bool" where
  "same_letter x c \<longleftrightarrow> lower_char c = lower_char x"

definition liti :: "string \<Rightarrow> rexp" where
  "liti s = cats (map (\<lambda>x. Cls (same_letter x)) s)"

fun upto :: "nat \<Rightarrow> rexp \<Rightarrow> rexp" where
  "upto 0 r = One"
| "upto (Suc n) r = opt (Cat r (upto n r))"

definition search :: "rexp \<Rightarrow> string \<Rightarrow> bool" where
  "search r s = fullmatch (Cat (Star any) (Cat r (Star any))) s"

definition rmatch :: "rexp \<Rightarrow> string \<Rightarrow> bool" where
  "rmatch r s = fullmatch (Cat r (Star any)) s"

lemma star_lang_UNIV: "(\<And>c. [c] \<in> L) \<Longrightarrow> w \<in> star_lang L"
proof (induction w)
  case Nil
  show ?case by (rule star_Nil)
next
  case (Cons c w)
  then have "[c] @ w \<in> star_lang L" by (intro star_Cons) auto
  then show ?case by simp
qed

lemma lang_star_any [simp]: "lang (Star any) = UNIV"
  by (auto simp: any_def intro: star_lang_UNIV)

theorem search_iff: "search r s \<longleftrightarrow> (\<exists>u w v. s = u @ w @ v \<and> w \<in> lang r)"
  unfolding search_def fullmatch_iff by (simp del: lang.simps(6)) blast

theorem rmatch_iff: "rmatch r s \<longleftrightarrow> (\<exists>w v. s = w @ v \<and> w \<in> lang r)"
  unfolding rmatch_def fullmatch_iff by (auto simp del: lang.simps(6))

lemma lang_opt [simp]: "lang (opt r) = insert [] (lang r)"
  by (auto simp: opt_def)

lemma lang_cats_Cons: "lang (cats (r # rs)) = {u @ v | u v. u \<in> lang r \<and> v \<in> lang (cats rs)}"
  by (cases rs) auto

lemma Cls_prefix: "(\<exists>u v. w = u @ v \<and> (\<exists>c. u = [c] \<and> p c) \<and> Q v) \<longleftrightarrow> (\<exists>c v. w = c # v \<and> p c \<and> Q v)"
  by (metis append_Cons append_Nil)

lemma lang_Cat_Cls: "w \<in> lang (Cat (Cls p) r) \<longleftrightarrow> (\<exists>c v. w = c # v \<and> p c \<and> v \<in> lang r)"
  by (simp add: Cls_prefix)

lemma lang_alts: "lang (alts rs) = (\<Union>r \<in> set rs. lang r)"
  by (induction rs rule: alts.induct) auto

lemma lang_lit [simp]: "lang (lit s) = {s}"
  unfolding lit_def by (induction s) (auto simp: lang_cats_Cons simp del: cats.simps(2,3))

lemma lang_liti: "lang (liti s) = {w. lower w = lower s}"
  unfolding liti_def
proof (induction s)
  case Nil
  show ?case by (auto simp: lower_def)
next
  case (Cons x s)
  have "w \<in> lang (cats (map (\<lambda>x. Cls (same_letter x)) (x # s))) \<longleftrightarrow>
      (\<exists>c v. w = c # v \<and> lower_char c = lower_char x \<and> lower v = lower s)" for w
    by (simp add: same_letter_def lang_cats_Cons Cons.IH Cls_prefix [where Q = "\<lambda>v. lower v = lower s"]
        del: cats.simps(2,3))
  also have "\<dots> w \<longleftrightarrow> lower w = lower (x # s)" for w
    by (auto simp: lower_def map_eq_Cons_conv)
  finally show ?case by auto
qed

lemma star_lang_Cls: "w \<in> star_lang {[c] | c. p c} \<longleftrightarrow> (\<forall>c \<in> set w. p c)"
proof
  assume "w \<in> star_lang {[c] | c. p c}"
  then show "\<forall>c \<in> set w. p c" by induction auto
next
  assume "\<forall>c \<in> set w. p c"
  then show "w \<in> star_lang {[c] | c. p c}"
  proof (induction w)
    case Nil
    show ?case by (rule star_Nil)
  next
    case (Cons c w)
    then have "[c] @ w \<in> star_lang {[c] | c. p c}" by (intro star_Cons) auto
    then show ?case by simp
  qed
qed

lemma lang_star_Cls: "w \<in> lang (Star (Cls p)) \<longleftrightarrow> (\<forall>c \<in> set w. p c)"
  by (simp add: star_lang_Cls)

text \<open>
  A word alone: \<open>r\<close> at a place where the text before it is empty or ends in a \<open>sep\<close>, and the
  text after it is empty or starts with one. This is \<open>(?:^|sep)r(?:$|sep)\<close> where the
  line feed is a separator, and \<open>\b r \b\<close> where \<open>r\<close> starts and ends with word
  characters and \<open>sep\<close> is their complement.
\<close>

definition delimited :: "(char \<Rightarrow> bool) \<Rightarrow> rexp \<Rightarrow> rexp" where
  "delimited sep r =
     Cat (Alt One (Cat (Star any) (Cls sep))) (Cat r (Alt One (Cat (Cls sep) (Star any))))"

lemma lang_delimited:
  "s \<in> lang (delimited sep r) \<longleftrightarrow>
     (\<exists>u w v. s = u @ w @ v \<and> w \<in> lang r \<and> (u = [] \<or> sep (last u)) \<and> (v = [] \<or> sep (hd v)))"
proof
  assume "s \<in> lang (delimited sep r)"
  then show "\<exists>u w v. s = u @ w @ v \<and> w \<in> lang r \<and> (u = [] \<or> sep (last u)) \<and> (v = [] \<or> sep (hd v))"
    unfolding delimited_def
    by (auto simp del: lang.simps(6)) (metis append.assoc append_Cons append_Nil hd_Cons_tl
        last_snoc list.sel(1) append_Nil2)+
next
  assume "\<exists>u w v. s = u @ w @ v \<and> w \<in> lang r \<and> (u = [] \<or> sep (last u)) \<and> (v = [] \<or> sep (hd v))"
  then obtain u w v where s: "s = u @ w @ v" "w \<in> lang r"
    and u: "u = [] \<or> sep (last u)" and v: "v = [] \<or> sep (hd v)" by blast
  have U: "u \<in> lang (Alt One (Cat (Star any) (Cls sep)))"
  proof (cases "u = []")
    case False
    with u have "u = butlast u @ [last u]" "sep (last u)" by auto
    then show ?thesis by (simp del: lang.simps(6)) metis
  qed simp
  have V: "v \<in> lang (Alt One (Cat (Cls sep) (Star any)))"
  proof (cases v)
    case (Cons x xs)
    with v have "v = [x] @ xs" "sep x" by auto
    then have "v \<in> lang (Cat (Cls sep) (Star any))"
      using Cons by (simp only: lang_Cat_Cls lang_star_any) auto
    then show ?thesis by simp
  qed simp
  from s U V show "s \<in> lang (delimited sep r)"
    unfolding delimited_def by (simp del: lang.simps(5,6)) blast
qed

end
