(* ===== verification/Boundaries.thy ===== *)
theory Boundaries
  imports Regex
begin

text \<open>
  \<open>src/jvc/policy/boundaries.py\<close>: path resolution, containment in a project root, the
  secret and control-plane classifications and \<open>assert_permitted_path\<close>.

  An absolute path is the list of its components (the empty list is the file system root).
  \<open>resolve_from\<close> is the walk of \<open>os.path.realpath\<close>: it drops empty and dot components,
  goes up on a double dot and follows symbolic links, which \<open>links\<close> gives as a function
  (a flag for an absolute target, and the components of the target). A walk that never
  ends is a loop of links, where \<open>Path.resolve\<close> raises \<open>RuntimeError\<close>. The platform is
  POSIX: \<open>os.path.normcase\<close> is the identity and the separator is the slash.
\<close>

section \<open>Paths\<close>

type_synonym path = "string list"
type_synonym links = "path \<Rightarrow> (bool \<times> string list) option"

partial_function (option) resolve_from :: "links \<Rightarrow> path \<Rightarrow> string list \<Rightarrow> path option" where
  "resolve_from L acc cs =
     (case cs of
        [] \<Rightarrow> Some acc
      | c # rest \<Rightarrow>
          if c = '''' \<or> c = ''.'' then resolve_from L acc rest
          else if c = ''..'' then resolve_from L (butlast acc) rest
          else (case L (acc @ [c]) of
                  None \<Rightarrow> resolve_from L (acc @ [c]) rest
                | Some (absolute, target) \<Rightarrow>
                    resolve_from L (if absolute then [] else acc) (target @ rest)))"

declare resolve_from.simps [code]

definition resolve :: "links \<Rightarrow> path \<Rightarrow> path option" where
  "resolve L p = resolve_from L [] p"

definition path_str :: "path \<Rightarrow> string" where
  "path_str p = (if p = [] then ''/'' else concat (map (\<lambda>c. CHR ''/'' # c) p))"

definition posix_rel :: "path \<Rightarrow> string" where
  "posix_rel p = (if p = [] then ''.'' else join ''/'' p)"

text \<open>A component that names an entry, and a path no step of which is a link.\<close>

definition plain_name :: "string \<Rightarrow> bool" where
  "plain_name c \<longleftrightarrow> c \<noteq> '''' \<and> c \<noteq> ''.'' \<and> c \<noteq> ''..''"

definition physical :: "links \<Rightarrow> path \<Rightarrow> bool" where
  "physical L p \<longleftrightarrow> (\<forall>c \<in> set p. plain_name c) \<and> (\<forall>i < length p. L (take (Suc i) p) = None)"

lemma physical_Nil [simp]: "physical L []"
  by (simp add: physical_def)

lemma physical_snoc: "physical L (p @ [c]) \<longleftrightarrow> physical L p \<and> plain_name c \<and> L (p @ [c]) = None"
  by (auto simp: physical_def less_Suc_eq)

lemma physical_butlast: "physical L p \<Longrightarrow> physical L (butlast p)"
  by (cases p rule: rev_cases) (auto simp: physical_snoc)

text \<open>Whatever resolution returns is physical, and a physical path resolves to itself.\<close>

lemma resolve_from_physical:
  assumes "resolve_from L acc cs = Some p" and "physical L acc"
  shows "physical L p"
proof -
  have "physical L acc \<longrightarrow> physical L p"
  proof (rule resolve_from.raw_induct [where P = "\<lambda>L acc cs p. physical L acc \<longrightarrow> physical L p",
        OF _ assms(1)])
    fix f and L :: links and acc cs p
    assume IH: "\<And>L acc cs p. f L acc cs = Some p \<Longrightarrow> physical L acc \<longrightarrow> physical L p"
      and eq: "(case cs of [] \<Rightarrow> Some acc | c # rest \<Rightarrow>
          if c = '''' \<or> c = ''.'' then f L acc rest
          else if c = ''..'' then f L (butlast acc) rest
          else (case L (acc @ [c]) of None \<Rightarrow> f L (acc @ [c]) rest
                | Some (absolute, target) \<Rightarrow> f L (if absolute then [] else acc) (target @ rest)))
        = Some p"
    show "physical L acc \<longrightarrow> physical L p"
    proof
      assume acc: "physical L acc"
      show "physical L p"
      proof (cases cs)
        case Nil
        with eq acc show ?thesis by simp
      next
        case (Cons c rest)
        with eq acc show ?thesis
          by (auto simp: physical_snoc plain_name_def split: if_splits option.splits prod.splits
              dest!: IH intro: physical_butlast)
      qed
    qed
  qed
  with assms(2) show ?thesis by blast
qed

lemma resolve_physical: "resolve L p = Some q \<Longrightarrow> physical L q"
  unfolding resolve_def using resolve_from_physical physical_Nil by blast

lemma resolve_from_physical_id:
  "physical L (acc @ cs) \<Longrightarrow> resolve_from L acc cs = Some (acc @ cs)"
proof (induction cs arbitrary: acc)
  case Nil
  show ?case by (subst resolve_from.simps) simp
next
  case (Cons c cs)
  then have "physical L ((acc @ [c]) @ cs)" by simp
  moreover from this have "plain_name c" and "L (acc @ [c]) = None"
    by (auto simp: physical_def dest!: spec [of _ "length acc"])
  ultimately show ?case
    using Cons.IH [of "acc @ [c]"] by (subst resolve_from.simps) (auto simp: plain_name_def)
qed

lemma resolve_idem: "physical L p \<Longrightarrow> resolve L p = Some p"
  unfolding resolve_def using resolve_from_physical_id [of L "[]" p] by simp

text \<open>\<open>candidate.relative_to(root)\<close> on resolved paths.\<close>

definition relative_to :: "path \<Rightarrow> path \<Rightarrow> path option" where
  "relative_to p root = (if is_prefix_list root p then Some (drop (length root) p) else None)"

lemma relative_to_Some [simp]: "relative_to p root = Some q \<longleftrightarrow> p = root @ q"
  by (auto simp: relative_to_def is_prefix_list_iff)

text \<open>\<open>is_within\<close>: a loop of links is outside.\<close>

definition is_within :: "links \<Rightarrow> path \<Rightarrow> path \<Rightarrow> bool" where
  "is_within L candidate root =
     (case (resolve L candidate, resolve L root) of
        (Some c, Some r) \<Rightarrow> relative_to c r \<noteq> None
      | _ \<Rightarrow> False)"

text \<open>\<open>normalize_path\<close>: lexical only. Two leading slashes are kept, as POSIX has it.\<close>

fun norm_parts :: "string list \<Rightarrow> string list \<Rightarrow> string list" where
  "norm_parts acc [] = acc"
| "norm_parts acc (c # cs) =
     (if c = '''' \<or> c = ''.'' then norm_parts acc cs
      else if c = ''..'' then norm_parts (butlast acc) cs
      else norm_parts (acc @ [c]) cs)"

definition normpath_abs :: "string \<Rightarrow> string" where
  "normpath_abs p =
     (if startswith p ''//'' \<and> \<not> startswith p ''///'' then ''//'' else ''/'')
       @ join ''/'' (norm_parts [] (split_on CHR ''/'' p))"

definition abspath :: "string \<Rightarrow> string \<Rightarrow> string" where
  "abspath cwd p = normpath_abs (if startswith p ''/'' then p else cwd @ ''/'' @ p)"

definition normalize_path :: "string \<Rightarrow> string \<Rightarrow> string" where
  "normalize_path cwd p = normpath_abs (abspath cwd p)"

section \<open>Classifications\<close>

definition slashes :: "string \<Rightarrow> string" where
  "slashes s = map (\<lambda>c. if c = CHR 0x5C then CHR ''/'' else c) s"

definition CONTROL_RE :: rexp where
  "CONTROL_RE = Cls is_control"

definition ENCODED_PATH_ALIAS_RE :: rexp where
  "ENCODED_PATH_ALIAS_RE = cats [lit ''%'', Cls is_hex, Cls is_hex]"

text \<open>\<open>stem(?:\..*)?\<close>, the shape of the alternatives of the secret pattern.\<close>

definition named :: "rexp \<Rightarrow> rexp" where
  "named r = Cat r (opt (Cat (liti ''.'') (Star dot)))"

definition word_gap :: "char \<Rightarrow> bool" where
  "word_gap c \<longleftrightarrow> c \<in> {CHR ''-'', CHR ''_'', CHR '' ''}"

definition SECRET_RE :: rexp where
  "SECRET_RE = alts
     [named (liti ''.env''),
      named (Cat (liti ''credential'') (opt (liti ''s''))),
      named (Cat (liti ''secret'') (opt (liti ''s''))),
      named (Cat (liti ''token'') (opt (liti ''s''))),
      named (liti ''auth''),
      named (liti ''id_rsa''),
      named (liti ''id_ed25519''),
      cats [Star dot, liti ''recovery'', opt (Cls word_gap),
            Alt (liti ''phrase'') (liti ''seed''), Star dot]]"

definition SECRET_SUFFIXES :: "string list" where
  "SECRET_SUFFIXES = [''.pem'', ''.key'', ''.ppk'', ''.p12'', ''.pfx'']"

definition DEFAULT_CONTROL_PLANE_EXACT :: "string list" where
  "DEFAULT_CONTROL_PLANE_EXACT =
     [''.continuity/policy.json'', ''.continuity/state.json'', ''.continuity/plan-index.json'',
      ''.continuity/decision-index.json'', ''_config/declared-execution-manifest.json'',
      ''_config/governance-policy.json'', ''_config/jvc-executor-integrity.json'',
      ''_config/trusted-executables.json'', ''_config/continuity-contract.md'',
      ''_config/startup-budgets.json'']"

definition DEFAULT_CONTROL_PLANE_PREFIXES :: "string list" where
  "DEFAULT_CONTROL_PLANE_PREFIXES =
     [''.git/'', ''.continuity/'', ''_config/'', ''_promotions/'', ''contracts/'']"

text \<open>\<open>Path(name).suffix\<close>: from the last dot on, unless that dot is first or last.\<close>

definition path_suffix :: "string \<Rightarrow> string" where
  "path_suffix name =
     (let ext = takeWhile (\<lambda>c. c \<noteq> CHR ''.'') (rev name)
      in if ext \<noteq> [] \<and> length ext + 1 < length name then CHR ''.'' # rev ext else '''')"

text \<open>\<open>Path(p).name\<close>.\<close>

definition path_name :: "string \<Rightarrow> string" where
  "path_name p =
     (case last_opt (filter (\<lambda>c. c \<noteq> '''' \<and> c \<noteq> ''.'') (split_on CHR ''/'' p)) of
        None \<Rightarrow> '''' | Some n \<Rightarrow> n)"

definition clean_rel :: "string \<Rightarrow> string" where
  "clean_rel p = strip (\<lambda>c. c = CHR ''/'') (casefold (slashes p))"

definition secret_part :: "string \<Rightarrow> bool" where
  "secret_part part \<longleftrightarrow> fullmatch SECRET_RE part \<or> casefold (path_suffix part) \<in> set SECRET_SUFFIXES"

definition is_secret_path :: "string \<Rightarrow> bool" where
  "is_secret_path p =
     (let clean = clean_rel p in
      if clean \<in> set [''.claude/settings.local.json'', ''.ssh/config'', ''.ssh/authorized_keys'',
                      ''.ssh/id_rsa'', ''.ssh/id_ed25519''] then True
      else \<exists>part \<in> set (filter (\<lambda>c. c \<noteq> '''') (split_on CHR ''/'' clean)). secret_part part)"

definition is_control_plane_path :: "string \<Rightarrow> string list option \<Rightarrow> string list option \<Rightarrow> bool" where
  "is_control_plane_path p protected_prefixes protected_exact =
     (let clean = clean_rel p;
          exact = (case protected_exact of Some (e # es) \<Rightarrow> e # es
                   | _ \<Rightarrow> DEFAULT_CONTROL_PLANE_EXACT);
          prefixes = (case protected_prefixes of Some (q # qs) \<Rightarrow> q # qs
                      | _ \<Rightarrow> DEFAULT_CONTROL_PLANE_PREFIXES)
      in if clean = ''.git'' \<or> clean \<in> set exact then True
         else if path_name clean = ''.gitattributes'' then True
         else if \<exists>q \<in> set prefixes. startswith clean q then True
         else if startswith clean ''_config/'' \<and>
             (\<exists>term \<in> set [''policy'', ''manifest'', ''integrity'', ''trusted-executable''].
                contains term (path_name clean)) then True
         else False)"

abbreviation control_plane :: "string \<Rightarrow> bool" where
  "control_plane p \<equiv> is_control_plane_path p None None"

section \<open>The checks before any operation\<close>

definition canonical_target :: "links \<Rightarrow> path \<Rightarrow> string \<Rightarrow> (path \<times> string) result" where
  "canonical_target L root relative_path =
     (let clean = strip_ws (slashes relative_path) in
      if clean = [] then Inl ValueError
      else if startswith clean ''//?/'' \<or> startswith clean ''//./'' then Inl ValueError
      else if search CONTROL_RE clean \<or> search ENCODED_PATH_ALIAS_RE clean then Inl ValueError
      else if startswith clean ''/'' \<or> CHR '':'' \<in> set clean then Inl ValueError
      else case resolve L (root @ split_on CHR ''/'' clean) of
        None \<Rightarrow> Inl RuntimeError
      | Some target \<Rightarrow>
          if \<not> is_within L target root then Inl ValueError
          else (case resolve L root of
            None \<Rightarrow> Inl RuntimeError
          | Some base \<Rightarrow>
              (case relative_to target base of
                 None \<Rightarrow> Inl ValueError
               | Some sub \<Rightarrow>
                   if sub = [] then Inl ValueError else Inr (target, posix_rel sub))))"

definition assert_permitted_path ::
    "links \<Rightarrow> path \<Rightarrow> string \<Rightarrow> bool \<Rightarrow> string list option \<Rightarrow> string list option \<Rightarrow>
     (path \<times> string) result" where
  "assert_permitted_path L root relative_path is_operator_privileged prefixes exact =
     bindR (canonical_target L root relative_path) (\<lambda>(target, canonical_rel).
       if is_secret_path canonical_rel then Inl PermissionError
       else if \<not> is_operator_privileged \<and> is_control_plane_path canonical_rel prefixes exact
         then Inl PermissionError
       else Inr (target, canonical_rel))"

abbreviation permitted :: "links \<Rightarrow> path \<Rightarrow> string \<Rightarrow> (path \<times> string) result" where
  "permitted L root rel \<equiv> assert_permitted_path L root rel False None None"

lemma assert_permitted_Inr:
  "assert_permitted_path L root rel priv pre ex = Inr (t, r) \<longleftrightarrow>
     canonical_target L root rel = Inr (t, r) \<and> \<not> is_secret_path r \<and>
     (priv \<or> \<not> is_control_plane_path r pre ex)"
  by (auto simp: assert_permitted_path_def bindR_Inr_iff)

lemma canonical_target_Inr:
  assumes "canonical_target L root rel = Inr (t, r)"
  shows "\<exists>base sub. resolve L root = Some base \<and> t = base @ sub \<and> sub \<noteq> [] \<and>
           r = posix_rel sub \<and> physical L t"
  using assms
  by (auto simp: canonical_target_def Let_def split: if_splits option.splits
      intro: resolve_physical)

subsection \<open>What the classifications decide\<close>

lemma split_on_append: "split_on c (a @ c # b) = split_on c a @ split_on c b"
  by (induction a) (auto split: list.splits)

abbreviation nonempty_parts :: "char \<Rightarrow> string \<Rightarrow> string list" where
  "nonempty_parts c s \<equiv> filter (\<lambda>w. w \<noteq> []) (split_on c s)"

lemma nonempty_parts_snoc_sep: "nonempty_parts c (s @ [c]) = nonempty_parts c s"
  using split_on_append [of c s "[]"] by simp

lemma nonempty_parts_lstrip: "nonempty_parts c (lstrip (\<lambda>x. x = c) s) = nonempty_parts c s"
  unfolding lstrip_def by (induction s) simp_all

lemma nonempty_parts_rstrip: "nonempty_parts c (rstrip (\<lambda>x. x = c) s) = nonempty_parts c s"
proof (induction s rule: rev_induct)
  case Nil
  show ?case by (simp add: rstrip_def)
next
  case (snoc x s)
  show ?case
  proof (cases "x = c")
    case True
    with snoc show ?thesis by (simp add: rstrip_def nonempty_parts_snoc_sep)
  next
    case False
    then show ?thesis by (simp add: rstrip_def)
  qed
qed

lemma nonempty_parts_strip: "nonempty_parts c (strip (\<lambda>x. x = c) s) = nonempty_parts c s"
  by (simp add: strip_def nonempty_parts_rstrip nonempty_parts_lstrip)

text \<open>Splitting a path and folding its case commute.\<close>

lemma code_slash [simp]: "code CHR ''/'' = 47"
  by (simp add: code_def)

lemma lower_char_caseless:
  assumes "code d < 65"
  shows "lower_char c = d \<longleftrightarrow> c = d"
proof -
  have "code c < 256" by simp
  then have "code (lower_char c) = code d \<longleftrightarrow> code c = code d"
    using assms by (auto simp: lower_char_def Let_def)
  then show ?thesis by simp
qed

lemma lower_char_slash [simp]: "lower_char c = CHR ''/'' \<longleftrightarrow> c = CHR ''/''"
  by (rule lower_char_caseless) simp

lemma split_on_casefold:
  "split_on CHR ''/'' (casefold s) = map casefold (split_on CHR ''/'' s)"
proof (induction s)
  case Nil
  show ?case by simp
next
  case (Cons c s)
  obtain w ws where w: "split_on CHR ''/'' s = w # ws" by (cases "split_on CHR ''/'' s") auto
  have L: "lower_char CHR ''/'' = CHR ''/''" by simp
  show ?case
  proof (cases "c = CHR ''/''")
    case True
    then have "code c \<noteq> 223" by simp
    with True Cons.IH L show ?thesis by simp
  next
    case False
    with Cons.IH w show ?thesis by (auto simp: casefold_def)
  qed
qed

lemma casefold_eq_Nil [simp]: "casefold w = [] \<longleftrightarrow> w = []"
  by (cases w) auto

lemma is_secret_path_iff:
  "is_secret_path p \<longleftrightarrow>
     clean_rel p \<in> {''.claude/settings.local.json'', ''.ssh/config'', ''.ssh/authorized_keys'',
       ''.ssh/id_rsa'', ''.ssh/id_ed25519''} \<or>
     (\<exists>c \<in> set (split_on CHR ''/'' (slashes p)). c \<noteq> '''' \<and> secret_part (casefold c))"
proof -
  have "set (nonempty_parts CHR ''/'' (clean_rel p)) =
      casefold ` {c \<in> set (split_on CHR ''/'' (slashes p)). c \<noteq> ''''}"
    unfolding clean_rel_def nonempty_parts_strip by (auto simp: split_on_casefold)
  then show ?thesis by (auto simp: is_secret_path_def Let_def)
qed

text \<open>The language of the secret pattern: a secret stem alone or with any extension.\<close>

definition secret_stems :: "string set" where
  "secret_stems = {''.env'', ''credential'', ''credentials'', ''secret'', ''secrets'', ''token'',
     ''tokens'', ''auth'', ''id_rsa'', ''id_ed25519''}"

lemma lang_liti_dot [simp]: "lang (liti ''.'') = {''.''}"
proof -
  define d where "d = CHR ''.''"
  have "code d = 46" by (simp add: d_def code_def)
  then have eq: "lower_char c = d \<longleftrightarrow> c = d" for c
    by (intro lower_char_caseless) simp
  then have "lower_char d = d" by blast
  then have "lower_char c = lower_char d \<longleftrightarrow> c = d" for c using eq [of c] by argo
  then have "lower w = lower [d] \<longleftrightarrow> w = [d]" for w
    unfolding lower_def by (simp add: map_eq_Cons_conv)
  then have "lang (liti [d]) = {[d]}" by (auto simp: lang_liti)
  then show ?thesis by (simp add: d_def)
qed

lemma lang_star_dot: "e \<in> lang (Star dot) \<longleftrightarrow> (\<forall>c \<in> set e. code c \<noteq> 10)"
  unfolding dot_def not_newline_def by (rule lang_star_Cls)

lemma lang_named:
  "w \<in> lang (named r) \<longleftrightarrow>
     w \<in> lang r \<or> (\<exists>s e. w = s @ ''.'' @ e \<and> s \<in> lang r \<and> (\<forall>c \<in> set e. code c \<noteq> 10))"
proof
  assume "w \<in> lang (named r)"
  then obtain s t where st: "w = s @ t" "s \<in> lang r"
    "t \<in> insert [] {d @ e | d e. d = ''.'' \<and> e \<in> lang (Star dot)}"
    unfolding named_def by (auto simp del: lang.simps(6))
  then show "w \<in> lang r \<or> (\<exists>s e. w = s @ ''.'' @ e \<and> s \<in> lang r \<and> (\<forall>c \<in> set e. code c \<noteq> 10))"
    by (auto simp: lang_star_dot simp del: lang.simps(6))
next
  assume "w \<in> lang r \<or> (\<exists>s e. w = s @ ''.'' @ e \<and> s \<in> lang r \<and> (\<forall>c \<in> set e. code c \<noteq> 10))"
  then consider "w \<in> lang r"
    | s e where "w = s @ ''.'' @ e" "s \<in> lang r" "e \<in> lang (Star dot)"
    by (auto simp: lang_star_dot simp del: lang.simps(6))
  then show "w \<in> lang (named r)"
  proof cases
    case 1
    then have "\<exists>u v. w = u @ v \<and> u \<in> lang r \<and> v \<in> lang (opt (Cat (liti ''.'') (Star dot)))"
      by (intro exI [of _ w] exI [of _ "[]"]) simp
    then show ?thesis by (simp add: named_def del: lang.simps(6))
  next
    case 2
    then have "''.'' @ e \<in> lang (opt (Cat (liti ''.'') (Star dot)))"
      by (auto simp del: lang.simps(6))
    with 2 show ?thesis unfolding named_def by (simp del: lang.simps(6)) blast
  qed
qed

lemma stem_in_pattern:
  assumes "s \<in> secret_stems"
  shows "\<exists>r \<in> set [liti ''.env'', Cat (liti ''credential'') (opt (liti ''s'')),
      Cat (liti ''secret'') (opt (liti ''s'')), Cat (liti ''token'') (opt (liti ''s'')),
      liti ''auth'', liti ''id_rsa'', liti ''id_ed25519'']. s \<in> lang r"
proof -
  have one: "t \<in> lang (Cat (liti t) (opt (liti ''s'')))" for t
    by (simp add: lang_liti) (metis append_Nil2)
  have two: "t @ ''s'' \<in> lang (Cat (liti t) (opt (liti ''s'')))" for t
    by (auto simp: lang_liti)
  show ?thesis
    using assms one [of "''credential''"] two [of "''credential''"] one [of "''secret''"]
      two [of "''secret''"] one [of "''token''"] two [of "''token''"]
    unfolding secret_stems_def by (auto simp: lang_liti simp del: lang.simps)
qed

lemma SECRET_RE_stem:
  assumes "s \<in> secret_stems" and "w = s \<or> (\<exists>e. w = s @ ''.'' @ e \<and> (\<forall>c \<in> set e. code c \<noteq> 10))"
  shows "fullmatch SECRET_RE w"
proof -
  obtain r where r: "s \<in> lang r"
    and m: "r \<in> set [liti ''.env'', Cat (liti ''credential'') (opt (liti ''s'')),
      Cat (liti ''secret'') (opt (liti ''s'')), Cat (liti ''token'') (opt (liti ''s'')),
      liti ''auth'', liti ''id_rsa'', liti ''id_ed25519'']"
    using stem_in_pattern [OF assms(1)] by blast
  from r assms(2) have "w \<in> lang (named r)" by (auto simp: lang_named)
  with m have "w \<in> lang SECRET_RE" unfolding SECRET_RE_def lang_alts by auto
  then show ?thesis by (simp add: fullmatch_iff)
qed

text \<open>C7. A path that passes the boundary checks names an entry strictly below the resolved
  project root, every step of which is a plain name that is no symbolic link: no spelling of the
  request (double dots, links inside the project, links out of it) reaches anything else.
  The canonical relative path is that entry's position below the root.\<close>

theorem permitted_path_contained:
  assumes "assert_permitted_path L root rel priv pre ex = Inr (t, r)"
  shows "\<exists>base sub. resolve L root = Some base \<and> t = base @ sub \<and> sub \<noteq> [] \<and>
           r = posix_rel sub \<and> physical L t \<and> resolve L t = Some t"
  using assms canonical_target_Inr resolve_idem by (metis assert_permitted_Inr)

theorem permitted_path_contained_witness:
  "\<exists>base sub. [''p'', ''lib'', ''x''] = base @ sub \<and> sub \<noteq> [] \<and> ''lib/x'' = posix_rel sub"
proof -
  let ?L = "\<lambda>q. if q = [''p'', ''ln''] then Some (False, [''lib'']) else None"
  have "assert_permitted_path ?L [''p''] ''ln/../ln/./x'' False None None =
      Inr ([''p'', ''lib'', ''x''], ''lib/x'')"
    by code_simp
  from permitted_path_contained [OF this] show ?thesis by blast
qed

text \<open>C23. A path with a component that is a secret name, whatever the letter case, the
  extension and the directory it is in, is denied to every operation, operator-privileged or
  not.\<close>

theorem secret_name_denied:
  assumes "c \<in> set (split_on CHR ''/'' (slashes r))"
    and "casefold c = s \<or> (\<exists>e. casefold c = s @ ''.'' @ e \<and> (\<forall>x \<in> set e. code x \<noteq> 10))"
    and "s \<in> secret_stems"
  shows "is_secret_path r \<and> assert_permitted_path L root rel priv pre ex \<noteq> Inr (t, r)"
proof -
  have "s \<noteq> ''''" using assms(3) by (auto simp: secret_stems_def)
  with assms(2) have "c \<noteq> ''''" by auto
  moreover have "secret_part (casefold c)"
    unfolding secret_part_def using SECRET_RE_stem [OF assms(3,2)] by blast
  ultimately have "is_secret_path r" using assms(1) by (auto simp: is_secret_path_iff)
  then show ?thesis by (simp add: assert_permitted_Inr)
qed

theorem secret_name_denied_witness:
  "is_secret_path ''conf/Token.JSON'' \<and>
   assert_permitted_path (\<lambda>_. None) [''p''] ''conf/Token.JSON'' True None None
     \<noteq> Inr ([''p'', ''conf'', ''Token.JSON''], ''conf/Token.JSON'')"
proof (rule secret_name_denied [where c = "''Token.JSON''" and s = "''token''"])
  show "''Token.JSON'' \<in> set (split_on CHR ''/'' (slashes ''conf/Token.JSON''))" by code_simp
  have "casefold ''Token.JSON'' = ''token'' @ ''.'' @ ''json''" by code_simp
  moreover have "\<forall>x \<in> set ''json''. code x \<noteq> 10" by (simp add: code_def)
  ultimately show "casefold ''Token.JSON'' = ''token'' \<or>
      (\<exists>e. casefold ''Token.JSON'' = ''token'' @ ''.'' @ e \<and> (\<forall>x \<in> set e. code x \<noteq> 10))"
    by blast
  show "''token'' \<in> secret_stems" by (simp add: secret_stems_def)
qed



text \<open>A dotfile whose whole name is a denied suffix is not matched: its name has no suffix.\<close>

lemma bare_suffix_not_secret: "\<not> is_secret_path ''.pem'' \<and> is_secret_path ''server.pem''"
  by code_simp

end
