(* ===== verification/Json.thy ===== *)
theory Json
  imports Complex_Main Pystr
begin

text \<open>
  Parsed JSON documents as Python holds them: what \<open>json.loads\<close> returns. A document is
  the value of a file or a token; the text it was read from is not kept, so writing a
  document and reading it back gives the document (\<open>json.loads (json.dumps d)\<close>).

  An object is a dictionary: an association list in insertion order. A float carries its
  exact value and the text \<open>repr\<close> prints for it.
\<close>

datatype json =
    JNull
  | JBool bool
  | JInt int
  | JFloat rat string
  | JStr string
  | JArr "json list"
  | JObj "(string \<times> json) list"

type_synonym dict = "(string, json) alist"

section \<open>Python's view of a value\<close>

text \<open>Truth value testing.\<close>

fun truthy :: "json \<Rightarrow> bool" where
  "truthy JNull = False"
| "truthy (JBool b) = b"
| "truthy (JInt i) = (i \<noteq> 0)"
| "truthy (JFloat r s) = (r \<noteq> 0)"
| "truthy (JStr s) = (s \<noteq> [])"
| "truthy (JArr xs) = (xs \<noteq> [])"
| "truthy (JObj d) = (d \<noteq> [])"

text \<open>\<open>d.get(k)\<close>, with \<open>None\<close> for a missing key.\<close>

definition dget :: "dict \<Rightarrow> string \<Rightarrow> json" where
  "dget d k = (case aget d k of None \<Rightarrow> JNull | Some v \<Rightarrow> v)"

text \<open>\<open>d.get(k, v)\<close>.\<close>

definition get_default :: "dict \<Rightarrow> string \<Rightarrow> json \<Rightarrow> json" where
  "get_default d k v = (case aget d k of None \<Rightarrow> v | Some x \<Rightarrow> x)"

lemma dget_aset [simp]: "dget (aset k v d) k' = (if k' = k then v else dget d k')"
  by (simp add: dget_def)

fun is_str :: "json \<Rightarrow> bool" where
  "is_str (JStr s) = True"
| "is_str _ = False"

fun is_bool :: "json \<Rightarrow> bool" where
  "is_bool (JBool b) = True"
| "is_bool _ = False"

text \<open>\<open>isinstance(v, int)\<close> holds of booleans; \<open>type(v) is int\<close> does not.\<close>

fun is_int :: "json \<Rightarrow> bool" where
  "is_int (JInt i) = True"
| "is_int (JBool b) = True"
| "is_int _ = False"

fun type_is_int :: "json \<Rightarrow> bool" where
  "type_is_int (JInt i) = True"
| "type_is_int _ = False"

fun int_of :: "json \<Rightarrow> int" where
  "int_of (JInt i) = i"
| "int_of (JBool b) = (if b then 1 else 0)"
| "int_of _ = 0"

text \<open>Lists and dictionaries cannot be members of a set.\<close>

fun hashable :: "json \<Rightarrow> bool" where
  "hashable (JArr xs) = False"
| "hashable (JObj d) = False"
| "hashable _ = True"

definition nonempty_str :: "json \<Rightarrow> bool" where
  "nonempty_str v \<longleftrightarrow> is_str v \<and> truthy v"

lemma nonempty_strE:
  assumes "nonempty_str v"
  obtains s where "v = JStr s" "s \<noteq> []"
  using assms by (cases v) (auto simp: nonempty_str_def)

section \<open>Equality\<close>

text \<open>Python compares numbers across types: \<open>True == 1 == 1.0\<close>.\<close>

fun num_of :: "json \<Rightarrow> rat option" where
  "num_of (JBool b) = Some (if b then 1 else 0)"
| "num_of (JInt i) = Some (of_int i)"
| "num_of (JFloat r s) = Some r"
| "num_of _ = None"

lemma size_zip_left: "(x, y) \<in> set (zip xs ys) \<Longrightarrow> size x < Suc (size_list size xs)"
  unfolding less_Suc_eq_le
  by (rule size_list_estimation' [OF _ order.refl]) (rule set_zip_leftD)

lemma size_dict_value:
  "(k, v) \<in> set d \<Longrightarrow> size v < Suc (size_list (size_prod (\<lambda>_. 0) size) d)"
  unfolding less_Suc_eq_le
  by (rule size_list_estimation' [where x = "(k, v)"]) (auto simp: size_prod_simp)

function py_eq :: "json \<Rightarrow> json \<Rightarrow> bool" where
  "py_eq a b = (case (num_of a, num_of b) of
      (Some x, Some y) \<Rightarrow> x = y
    | (Some x, None) \<Rightarrow> False
    | (None, Some y) \<Rightarrow> False
    | (None, None) \<Rightarrow>
        (case a of
           JStr s \<Rightarrow> (case b of JStr t \<Rightarrow> s = t | _ \<Rightarrow> False)
         | JArr xs \<Rightarrow> (case b of
             JArr ys \<Rightarrow> length xs = length ys \<and> (\<forall>p \<in> set (zip xs ys). py_eq (fst p) (snd p))
           | _ \<Rightarrow> False)
         | JObj d \<Rightarrow> (case b of
             JObj e \<Rightarrow> length d = length e \<and>
               (\<forall>p \<in> set d. case aget e (fst p) of None \<Rightarrow> False | Some w \<Rightarrow> py_eq (snd p) w)
           | _ \<Rightarrow> False)
         | _ \<Rightarrow> (case b of JNull \<Rightarrow> True | _ \<Rightarrow> False)))"
  by pat_completeness auto
termination
  by (relation "measure (\<lambda>(a, b). size a)") (auto simp: size_zip_left size_dict_value)

declare py_eq.simps [simp del]

lemma py_eq_str [simp]: "py_eq (JStr s) (JStr t) \<longleftrightarrow> s = t"
  by (subst py_eq.simps) simp

lemma py_eq_str_left: "py_eq (JStr s) v \<longleftrightarrow> v = JStr s"
  by (subst py_eq.simps) (cases v; auto)

lemma py_eq_str_right: "py_eq v (JStr s) \<longleftrightarrow> v = JStr s"
  by (subst py_eq.simps) (cases v; auto)

lemma py_eq_null_right: "py_eq v JNull \<longleftrightarrow> v = JNull"
  by (subst py_eq.simps) (cases v; auto)

lemma py_eq_int [simp]: "py_eq (JInt i) (JInt j) \<longleftrightarrow> i = j"
  by (subst py_eq.simps) simp

lemma py_eq_int_right: "py_eq v (JInt i) \<longleftrightarrow> num_of v = Some (of_int i)"
  by (subst py_eq.simps) (cases v; auto)

section \<open>Printing\<close>

definition hex_digit :: "nat \<Rightarrow> char" where
  "hex_digit n = (if n < 10 then chr (48 + n) else chr (87 + n))"

definition repr_char :: "char \<Rightarrow> char \<Rightarrow> string" where
  "repr_char q c =
     (if c = q \<or> c = CHR 0x5C then [CHR 0x5C, c]
      else if code c = 10 then [CHR 0x5C, CHR ''n'']
      else if code c = 13 then [CHR 0x5C, CHR ''r'']
      else if code c = 9 then [CHR 0x5C, CHR ''t'']
      else if code c < 32 \<or> 127 \<le> code c \<and> code c \<le> 160 \<or> code c = 173
        then [CHR 0x5C, CHR ''x'', hex_digit (code c div 16), hex_digit (code c mod 16)]
      else [c])"

definition repr_str :: "string \<Rightarrow> string" where
  "repr_str s =
     (let q = (if CHR 0x27 \<in> set s \<and> CHR 0x22 \<notin> set s then CHR 0x22 else CHR 0x27)
      in q # concat (map (repr_char q) s) @ [q])"

fun py_repr :: "json \<Rightarrow> string" where
  "py_repr JNull = ''None''"
| "py_repr (JBool b) = (if b then ''True'' else ''False'')"
| "py_repr (JInt i) = int_digits i"
| "py_repr (JFloat r s) = s"
| "py_repr (JStr s) = repr_str s"
| "py_repr (JArr xs) = ''['' @ join '', '' (map py_repr xs) @ '']''"
| "py_repr (JObj d) = ''{'' @ join '', '' (map (\<lambda>p. repr_str (fst p) @ '': '' @ py_repr (snd p)) d) @ ''}''"

text \<open>\<open>str(v)\<close>.\<close>

definition py_str :: "json \<Rightarrow> string" where
  "py_str v = (case v of JStr s \<Rightarrow> s | _ \<Rightarrow> py_repr v)"

lemma py_str_JStr [simp]: "py_str (JStr s) = s"
  by (simp add: py_str_def)

end
