(* ===== verification/World.thy ===== *)
theory World
  imports Json
begin

text \<open>
  The files the recovery store and the governed executor work on.

  \<open>disk\<close> holds the regular files and directories (targets, backups) by resolved absolute
  path; \<open>journal\<close> holds the receipt files of the store's directory by file name, each with
  what reading and parsing it gives. Both are association lists, so a directory can be listed.
  Missing directories are created by the writers (\<open>mkdir(parents=True)\<close>) and are not recorded.
  \<open>denied\<close> lists the paths whose replacement or removal the operating system refuses.
  \<open>now\<close>, \<open>now_ns\<close> and \<open>stamp\<close> are the clock as one call reads it; \<open>draws i\<close> is the \<open>i\<close>-th
  random suffix (time, nanoseconds and \<open>token_hex\<close>) and \<open>drawn\<close> the number drawn so far.

  Every change goes through \<open>effect\<close>: one atomic, durable replacement or removal (temporary
  file, flush, fsync, \<open>os.replace\<close>). \<open>budget\<close> is a device of the model: with \<open>Some n\<close> the
  power fails when the \<open>(n+1)\<close>-th effect is due, so that running an operation with every
  \<open>n\<close> enumerates its crash points. With \<open>None\<close> nothing fails.
\<close>

datatype node = Reg bytes | NoRead | Dir

text \<open>What reading and parsing a receipt file gives.\<close>

datatype rdoc = IOFault | NotUtf8 | NotJson | Doc json

record jfile =
  jdoc :: rdoc
  jmtime :: int

record world =
  disk :: "(string, node) alist"
  journal :: "(string, jfile) alist"
  denied :: "string list"
  now :: int
  now_ns :: int
  stamp :: string
  draws :: "nat \<Rightarrow> string"
  drawn :: nat
  budget :: "nat option"

section \<open>Reading\<close>

definition is_file :: "string \<Rightarrow> world \<Rightarrow> bool" where
  "is_file p w = (case aget (disk w) p of Some (Reg _) \<Rightarrow> True | Some NoRead \<Rightarrow> True | _ \<Rightarrow> False)"

definition is_dir :: "string \<Rightarrow> world \<Rightarrow> bool" where
  "is_dir p w \<longleftrightarrow> aget (disk w) p = Some Dir"

definition path_exists :: "string \<Rightarrow> world \<Rightarrow> bool" where
  "path_exists p w \<longleftrightarrow> aget (disk w) p \<noteq> None"

definition read_bytes :: "string \<Rightarrow> world \<Rightarrow> bytes result" where
  "read_bytes p w = (case aget (disk w) p of
      None \<Rightarrow> Inl FileNotFoundError
    | Some (Reg b) \<Rightarrow> Inr b
    | Some NoRead \<Rightarrow> Inl PermissionError
    | Some Dir \<Rightarrow> Inl OSError)"

definition load_doc :: "string \<Rightarrow> world \<Rightarrow> json result" where
  "load_doc name w = (case aget (journal w) name of
      None \<Rightarrow> Inl FileNotFoundError
    | Some f \<Rightarrow> (case jdoc f of
        IOFault \<Rightarrow> Inl OSError
      | NotUtf8 \<Rightarrow> Inl UnicodeDecodeError
      | NotJson \<Rightarrow> Inl JSONDecodeError
      | Doc j \<Rightarrow> Inr j))"

section \<open>Effects\<close>

definition effect :: "(world \<Rightarrow> bool) \<Rightarrow> (world \<Rightarrow> world) \<Rightarrow> (world, unit) M" where
  "effect refused f = (\<lambda>w. case budget w of
      None \<Rightarrow> if refused w then (Inl OSError, w) else (Inr (), f w)
    | Some 0 \<Rightarrow> (Inl PowerLoss, w)
    | Some (Suc n) \<Rightarrow> if refused w then (Inl OSError, w) else (Inr (), (f w)\<lparr>budget := Some n\<rparr>))"

definition write_refused :: "string \<Rightarrow> world \<Rightarrow> bool" where
  "write_refused p w \<longleftrightarrow> p \<in> set (denied w) \<or> is_dir p w"

definition write_bytes :: "string \<Rightarrow> bytes \<Rightarrow> (world, unit) M" where
  "write_bytes p b = effect (write_refused p) (\<lambda>w. w\<lparr>disk := aset p (Reg b) (disk w)\<rparr>)"

definition write_doc :: "string \<Rightarrow> string \<Rightarrow> json \<Rightarrow> (world, unit) M" where
  "write_doc dir name j =
     effect (\<lambda>w. dir @ ''/'' @ name \<in> set (denied w))
       (\<lambda>w. w\<lparr>journal := aset name \<lparr>jdoc = Doc j, jmtime = now w\<rparr> (journal w)\<rparr>)"

text \<open>\<open>unlink(missing_ok=True)\<close>.\<close>

definition unlink_file :: "string \<Rightarrow> (world, unit) M" where
  "unlink_file p = (\<lambda>w. if path_exists p w
      then effect (write_refused p) (\<lambda>w. w\<lparr>disk := adel p (disk w)\<rparr>) w
      else (Inr (), w))"

definition unlink_doc :: "string \<Rightarrow> string \<Rightarrow> (world, unit) M" where
  "unlink_doc dir name = (\<lambda>w. if aget (journal w) name \<noteq> None
      then effect (\<lambda>w. dir @ ''/'' @ name \<in> set (denied w)) (\<lambda>w. w\<lparr>journal := adel name (journal w)\<rparr>) w
      else (Inr (), w))"

text \<open>\<open>sorted(dir.glob(prefix + "*" + suffix))\<close>: the star does not cross a slash.\<close>

definition glob_match :: "string \<Rightarrow> string \<Rightarrow> string \<Rightarrow> bool" where
  "glob_match pre suf name \<longleftrightarrow> CHR ''/'' \<notin> set name \<and> startswith name pre \<and>
     endswith (drop (length pre) name) suf"

definition glob_journal :: "string \<Rightarrow> string \<Rightarrow> world \<Rightarrow> string list" where
  "glob_journal pre suf w = sort (filter (glob_match pre suf) (map fst (journal w)))"

section \<open>How an effect evolves the world\<close>

lemma effect_evolves:
  assumes "evolution R" and "\<And>w. \<not> refused w \<Longrightarrow> R w (f w)"
    and "\<And>w n. \<not> refused w \<Longrightarrow> R w ((f w)\<lparr>budget := Some n\<rparr>)"
  shows "evolves R (effect refused f)"
  using assms unfolding evolves_def effect_def evolution_def
  by (auto split: option.splits nat.splits)

lemma effect_Inr:
  "effect refused f w = (Inr x, w') \<Longrightarrow>
     \<not> refused w \<and> (w' = f w \<or> (\<exists>n. w' = (f w)\<lparr>budget := Some n\<rparr>))"
  by (auto simp: effect_def split: option.splits nat.splits if_splits)

lemma effect_Inl:
  "effect refused f w = (Inl e, w') \<Longrightarrow> w' = w \<and> (e = OSError \<or> e = PowerLoss)"
  by (auto simp: effect_def split: option.splits nat.splits if_splits)

lemma effect_None: "budget w = None \<Longrightarrow>
   effect refused f w = (if refused w then (Inl OSError, w) else (Inr (), f w))"
  by (simp add: effect_def)

text \<open>The parts of the world an effect on the other part leaves alone.\<close>

lemma write_bytes_Inr:
  "write_bytes p b w = (Inr x, w') \<Longrightarrow>
     disk w' = aset p (Reg b) (disk w) \<and> journal w' = journal w \<and> denied w' = denied w \<and>
     now w' = now w \<and> draws w' = draws w \<and> drawn w' = drawn w \<and> p \<notin> set (denied w)"
  unfolding write_bytes_def by (drule effect_Inr) (auto simp: write_refused_def)

lemma write_doc_Inr:
  "write_doc dir name j w = (Inr x, w') \<Longrightarrow>
     journal w' = aset name \<lparr>jdoc = Doc j, jmtime = now w\<rparr> (journal w) \<and> disk w' = disk w \<and>
     denied w' = denied w \<and> now w' = now w \<and> draws w' = draws w \<and> drawn w' = drawn w"
  unfolding write_doc_def by (drule effect_Inr) auto

lemma write_bytes_Inl: "write_bytes p b w = (Inl e, w') \<Longrightarrow> w' = w \<and> (e = OSError \<or> e = PowerLoss)"
  unfolding write_bytes_def by (rule effect_Inl)

lemma write_doc_Inl: "write_doc r n j w = (Inl e, w') \<Longrightarrow> w' = w \<and> (e = OSError \<or> e = PowerLoss)"
  unfolding write_doc_def by (rule effect_Inl)

lemma write_bytes_ok:
  "budget w = None \<Longrightarrow> \<not> write_refused p w \<Longrightarrow>
     write_bytes p b w = (Inr (), w\<lparr>disk := aset p (Reg b) (disk w)\<rparr>)"
  by (simp add: write_bytes_def effect_None)

lemma write_doc_ok:
  "budget w = None \<Longrightarrow> dir @ ''/'' @ name \<notin> set (denied w) \<Longrightarrow>
     write_doc dir name j w =
       (Inr (), w\<lparr>journal := aset name \<lparr>jdoc = Doc j, jmtime = now w\<rparr> (journal w)\<rparr>)"
  by (simp add: write_doc_def effect_None)

lemma load_doc_write:
  "load_doc n (w\<lparr>journal := aset m \<lparr>jdoc = Doc j, jmtime = t\<rparr> (journal w)\<rparr>) =
     (if n = m then Inr j else load_doc n w)"
  by (simp add: load_doc_def)

lemma load_doc_disk [simp]: "load_doc n (w\<lparr>disk := d\<rparr>) = load_doc n w"
  by (simp add: load_doc_def)

lemma read_bytes_journal [simp]: "read_bytes p (w\<lparr>journal := j\<rparr>) = read_bytes p w"
  by (simp add: read_bytes_def)

lemma is_file_journal [simp]: "is_file p (w\<lparr>journal := j\<rparr>) = is_file p w"
  by (simp add: is_file_def)

lemma read_bytes_Inr: "read_bytes p w = Inr b \<longleftrightarrow> aget (disk w) p = Some (Reg b)"
  by (auto simp: read_bytes_def split: option.splits node.splits)

lemma load_doc_Inr:
  "load_doc n w = Inr j \<longleftrightarrow> (\<exists>t. aget (journal w) n = Some \<lparr>jdoc = Doc j, jmtime = t\<rparr>)"
  by (auto simp: load_doc_def split: option.splits rdoc.splits) (metis jfile.surjective old.unit.exhaust)

end
