(* ===== verification/Store.thy ===== *)
theory Store
  imports World
begin

text \<open>
  \<open>src/jvc/recovery/store.py\<close>: the recovery store. Receipts are the JSON documents the code
  reads and writes, so a receipt another program left behind (missing or odd fields, text
  that is no JSON, bytes that are no UTF-8) takes the branch it takes in the code.

  A target is its resolved path (\<open>str(target.resolve())\<close>; the executor hands over resolved
  targets). \<open>H\<close> is the hexadecimal SHA-256 of the standard library, as \<open>sha256_bytes\<close> prints it.
\<close>

type_synonym hash = "bytes \<Rightarrow> string"

record recovery_store =
  root_dir :: string
  failure_points :: "string list"

definition MAX_BACKUP_BYTES :: int where
  "MAX_BACKUP_BYTES = 52428800"

definition TERMINAL_STATES :: "string list" where
  "TERMINAL_STATES = [''VERIFIED'', ''RECOVERED_UNAPPLIED'', ''ROLLED_BACK'', ''SUPERSEDED'']"

definition INCOMPLETE_STATES :: "string list" where
  "INCOMPLETE_STATES = [''PREPARED'', ''APPLIED'']"

definition BLOCKING_STATES :: "string list" where
  "BLOCKING_STATES = [''RECOVERY_REQUIRED'']"

definition KNOWN_STATES :: "string list" where
  "KNOWN_STATES = [''PREPARED'', ''APPLIED'', ''VERIFIED'', ''RECOVERED_UNAPPLIED'',
     ''RECOVERY_REQUIRED'', ''ROLLED_BACK'', ''SUPERSEDED'']"

section \<open>Files and hashes\<close>

definition sha256_file :: "hash \<Rightarrow> string \<Rightarrow> world \<Rightarrow> string result" where
  "sha256_file H p w = bindR (read_bytes p w) (\<lambda>b. Inr (H b))"

text \<open>
  \<open>durable_replace\<close>: the outcomes of successive \<open>os.replace\<close> calls are given; \<open>True\<close> is a
  sharing violation (\<open>PermissionError\<close>). The result says whether the replacement took place.
\<close>

fun durable_replace :: "nat \<Rightarrow> bool list \<Rightarrow> unit result" where
  "durable_replace attempts [] = Inr ()"
| "durable_replace attempts (violation # rest) =
     (if \<not> violation then Inr ()
      else if attempts \<le> 1 then Inl PermissionError
      else durable_replace (attempts - 1) rest)"

definition failpoint :: "recovery_store \<Rightarrow> string \<Rightarrow> (world, unit) M" where
  "failpoint self name = (if name \<in> set (failure_points self) then raise InjectedFailure else ret ())"

definition json_name :: "string \<Rightarrow> string" where
  "json_name rid = rid @ ''.json''"

definition bak_path :: "recovery_store \<Rightarrow> string \<Rightarrow> string" where
  "bak_path self rid = root_dir self @ ''/'' @ rid @ ''.bak''"

definition put_receipt :: "recovery_store \<Rightarrow> string \<Rightarrow> dict \<Rightarrow> (world, unit) M" where
  "put_receipt self name d = write_doc (root_dir self) name (JObj d)"

definition set_state :: "string \<Rightarrow> dict \<Rightarrow> dict" where
  "set_state st d = aset ''tx_state'' (JStr st) d"

text \<open>\<open>_new_receipt_id\<close>: up to a hundred draws, each refused when a file of that name exists.\<close>

primrec draw_receipt_id :: "recovery_store \<Rightarrow> string \<Rightarrow> string \<Rightarrow> nat \<Rightarrow> (world, string) M" where
  "draw_receipt_id self project_id kind 0 = raise RecoveryError"
| "draw_receipt_id self project_id kind (Suc n) = (\<lambda>w.
     let rid = kind @ ''-'' @ project_id @ ''-'' @ draws w (drawn w); w' = w\<lparr>drawn := Suc (drawn w)\<rparr>
     in if aget (journal w) (json_name rid) = None \<and> \<not> path_exists (bak_path self rid) w
        then (Inr rid, w') else draw_receipt_id self project_id kind n w')"

definition new_receipt_id :: "recovery_store \<Rightarrow> string \<Rightarrow> string \<Rightarrow> (world, string) M" where
  "new_receipt_id self project_id kind = draw_receipt_id self project_id kind 100"

section \<open>Receipts\<close>

text \<open>A set test of an unhashable value raises \<open>TypeError\<close>, which is no \<open>RecoveryError\<close>.\<close>

definition validate_receipt :: "json \<Rightarrow> dict result" where
  "validate_receipt data = (case data of
      JObj d \<Rightarrow>
        if \<exists>key \<in> set [''receipt_id'', ''project_id'', ''path'', ''original_operation''].
             \<not> nonempty_str (dget d key) then Inl RecoveryError
        else if dget d ''original_operation'' \<notin> {JStr ''FS_WRITE'', JStr ''ROLLBACK''}
          then Inl RecoveryError
        else if \<not> is_bool (dget d ''preimage_exists'') then Inl RecoveryError
        else if \<not> hashable (dget d ''tx_state'') then Inl TypeError
        else if dget d ''tx_state'' \<notin> JStr ` set KNOWN_STATES then Inl RecoveryError
        else Inr d
    | _ \<Rightarrow> Inl RecoveryError)"

text \<open>The fields a validated receipt has.\<close>

definition sget :: "dict \<Rightarrow> string \<Rightarrow> string" where
  "sget d k = py_str (dget d k)"

abbreviation tx_state :: "dict \<Rightarrow> string" where
  "tx_state d \<equiv> sget d ''tx_state''"

definition valid_receipt :: "dict \<Rightarrow> bool" where
  "valid_receipt d \<longleftrightarrow> validate_receipt (JObj d) = Inr d"

lemma validate_receipt_Inr: "validate_receipt j = Inr d \<longleftrightarrow> j = JObj d \<and> valid_receipt d"
proof (cases j)
  case (JObj e)
  have "validate_receipt (JObj e) = Inr d \<Longrightarrow> e = d"
    by (simp only: validate_receipt_def json.case split: if_splits) simp_all
  with JObj show ?thesis by (auto simp: valid_receipt_def)
qed (simp_all add: validate_receipt_def)

lemma valid_receipt_str:
  assumes "valid_receipt d" and "k \<in> {''receipt_id'', ''project_id'', ''path'', ''original_operation''}"
  shows "\<exists>s. dget d k = JStr s \<and> s \<noteq> [] \<and> sget d k = s"
proof -
  have "nonempty_str (dget d k)"
    using assms by (auto simp: valid_receipt_def validate_receipt_def split: if_splits)
  then show ?thesis by (auto elim!: nonempty_strE simp: sget_def)
qed

lemma valid_receipt_state:
  "valid_receipt d \<Longrightarrow> dget d ''tx_state'' = JStr (tx_state d) \<and> tx_state d \<in> set KNOWN_STATES"
  by (auto simp: valid_receipt_def validate_receipt_def sget_def split: if_splits)

lemma valid_receipt_op:
  "valid_receipt d \<Longrightarrow> dget d ''original_operation'' \<in> {JStr ''FS_WRITE'', JStr ''ROLLBACK''}"
  by (auto simp: valid_receipt_def validate_receipt_def split: if_splits)

lemma valid_set_state:
  "valid_receipt d \<Longrightarrow> st \<in> set KNOWN_STATES \<Longrightarrow> valid_receipt (set_state st d)"
  by (auto simp: valid_receipt_def validate_receipt_def set_state_def split: if_splits)

lemma dget_set_state [simp]:
  "dget (set_state st d) k = (if k = ''tx_state'' then JStr st else dget d k)"
  by (simp add: set_state_def)

lemma sget_set_state [simp]:
  "sget (set_state st d) k = (if k = ''tx_state'' then st else sget d k)"
  by (simp add: sget_def)

definition iter_receipt_files :: "world \<Rightarrow> string list" where
  "iter_receipt_files w = glob_journal ''recovery-'' ''.json'' w @ glob_journal ''rollback-'' ''.json'' w"

definition read_validated :: "string \<Rightarrow> world \<Rightarrow> dict result" where
  "read_validated name w = (case load_doc name w of
      Inl e \<Rightarrow> if is_a e OSError \<or> is_a e JSONDecodeError then Inl RecoveryError else Inl e
    | Inr raw \<Rightarrow> validate_receipt raw)"

text \<open>A scan that skips the files whose reading raises one of the listed exceptions.\<close>

fun collect :: "(string \<Rightarrow> dict result) \<Rightarrow> string list \<Rightarrow> (string \<times> dict) list result" where
  "collect f [] = Inr []"
| "collect f (n # ns) = (case f n of
      Inr d \<Rightarrow> bindR (collect f ns) (\<lambda>ds. Inr ((n, d) # ds))
    | Inl e \<Rightarrow> if is_a e OSError \<or> is_a e JSONDecodeError \<or> is_a e RecoveryError
               then collect f ns else Inl e)"

definition all_valid_receipts :: "world \<Rightarrow> (string \<times> dict) list result" where
  "all_valid_receipts w = collect (\<lambda>n. read_validated n w) (iter_receipt_files w)"

definition load_validated :: "string \<Rightarrow> world \<Rightarrow> dict result" where
  "load_validated name w = bindR (load_doc name w) validate_receipt"

definition concerns :: "string \<Rightarrow> string \<Rightarrow> dict \<Rightarrow> bool" where
  "concerns project_id target d \<longleftrightarrow>
     dget d ''project_id'' = JStr project_id \<and> dget d ''path'' = JStr target"

text \<open>\<open>_chain_references\<close>: the pointers of standing receipts, and of those that need recovery.\<close>

definition chain_references :: "string \<Rightarrow> string \<Rightarrow> world \<Rightarrow> (string list \<times> string list) result" where
  "chain_references project_id target w = bindR (all_valid_receipts w) (\<lambda>rs.
     let ptrs = filter (\<lambda>d. concerns project_id target d \<and> truthy (dget d ''prev_receipt_id'')) (map snd rs);
         refs = (\<lambda>sts. map (\<lambda>d. sget d ''prev_receipt_id'') (filter (\<lambda>d. tx_state d \<in> set sts) ptrs))
     in Inr (refs [''APPLIED'', ''VERIFIED''], refs [''RECOVERY_REQUIRED'']))"

definition seq_of :: "dict \<Rightarrow> int" where
  "seq_of d = (if is_int (dget d ''seq'') then int_of (dget d ''seq'') else -1)"

text \<open>The greatest \<open>(seq, receipt_id)\<close>; of equal ones the first.\<close>

fun best_of :: "(int \<times> string) option \<Rightarrow> dict list \<Rightarrow> string option" where
  "best_of best [] = map_option snd best"
| "best_of best (d # ds) =
     (let key = (seq_of d, sget d ''receipt_id'') in
      case best of
        None \<Rightarrow> best_of (Some key) ds
      | Some (s, r) \<Rightarrow>
          if fst key > s \<or> fst key = s \<and> snd key > r then best_of (Some key) ds
          else best_of best ds)"

definition find_superseded_id ::
    "hash \<Rightarrow> string \<Rightarrow> string \<Rightarrow> bytes option \<Rightarrow> world \<Rightarrow> string option result" where
  "find_superseded_id H project_id target content w =
     bindR (all_valid_receipts w) (\<lambda>rs.
     bindR (chain_references project_id target w) (\<lambda>(effective, ambiguous).
       let mine = filter (\<lambda>d. concerns project_id target d \<and>
                     dget d ''original_operation'' = JStr ''FS_WRITE'') (map snd rs)
       in case content of
          Some b \<Rightarrow>
            let matches = map (\<lambda>d. sget d ''receipt_id'')
                  (filter (\<lambda>d. tx_state d = ''VERIFIED'' \<and> dget d ''postimage_sha256'' = JStr (H b)) mine);
                unreferenced = filter (\<lambda>m. m \<notin> set effective) matches
            in Inr (case unreferenced of [m] \<Rightarrow> Some m | _ \<Rightarrow> None)
        | None \<Rightarrow> Inr (best_of None (filter (\<lambda>d. tx_state d \<in> set TERMINAL_STATES) mine))))"

definition opt_str :: "string option \<Rightarrow> json" where
  "opt_str v = (case v of None \<Rightarrow> JNull | Some s \<Rightarrow> JStr s)"

section \<open>Journalling a write\<close>

definition prepared_receipt ::
    "hash \<Rightarrow> recovery_store \<Rightarrow> string \<Rightarrow> string \<Rightarrow> string \<Rightarrow> bytes option \<Rightarrow> string option \<Rightarrow> world \<Rightarrow> dict" where
  "prepared_receipt H self rid project_id target content prev w =
     [(''receipt_id'', JStr rid),
      (''project_id'', JStr project_id),
      (''path'', JStr target),
      (''original_operation'', JStr ''FS_WRITE''),
      (''prev_receipt_id'', opt_str prev),
      (''preimage_exists'', JBool (content \<noteq> None)),
      (''preimage_sha256'', opt_str (map_option H content)),
      (''postimage_sha256'', JNull),
      (''backup_file'', opt_str (map_option (\<lambda>_. bak_path self rid) content)),
      (''created_at'', JStr (stamp w)),
      (''seq'', JInt (now_ns w)),
      (''tx_state'', JStr ''PREPARED'')]"

definition save_backup :: "hash \<Rightarrow> recovery_store \<Rightarrow> string \<Rightarrow> bytes option \<Rightarrow> (world, unit) M" where
  "save_backup H self rid content = (case content of
      None \<Rightarrow> ret ()
    | Some b \<Rightarrow>
        if int (length b) > MAX_BACKUP_BYTES then raise RecoveryError
        else bindM (write_bytes (bak_path self rid) b) (\<lambda>_.
             bindM (readM (sha256_file H (bak_path self rid))) (\<lambda>h.
             if h \<noteq> H b then raise RecoveryError else ret ())))"

definition save_preimage ::
    "hash \<Rightarrow> recovery_store \<Rightarrow> string \<Rightarrow> string \<Rightarrow> bytes option \<Rightarrow> (world, dict) M" where
  "save_preimage H self project_id target content =
     bindM (new_receipt_id self project_id ''recovery'') (\<lambda>rid.
     bindM (save_backup H self rid content) (\<lambda>_.
     bindM (readM (find_superseded_id H project_id target content)) (\<lambda>prev.
     bindM (readM (\<lambda>w. Inr (prepared_receipt H self rid project_id target content prev w))) (\<lambda>receipt.
     bindM (put_receipt self (json_name rid) receipt) (\<lambda>_.
     bindM (failpoint self ''after_backup'') (\<lambda>_.
     ret receipt))))))"

text \<open>
  The two finishing steps read the receipt without validating it: a document that is no object
  has no \<open>get\<close>, and an unhashable state cannot be looked up.
\<close>

definition as_dict :: "json \<Rightarrow> dict result" where
  "as_dict j = (case j of JObj d \<Rightarrow> Inr d | _ \<Rightarrow> Inl AttributeError)"

definition note_target_replaced :: "recovery_store \<Rightarrow> string \<Rightarrow> string \<Rightarrow> (world, unit) M" where
  "note_target_replaced self rid post =
     bindM (readM (\<lambda>w. case load_doc (json_name rid) w of
         Inl e \<Rightarrow> if is_a e OSError \<or> is_a e JSONDecodeError then Inl RecoveryError else Inl e
       | Inr j \<Rightarrow> as_dict j)) (\<lambda>data.
     if dget data ''tx_state'' \<noteq> JStr ''PREPARED'' then raise RecoveryError
     else put_receipt self (json_name rid)
            (set_state ''APPLIED'' (aset ''postimage_sha256'' (JStr (upper post)) data)))"

definition settle_postimage :: "hash \<Rightarrow> recovery_store \<Rightarrow> string \<Rightarrow> dict \<Rightarrow> string \<Rightarrow> (world, unit) M" where
  "settle_postimage H self name data post =
     bindM (readM (\<lambda>w. if aget data ''path'' = None then Inl KeyError
                       else Inr (sha256_file H (sget data ''path'') w))) (\<lambda>current.
     if current \<noteq> Inr post then
       bindM (put_receipt self name (set_state ''RECOVERY_REQUIRED'' data)) (\<lambda>_.
       raise RecoveryError)
     else put_receipt self name (set_state ''VERIFIED'' data))"

definition record_postimage :: "hash \<Rightarrow> recovery_store \<Rightarrow> string \<Rightarrow> string \<Rightarrow> (world, unit) M" where
  "record_postimage H self rid post =
     bindM (readM (\<lambda>w. if aget (journal w) (json_name rid) = None then Inl RecoveryError
                       else bindR (load_doc (json_name rid) w) as_dict)) (\<lambda>data.
     if \<not> hashable (dget data ''tx_state'') then raise TypeError
     else if dget data ''tx_state'' \<notin> {JStr ''PREPARED'', JStr ''APPLIED''} then raise RecoveryError
     else let data = set_state ''APPLIED'' (aset ''postimage_sha256'' (JStr (upper post)) data) in
     bindM (put_receipt self (json_name rid) data) (\<lambda>_.
     bindM (failpoint self ''during_finalize'') (\<lambda>_.
     settle_postimage H self (json_name rid) data (upper post))))"

section \<open>Reconciling one receipt\<close>

datatype outcome = Recovered | Verified | Required

definition conclude :: "recovery_store \<Rightarrow> string \<Rightarrow> dict \<Rightarrow> string \<Rightarrow> outcome \<Rightarrow> (world, outcome) M" where
  "conclude self name data st out = bindM (put_receipt self name (set_state st data)) (\<lambda>_. ret out)"

definition backup_ok :: "hash \<Rightarrow> dict \<Rightarrow> world \<Rightarrow> bool" where
  "backup_ok H d w =
     (if \<not> truthy (dget d ''preimage_exists'') then True
      else if \<not> truthy (dget d ''backup_file'') \<or> \<not> truthy (dget d ''preimage_sha256'') then False
      else if \<not> is_file (sget d ''backup_file'') w then False
      else (case sha256_file H (sget d ''backup_file'') w of
              Inl _ \<Rightarrow> False | Inr h \<Rightarrow> dget d ''preimage_sha256'' = JStr h))"

text \<open>The target as the reconciliation sees it: absent, hashed, or unreadable (\<open>Inl\<close>).\<close>

definition observe :: "hash \<Rightarrow> string \<Rightarrow> world \<Rightarrow> json result" where
  "observe H p w = (if is_file p w then bindR (sha256_file H p w) (\<lambda>h. Inr (JStr h)) else Inr JNull)"

definition close_source :: "recovery_store \<Rightarrow> string \<Rightarrow> (world, unit) M" where
  "close_source self source_id =
     (if source_id = '''' then ret ()
      else bindM (readM (\<lambda>w. if aget (journal w) (json_name source_id) = None then Inr None
          else (case load_validated (json_name source_id) w of
              Inl e \<Rightarrow> if is_a e OSError \<or> is_a e JSONDecodeError \<or> is_a e RecoveryError
                       then Inr None else Inl e
            | Inr d \<Rightarrow> Inr (Some d)))) (\<lambda>source.
      case source of
        None \<Rightarrow> ret ()
      | Some d \<Rightarrow> put_receipt self (json_name source_id) (set_state ''ROLLED_BACK'' d)))"

definition finalize_rollback :: "recovery_store \<Rightarrow> string \<Rightarrow> dict \<Rightarrow> string \<Rightarrow> (world, unit) M" where
  "finalize_rollback self name data source_id =
     bindM (put_receipt self name (set_state ''VERIFIED'' data)) (\<lambda>_. close_source self source_id)"

text \<open>\<open>str(data.get(k, ""))\<close>.\<close>

definition sget_default :: "dict \<Rightarrow> string \<Rightarrow> string" where
  "sget_default d k = (if aget d k = None then '''' else sget d k)"

definition reconcile_rollback :: "hash \<Rightarrow> recovery_store \<Rightarrow> string \<Rightarrow> dict \<Rightarrow> string \<Rightarrow> (world, outcome) M" where
  "reconcile_rollback H self name data state =
     bindM (readM (\<lambda>w. Inr (observe H (sget data ''path'') w))) (\<lambda>seen.
     case seen of
       Inl _ \<Rightarrow> conclude self name data ''RECOVERY_REQUIRED'' Required
     | Inr current \<Rightarrow>
       if state = ''PREPARED'' then
         (if current = dget data ''expected_postimage_sha256''
          then conclude self name data ''RECOVERED_UNAPPLIED'' Recovered
          else conclude self name data ''RECOVERY_REQUIRED'' Required)
       else if state = ''APPLIED'' then
         (let restored = dget data ''restored_sha256'' in
          if truthy restored \<and> (current = restored \<or> restored = JStr ''__ABSENT__'' \<and> current = JNull)
          then bindM (finalize_rollback self name data (sget_default data ''rollback_of''))
                 (\<lambda>_. ret Verified)
          else conclude self name data ''RECOVERY_REQUIRED'' Required)
       else conclude self name data ''RECOVERY_REQUIRED'' Required)"

definition reconcile_one :: "hash \<Rightarrow> recovery_store \<Rightarrow> string \<Rightarrow> dict \<Rightarrow> string \<Rightarrow> (world, outcome) M" where
  "reconcile_one H self name data state =
     (if dget data ''original_operation'' = JStr ''ROLLBACK''
      then reconcile_rollback H self name data state
      else bindM (readM (\<lambda>w. Inr (truthy (dget data ''preimage_exists'') \<and> \<not> backup_ok H data w))) (\<lambda>bad.
      if bad then conclude self name data ''RECOVERY_REQUIRED'' Required
      else bindM (readM (\<lambda>w. Inr (observe H (sget data ''path'') w))) (\<lambda>seen.
      case seen of
        Inl _ \<Rightarrow> conclude self name data ''RECOVERY_REQUIRED'' Required
      | Inr current \<Rightarrow>
        if state = ''PREPARED'' then
          (if \<not> truthy (dget data ''preimage_exists'') \<and> current = JNull
              \<or> truthy (dget data ''preimage_exists'') \<and> current = dget data ''preimage_sha256''
           then conclude self name data ''RECOVERED_UNAPPLIED'' Recovered
           else conclude self name data ''RECOVERY_REQUIRED'' Required)
        else if state = ''APPLIED'' then
          (if truthy (dget data ''postimage_sha256'') \<and> current = dget data ''postimage_sha256''
           then conclude self name data ''VERIFIED'' Verified
           else conclude self name data ''RECOVERY_REQUIRED'' Required)
        else conclude self name data ''RECOVERY_REQUIRED'' Required)))"

definition audit_verified :: "hash \<Rightarrow> recovery_store \<Rightarrow> string \<Rightarrow> dict \<Rightarrow> (world, outcome) M" where
  "audit_verified H self name data =
     (if dget data ''original_operation'' = JStr ''ROLLBACK'' then
        bindM (finalize_rollback self name data (sget_default data ''rollback_of''))
          (\<lambda>_. ret Verified)
      else bindM (readM (\<lambda>w. Inr (truthy (dget data ''preimage_exists'') \<and> \<not> backup_ok H data w))) (\<lambda>bad.
        if bad then conclude self name data ''RECOVERY_REQUIRED'' Required else ret Verified))"

text \<open>\<open>_decide_locked\<close>: on a receipt that no longer validates, the mark is attempted on the document
  as it is; whatever the attempt raises of the listed kinds, the verdict stands.\<close>

definition mark_raw :: "recovery_store \<Rightarrow> string \<Rightarrow> (world, unit) M" where
  "mark_raw self name =
     catchM (bindM (readM (load_doc name)) (\<lambda>raw. case raw of
         JObj d \<Rightarrow> put_receipt self name (set_state ''RECOVERY_REQUIRED'' d)
       | _ \<Rightarrow> ret ())) [OSError, JSONDecodeError] (ret ())"

definition decide_locked :: "hash \<Rightarrow> recovery_store \<Rightarrow> string \<Rightarrow> (world, outcome) M" where
  "decide_locked H self name =
     bindM (readM (\<lambda>w. case read_validated name w of
         Inr d \<Rightarrow> Inr (Some d)
       | Inl e \<Rightarrow> if is_a e RecoveryError then Inr None else Inl e)) (\<lambda>got.
     case got of
       None \<Rightarrow> bindM (mark_raw self name) (\<lambda>_. ret Required)
     | Some data \<Rightarrow>
         let state = tx_state data in
         if state = ''VERIFIED'' then audit_verified H self name data
         else if state \<in> {''RECOVERED_UNAPPLIED'', ''ROLLED_BACK'', ''SUPERSEDED''} then ret Recovered
         else if state = ''RECOVERY_REQUIRED'' then ret Required
         else reconcile_one H self name data state)"

section \<open>Restart recovery\<close>

record summary =
  recovered :: "string list"
  recovery_required :: "string list"
  deferred :: "string list"
  verified :: nat
  orphans :: "string list"

record scan =
  report :: summary
  seen_backups :: "string list"

definition add_recovered :: "string \<Rightarrow> scan \<Rightarrow> scan" where
  "add_recovered r a = a\<lparr>report := (report a)\<lparr>recovered := recovered (report a) @ [r]\<rparr>\<rparr>"

definition add_required :: "string \<Rightarrow> scan \<Rightarrow> scan" where
  "add_required r a = a\<lparr>report := (report a)\<lparr>recovery_required := recovery_required (report a) @ [r]\<rparr>\<rparr>"

definition add_deferred :: "string \<Rightarrow> scan \<Rightarrow> scan" where
  "add_deferred r a = a\<lparr>report := (report a)\<lparr>deferred := deferred (report a) @ [r]\<rparr>\<rparr>"

definition add_verified :: "scan \<Rightarrow> scan" where
  "add_verified a = a\<lparr>report := (report a)\<lparr>verified := Suc (verified (report a))\<rparr>\<rparr>"

text \<open>\<open>Path(s).name\<close>.\<close>

definition base_name :: "string \<Rightarrow> string" where
  "base_name s = (case filter (\<lambda>c. c \<noteq> '''' \<and> c \<noteq> ''.'') (split_on CHR ''/'' s) of
      [] \<Rightarrow> '''' | cs \<Rightarrow> last cs)"

text \<open>
  \<open>lock_for\<close> acquires the lock of a target; taking it may wait, so it may leave a world other
  processes have changed, and it may time out.
\<close>

definition recover_one ::
    "hash \<Rightarrow> recovery_store \<Rightarrow> (string \<Rightarrow> (world, unit) M) \<Rightarrow> scan \<Rightarrow> string \<Rightarrow> (world, scan) M" where
  "recover_one H self lock_for acc name =
     bindM (readM (\<lambda>w. case load_doc name w of
         Inl e \<Rightarrow> if is_a e OSError \<or> is_a e JSONDecodeError then Inr None else Inl e
       | Inr raw \<Rightarrow> Inr (Some raw))) (\<lambda>got.
     case got of
       None \<Rightarrow> ret (add_required name acc)
     | Some raw \<Rightarrow>
       (case validate_receipt raw of
          Inl e \<Rightarrow>
            if \<not> is_a e RecoveryError then raise e
            else (case raw of
                JObj d \<Rightarrow> bindM (catchM (put_receipt self name (set_state ''RECOVERY_REQUIRED'' d)) [OSError] (ret ()))
                  (\<lambda>_. ret (add_required (case aget d ''receipt_id'' of None \<Rightarrow> name | Some v \<Rightarrow> py_str v) acc))
              | _ \<Rightarrow> ret (add_required name acc))
        | Inr data \<Rightarrow>
            let rid = sget data ''receipt_id'';
                acc = (if truthy (dget data ''backup_file'')
                       then acc\<lparr>seen_backups := base_name (sget data ''backup_file'') # seen_backups acc\<rparr>
                       else acc);
                state = tx_state data
            in if state \<in> {''RECOVERED_UNAPPLIED'', ''ROLLED_BACK'', ''SUPERSEDED''} then ret (add_recovered rid acc)
            else if state = ''RECOVERY_REQUIRED'' then ret (add_required rid acc)
            else bindM (readM (\<lambda>w. Inr (state = ''VERIFIED'' \<and>
                   dget data ''original_operation'' = JStr ''FS_WRITE'' \<and>
                   (\<not> truthy (dget data ''preimage_exists'') \<or> backup_ok H data w)))) (\<lambda>intact.
            if intact then ret (add_verified acc)
            else bindM (catchM (bindM (lock_for (sget data ''path'')) (\<lambda>_.
                          bindM (decide_locked H self name) (\<lambda>out. ret (Some out))))
                        [LockTimeoutError] (ret None)) (\<lambda>decision.
              ret (case decision of
                 None \<Rightarrow> add_deferred rid acc
               | Some Recovered \<Rightarrow> add_recovered rid acc
               | Some Verified \<Rightarrow> add_verified acc
               | Some Required \<Rightarrow> add_required rid acc)))))"

definition find_orphan_backups :: "recovery_store \<Rightarrow> string list \<Rightarrow> world \<Rightarrow> string list" where
  "find_orphan_backups self seen w =
     (let pre = root_dir self @ ''/'';
          names = map (drop (length pre)) (filter (\<lambda>p. startswith p pre) (map fst (disk w)))
      in filter (\<lambda>n. n \<notin> set seen) (sort (filter (glob_match '''' ''.bak'') names)))"

definition recover ::
    "hash \<Rightarrow> recovery_store \<Rightarrow> (string \<Rightarrow> (world, unit) M) \<Rightarrow> (world, summary) M" where
  "recover H self lock_for =
     bindM (readM (\<lambda>w. Inr (iter_receipt_files w))) (\<lambda>names.
     bindM (foldM (recover_one H self lock_for)
              \<lparr>report = \<lparr>recovered = [], recovery_required = [], deferred = [], verified = 0, orphans = []\<rparr>,
               seen_backups = []\<rparr> names) (\<lambda>acc.
     bindM (readM (\<lambda>w. Inr (find_orphan_backups self (seen_backups acc) w))) (\<lambda>orph.
     ret ((report acc)\<lparr>orphans := orph\<rparr>))))"

section \<open>Guards of a fresh mutation\<close>

fun corrupt_of :: "(string \<Rightarrow> dict result) \<Rightarrow> string list \<Rightarrow> string list result" where
  "corrupt_of f [] = Inr []"
| "corrupt_of f (n # ns) = (case f n of
      Inr d \<Rightarrow> corrupt_of f ns
    | Inl e \<Rightarrow> if is_a e OSError \<or> is_a e JSONDecodeError \<or> is_a e RecoveryError
               then bindR (corrupt_of f ns) (\<lambda>cs. Inr (n # cs)) else Inl e)"

definition corrupt_receipt_files :: "world \<Rightarrow> string list result" where
  "corrupt_receipt_files w = corrupt_of (\<lambda>n. load_validated n w) (iter_receipt_files w)"

definition has_blocking_state :: "string \<Rightarrow> string \<Rightarrow> world \<Rightarrow> string option result" where
  "has_blocking_state project_id target w =
     bindR (corrupt_receipt_files w) (\<lambda>corrupt.
     case corrupt of
       c # _ \<Rightarrow> Inr (Some (''store-corrupt:'' @ c))
     | [] \<Rightarrow> bindR (collect (\<lambda>n. load_validated n w) (iter_receipt_files w)) (\<lambda>rs.
         Inr (case filter (\<lambda>d. concerns project_id target d \<and> tx_state d \<in> set BLOCKING_STATES) (map snd rs) of
            [] \<Rightarrow> None | d # _ \<Rightarrow> Some (sget d ''receipt_id''))))"

text \<open>\<open>reconcile_target\<close>; the caller holds the lock of the target.\<close>

definition reconcile_target_one ::
    "hash \<Rightarrow> recovery_store \<Rightarrow> string \<Rightarrow> string \<Rightarrow> (string list \<times> string list) \<Rightarrow> string \<Rightarrow>
     (world, string list \<times> string list) M" where
  "reconcile_target_one H self project_id target acc name =
     bindM (readM (\<lambda>w. case read_validated name w of
         Inr d \<Rightarrow> Inr (Some d)
       | Inl e \<Rightarrow> if is_a e OSError \<or> is_a e JSONDecodeError \<or> is_a e RecoveryError then Inr None else Inl e))
       (\<lambda>got. case got of
         None \<Rightarrow> ret acc
       | Some data \<Rightarrow>
           if \<not> concerns project_id target data then ret acc
           else if tx_state data \<notin> set INCOMPLETE_STATES then
             ret (if tx_state data \<in> set BLOCKING_STATES
                  then (fst acc, snd acc @ [sget data ''receipt_id'']) else acc)
           else bindM (reconcile_one H self name data (tx_state data)) (\<lambda>out.
             ret (if out = Required then (fst acc, snd acc @ [sget data ''receipt_id''])
                  else (fst acc @ [sget data ''receipt_id''], snd acc))))"

definition reconcile_target ::
    "hash \<Rightarrow> recovery_store \<Rightarrow> string \<Rightarrow> string \<Rightarrow> (world, string list \<times> string list) M" where
  "reconcile_target H self project_id target =
     bindM (readM (\<lambda>w. Inr (iter_receipt_files w))) (\<lambda>names.
     foldM (reconcile_target_one H self project_id target) ([], []) names)"

section \<open>Rollback\<close>

definition restorable :: "string \<Rightarrow> string \<Rightarrow> string \<Rightarrow> dict \<Rightarrow> bool" where
  "restorable project_id target post d \<longleftrightarrow>
     concerns project_id target d \<and> dget d ''postimage_sha256'' = JStr post \<and>
     dget d ''original_operation'' = JStr ''FS_WRITE'' \<and> tx_state d = ''VERIFIED''"

definition pick_head :: "string list \<Rightarrow> string list \<Rightarrow> dict list \<Rightarrow> dict option result" where
  "pick_head effective ambiguous candidates =
     (case filter (\<lambda>c. sget c ''receipt_id'' \<notin> set effective) candidates of
        [head] \<Rightarrow> if sget head ''receipt_id'' \<in> set ambiguous then Inl RecoveryRequiredError
                  else Inr (Some head)
      | _ \<Rightarrow> Inl RecoveryRequiredError)"

definition find_latest_receipt :: "string \<Rightarrow> string \<Rightarrow> string \<Rightarrow> world \<Rightarrow> dict option result" where
  "find_latest_receipt project_id target expected_post w =
     (let post = strip_ws (upper expected_post) in
      bindR (collect (\<lambda>n. load_validated n w)
               (glob_journal (''recovery-'' @ project_id @ ''-'') ''.json'' w)) (\<lambda>rs.
      let candidates = filter (restorable project_id target post) (map snd rs) in
      if candidates = [] then Inr None
      else bindR (chain_references project_id target w) (\<lambda>(effective, ambiguous).
        pick_head effective ambiguous candidates)))"

definition supersede_one ::
    "hash \<Rightarrow> recovery_store \<Rightarrow> string \<Rightarrow> string \<Rightarrow> json \<Rightarrow> string list \<Rightarrow> string \<Rightarrow> (world, string list) M" where
  "supersede_one H self project_id target current acc name =
     bindM (readM (\<lambda>w. case read_validated name w of
         Inr d \<Rightarrow> Inr (Some d)
       | Inl e \<Rightarrow> if is_a e OSError \<or> is_a e JSONDecodeError \<or> is_a e RecoveryError then Inr None else Inl e))
       (\<lambda>got. case got of
         None \<Rightarrow> ret acc
       | Some data \<Rightarrow>
           let state = tx_state data in
           if \<not> concerns project_id target data \<or> state \<notin> set INCOMPLETE_STATES then ret acc
           else if dget data ''original_operation'' = JStr ''ROLLBACK'' then
             bindM (reconcile_one H self name data state) (\<lambda>out.
             if out = Required then raise RecoveryRequiredError else ret acc)
           else if state = ''PREPARED'' then
             bindM (reconcile_one H self name data state) (\<lambda>out.
             if out = Required then raise RecoveryRequiredError
             else bindM (readM (read_validated name)) (\<lambda>data'.
                  bindM (put_receipt self name (set_state ''SUPERSEDED'' data')) (\<lambda>_.
                  ret (acc @ [sget data' ''receipt_id'']))))
           else if truthy (dget data ''postimage_sha256'') \<and> current = dget data ''postimage_sha256'' then
             bindM (put_receipt self name (set_state ''VERIFIED'' data)) (\<lambda>_. ret acc)
           else bindM (put_receipt self name (set_state ''RECOVERY_REQUIRED'' data)) (\<lambda>_.
                raise RecoveryRequiredError))"

definition supersede_pending ::
    "hash \<Rightarrow> recovery_store \<Rightarrow> string \<Rightarrow> string \<Rightarrow> (world, string list) M" where
  "supersede_pending H self project_id target =
     bindM (readM (\<lambda>w. Inr (case observe H target w of Inl _ \<Rightarrow> JNull | Inr c \<Rightarrow> c))) (\<lambda>current.
     bindM (readM (\<lambda>w. Inr (iter_receipt_files w))) (\<lambda>names.
     foldM (supersede_one H self project_id target current) [] names))"

definition rollback_receipt :: "string \<Rightarrow> string \<Rightarrow> string \<Rightarrow> string \<Rightarrow> string \<Rightarrow> world \<Rightarrow> dict" where
  "rollback_receipt rb_id project_id target source_id current w =
     [(''receipt_id'', JStr rb_id),
      (''project_id'', JStr project_id),
      (''path'', JStr target),
      (''original_operation'', JStr ''ROLLBACK''),
      (''rollback_of'', JStr source_id),
      (''preimage_exists'', JBool True),
      (''preimage_sha256'', JStr current),
      (''postimage_sha256'', JNull),
      (''expected_postimage_sha256'', JStr current),
      (''restored_sha256'', JNull),
      (''backup_file'', JNull),
      (''created_at'', JStr (stamp w)),
      (''seq'', JInt (now_ns w)),
      (''tx_state'', JStr ''PREPARED'')]"

text \<open>The terminal writes: APPLIED with what was restored, then VERIFIED and the source.\<close>

definition finish_rollback ::
    "recovery_store \<Rightarrow> string \<Rightarrow> dict \<Rightarrow> string \<Rightarrow> dict \<Rightarrow> (world, dict) M" where
  "finish_rollback self rb_name rb source_id reply =
     bindM (put_receipt self rb_name rb) (\<lambda>_.
     bindM (failpoint self ''rollback_before_terminal'') (\<lambda>_.
     bindM (finalize_rollback self rb_name rb source_id) (\<lambda>_.
     ret reply)))"

definition fail_rollback :: "recovery_store \<Rightarrow> string \<Rightarrow> dict \<Rightarrow> (world, dict) M" where
  "fail_rollback self rb_name rb =
     bindM (put_receipt self rb_name (set_state ''RECOVERY_REQUIRED'' rb)) (\<lambda>_. raise RecoveryError)"

definition apply_rollback ::
    "hash \<Rightarrow> recovery_store \<Rightarrow> string \<Rightarrow> string \<Rightarrow> string \<Rightarrow> dict \<Rightarrow> dict \<Rightarrow> (world, dict) M" where
  "apply_rollback H self target rb_id current_hash receipt rb =
     (let rb_name = json_name rb_id; source = sget receipt ''receipt_id'' in
      if \<not> truthy (dget receipt ''preimage_exists'') then
        bindM (unlink_file target) (\<lambda>_.
        finish_rollback self rb_name
          (set_state ''APPLIED'' (aset ''restored_sha256'' (JStr ''__ABSENT__'') rb)) source
          [(''status'', JStr ''ROLLED_BACK''), (''receipt_id'', dget receipt ''receipt_id''),
           (''rollback_receipt_id'', JStr rb_id), (''path'', JStr target),
           (''action'', JStr ''deleted''), (''restored_state'', JStr ''absent'')])
      else
        let backup_file = sget_default receipt ''backup_file'' in
        bindM (readM (\<lambda>w. Inr (is_file backup_file w))) (\<lambda>present.
        if \<not> present then fail_rollback self rb_name rb
        else bindM (readM (read_bytes backup_file)) (\<lambda>backup_data.
        if JStr (H backup_data) \<noteq> dget receipt ''preimage_sha256'' then fail_rollback self rb_name rb
        else bindM (write_bytes target backup_data) (\<lambda>_.
        bindM (readM (sha256_file H target)) (\<lambda>final_hash.
        if JStr final_hash \<noteq> dget receipt ''preimage_sha256'' then fail_rollback self rb_name rb
        else finish_rollback self rb_name
          (set_state ''APPLIED'' (aset ''restored_sha256'' (JStr final_hash) rb)) source
          [(''status'', JStr ''ROLLED_BACK''), (''receipt_id'', dget receipt ''receipt_id''),
           (''rollback_receipt_id'', JStr rb_id), (''path'', JStr target),
           (''action'', JStr ''restored''), (''restored_state'', JStr ''present''),
           (''restored_sha256'', JStr final_hash)])))))"

definition rollback :: "hash \<Rightarrow> recovery_store \<Rightarrow> string \<Rightarrow> string \<Rightarrow> string \<Rightarrow> (world, dict) M" where
  "rollback H self project_id target expected_post =
     bindM (readM corrupt_receipt_files) (\<lambda>corrupt.
     if corrupt \<noteq> [] then raise RecoveryRequiredError
     else bindM (readM (\<lambda>w. Inr (is_file target w))) (\<lambda>present.
     if \<not> present then raise RecoveryError
     else bindM (readM (sha256_file H target)) (\<lambda>current_hash.
     if current_hash \<noteq> strip_ws (upper expected_post) then raise RecoveryError
     else bindM (supersede_pending H self project_id target) (\<lambda>superseded.
     bindM (readM (find_latest_receipt project_id target current_hash)) (\<lambda>found.
     case found of
       None \<Rightarrow> raise RecoveryError
     | Some receipt \<Rightarrow>
         bindM (new_receipt_id self project_id ''rollback'') (\<lambda>rb_id.
         bindM (readM (\<lambda>w. Inr (rollback_receipt rb_id project_id target
                   (sget receipt ''receipt_id'') current_hash w))) (\<lambda>rb.
         bindM (put_receipt self (json_name rb_id) rb) (\<lambda>_.
         apply_rollback H self target rb_id current_hash receipt rb))))))))"

section \<open>Retention\<close>

definition prune_one :: "recovery_store \<Rightarrow> int \<Rightarrow> nat \<Rightarrow> string \<Rightarrow> (world, nat) M" where
  "prune_one self cutoff removed name =
     bindM (readM (\<lambda>w. case aget (journal w) name of
         None \<Rightarrow> Inr None
       | Some f \<Rightarrow> if jmtime f \<ge> cutoff then Inr None
           else (case load_validated name w of
               Inr d \<Rightarrow> Inr (Some d)
             | Inl e \<Rightarrow> if is_a e OSError \<or> is_a e JSONDecodeError \<or> is_a e RecoveryError
                        then Inr None else Inl e))) (\<lambda>got.
     case got of
       None \<Rightarrow> ret removed
     | Some data \<Rightarrow>
         if tx_state data \<notin> set TERMINAL_STATES then ret removed
         else bindM (catchM (bindM (unlink_doc (root_dir self) name) (\<lambda>_. ret True)) [OSError] (ret False)) (\<lambda>gone.
         if \<not> gone then ret removed
         else if truthy (dget data ''backup_file'') then
           bindM (catchM (unlink_file (sget data ''backup_file'')) [OSError] (ret ())) (\<lambda>_. ret (Suc removed))
         else ret (Suc removed)))"

definition prune :: "recovery_store \<Rightarrow> int \<Rightarrow> (world, nat) M" where
  "prune self retention_days =
     bindM (readM (\<lambda>w. Inr (iter_receipt_files w, now w - retention_days * 86400))) (\<lambda>(names, cutoff).
     foldM (prune_one self cutoff) 0 names)"

end
