(* ===== verification/Store_Laws.thy ===== *)
theory Store_Laws
  imports Store
begin

text \<open>
  What the recovery store keeps of its receipts.

  \<open>tx_step\<close> is the state machine of one receipt. \<open>advances\<close> relates two worlds when every
  valid receipt of the first is still there in the second, with its identity, its preimage and
  its backup unchanged and its state moved along the machine, if at all. It is shown of every
  operation but \<open>prune\<close>, whatever its result: a normal return, an exception, a power failure at
  any effect.
\<close>

section \<open>The state machine of a receipt\<close>

inductive tx_step :: "string \<Rightarrow> string \<Rightarrow> bool" where
  apply_tx: "tx_step ''PREPARED'' ''APPLIED''"
| unapplied: "tx_step ''PREPARED'' ''RECOVERED_UNAPPLIED''"
| verify: "tx_step ''APPLIED'' ''VERIFIED''"
| supersede: "tx_step ''RECOVERED_UNAPPLIED'' ''SUPERSEDED''"
| stuck: "s \<in> {''PREPARED'', ''APPLIED'', ''VERIFIED''} \<Longrightarrow> tx_step s ''RECOVERY_REQUIRED''"
| undone: "s \<noteq> ''ROLLED_BACK'' \<Longrightarrow> tx_step s ''ROLLED_BACK''"

inductive_cases tx_step_from_required: "tx_step ''RECOVERY_REQUIRED'' s"
inductive_cases tx_step_from_rolled_back: "tx_step ''ROLLED_BACK'' s"
inductive_simps tx_step_to_prepared [simp]: "tx_step s ''PREPARED''"
inductive_simps tx_step_to_applied [simp]: "tx_step s ''APPLIED''"
inductive_simps tx_step_to_verified [simp]: "tx_step s ''VERIFIED''"

abbreviation tx_reach :: "string \<Rightarrow> string \<Rightarrow> bool" where
  "tx_reach \<equiv> tx_step\<^sup>*\<^sup>*"

lemma tx_reach_step [intro]: "tx_step s t \<Longrightarrow> tx_reach s t"
  by blast

lemma tx_reach_rolled_back: "tx_reach s ''ROLLED_BACK''"
  by (cases "s = ''ROLLED_BACK''") (auto intro: undone)

lemma tx_reach_required:
  "s \<in> {''PREPARED'', ''APPLIED'', ''VERIFIED'', ''RECOVERY_REQUIRED''} \<Longrightarrow>
   tx_reach s ''RECOVERY_REQUIRED''"
  using stuck by auto

lemma tx_reach_verified: "s \<in> {''PREPARED'', ''APPLIED'', ''VERIFIED''} \<Longrightarrow> tx_reach s ''VERIFIED''"
  by (auto intro: verify apply_tx converse_rtranclp_into_rtranclp)

lemma tx_reach_from_rolled_back: "tx_reach ''ROLLED_BACK'' s \<longleftrightarrow> s = ''ROLLED_BACK''"
proof
  assume "tx_reach ''ROLLED_BACK'' s"
  then show "s = ''ROLLED_BACK''"
    by (induction rule: rtranclp_induct) (auto elim: tx_step_from_rolled_back)
qed simp

lemma tx_reach_from_required:
  "tx_reach ''RECOVERY_REQUIRED'' s \<longleftrightarrow> s = ''RECOVERY_REQUIRED'' \<or> s = ''ROLLED_BACK''"
proof
  assume "tx_reach ''RECOVERY_REQUIRED'' s"
  then show "s = ''RECOVERY_REQUIRED'' \<or> s = ''ROLLED_BACK''"
    by (induction rule: rtranclp_induct)
      (auto elim: tx_step_from_required tx_step_from_rolled_back)
qed (auto simp: tx_reach_rolled_back)

text \<open>A receipt that has left the incomplete states never comes back to one.\<close>

lemma tx_step_incomplete: "tx_step s t \<Longrightarrow> t \<in> set INCOMPLETE_STATES \<Longrightarrow> s \<in> set INCOMPLETE_STATES"
  by (auto simp: INCOMPLETE_STATES_def)

lemma tx_reach_incomplete:
  "tx_reach s t \<Longrightarrow> t \<in> set INCOMPLETE_STATES \<Longrightarrow> s \<in> set INCOMPLETE_STATES"
  by (induction rule: rtranclp_induct) (auto dest: tx_step_incomplete)

section \<open>Receipts of a world\<close>

definition receipt_at :: "string \<Rightarrow> world \<Rightarrow> dict option" where
  "receipt_at n w = (case load_doc n w of
      Inr (JObj d) \<Rightarrow> if valid_receipt d then Some d else None | _ \<Rightarrow> None)"

lemma receipt_at_Some: "receipt_at n w = Some d \<longleftrightarrow> load_doc n w = Inr (JObj d) \<and> valid_receipt d"
  by (auto simp: receipt_at_def split: sum.splits json.splits)

lemma read_validated_Inr: "read_validated n w = Inr d \<longleftrightarrow> receipt_at n w = Some d"
  by (auto simp: read_validated_def receipt_at_Some validate_receipt_Inr split: sum.splits)

lemma load_validated_Inr: "load_validated n w = Inr d \<longleftrightarrow> receipt_at n w = Some d"
  by (auto simp: load_validated_def receipt_at_Some validate_receipt_Inr bindR_Inr_iff)

lemma read_validated_Inl: "read_validated n w = Inl e \<Longrightarrow> receipt_at n w = None"
  by (cases "receipt_at n w") (auto simp: read_validated_Inr [symmetric])

lemma receipt_at_cong: "journal w' = journal w \<Longrightarrow> receipt_at n w' = receipt_at n w"
  by (simp add: receipt_at_def load_doc_def)

definition KEPT_FIELDS :: "string list" where
  "KEPT_FIELDS = [''receipt_id'', ''project_id'', ''path'', ''original_operation'', ''preimage_exists'',
     ''preimage_sha256'', ''backup_file'', ''prev_receipt_id'', ''rollback_of'',
     ''expected_postimage_sha256'', ''created_at'', ''seq'']"

definition moves :: "dict \<Rightarrow> dict \<Rightarrow> bool" where
  "moves d d' \<longleftrightarrow> tx_reach (tx_state d) (tx_state d') \<and> (\<forall>k \<in> set KEPT_FIELDS. dget d' k = dget d k)"

lemma moves_refl [simp]: "moves d d"
  by (simp add: moves_def)

lemma moves_trans: "moves a b \<Longrightarrow> moves b c \<Longrightarrow> moves a c"
  by (auto simp: moves_def)

lemma moves_set_state: "tx_reach (tx_state d) st \<Longrightarrow> moves d (set_state st d)"
  by (auto simp: moves_def KEPT_FIELDS_def)

definition advances :: "world \<Rightarrow> world \<Rightarrow> bool" where
  "advances w w' \<longleftrightarrow> (\<forall>n d. receipt_at n w = Some d \<longrightarrow>
     (\<exists>d'. receipt_at n w' = Some d' \<and> moves d d'))"

interpretation journal: evolution advances
proof unfold_locales
  show "advances w w" for w by (auto simp: advances_def)
  show "advances u w" if "advances u v" "advances v w" for u v w
    unfolding advances_def
  proof (intro allI impI)
    fix n d
    assume "receipt_at n u = Some d"
    with that(1) obtain d1 where 1: "receipt_at n v = Some d1" "moves d d1"
      unfolding advances_def by blast
    with that(2) obtain d2 where "receipt_at n w = Some d2" "moves d1 d2"
      unfolding advances_def by blast
    with 1 show "\<exists>d'. receipt_at n w = Some d' \<and> moves d d'" by (blast intro: moves_trans)
  qed
qed

lemma advances_same:
  assumes "journal w' = journal w"
  shows "advances w w'"
  using receipt_at_cong [OF assms] by (auto simp: advances_def)

section \<open>Primitives\<close>

lemma put_receipt_cases:
  obtains "snd (put_receipt self n d w) = w" "\<exists>e. fst (put_receipt self n d w) = Inl e"
  | w' where "put_receipt self n d w = (Inr (), w')" "disk w' = disk w"
      "journal w' = aset n \<lparr>jdoc = Doc (JObj d), jmtime = now w\<rparr> (journal w)"
proof (cases "put_receipt self n d w")
  case (Pair r w')
  show thesis
  proof (cases r)
    case (Inl e)
    with Pair have "w' = w" by (simp add: put_receipt_def write_doc_Inl)
    with Pair Inl that(1) show thesis by simp
  next
    case (Inr u)
    with Pair have "write_doc (root_dir self) n (JObj d) w = (Inr u, w')" by (simp add: put_receipt_def)
    from write_doc_Inr [OF this] Pair Inr that(2) show thesis by simp
  qed
qed

lemma load_doc_put:
  "journal w' = aset m \<lparr>jdoc = Doc j, jmtime = t\<rparr> (journal w) \<Longrightarrow>
   load_doc n w' = (if n = m then Inr j else load_doc n w)"
  by (simp add: load_doc_def)

lemma put_receipt_Inr:
  "put_receipt self n d w = (Inr x, w') \<Longrightarrow>
     disk w' = disk w \<and> (\<forall>m. load_doc m w' = (if m = n then Inr (JObj d) else load_doc m w))"
  unfolding put_receipt_def by (drule write_doc_Inr) (simp add: load_doc_put)

lemma put_receipt_at:
  assumes "put_receipt self n d w = (Inr x, w')" and "valid_receipt d"
  shows "receipt_at n w' = Some d"
  using put_receipt_Inr [OF assms(1)] assms(2) by (simp add: receipt_at_Some)

text \<open>Overwriting a receipt by one it may move to, or writing where there is no valid one.\<close>

lemma put_receipt_advances:
  assumes "\<And>d0. receipt_at n w = Some d0 \<Longrightarrow> moves d0 d \<and> valid_receipt d"
  shows "advances w (snd (put_receipt self n d w))"
proof (cases rule: put_receipt_cases [of self n d w])
  case 1
  then show ?thesis by (simp add: journal.R_refl)
next
  case (2 w')
  have "\<exists>d'. receipt_at m w' = Some d' \<and> moves d1 d'" if "receipt_at m w = Some d1" for m d1
    using assms that load_doc_put [OF 2(3)] by (cases "m = n") (auto simp: receipt_at_Some)
  with 2 show ?thesis by (simp add: advances_def)
qed

lemma put_state_advances:
  assumes "receipt_at n w = Some d" and "tx_reach (tx_state d) st" and "st \<in> set KNOWN_STATES"
  shows "advances w (snd (put_receipt self n (set_state st d) w))"
  using assms valid_set_state
  by (intro put_receipt_advances) (auto simp: moves_set_state receipt_at_Some)

lemma put_invalid_advances:
  "receipt_at n w = None \<Longrightarrow> advances w (snd (put_receipt self n d w))"
  by (rule put_receipt_advances) simp

lemma write_bytes_advances: "evolves advances (write_bytes p b)"
  unfolding write_bytes_def
  by (rule effect_evolves) (unfold_locales, auto intro: advances_same)

lemma unlink_file_advances: "evolves advances (unlink_file p)"
  unfolding evolves_def unlink_file_def effect_def
  by (auto split: option.splits nat.splits intro: advances_same)

lemma failpoint_advances: "evolves advances (failpoint self p)"
  unfolding failpoint_def by (intro journal.if_evolves journal.raise_evolves journal.ret_evolves)

lemma draw_journal: "journal (snd (draw_receipt_id self p k n w)) = journal w \<and>
    disk (snd (draw_receipt_id self p k n w)) = disk w"
  by (induction n arbitrary: w) (auto simp: Let_def)

lemma new_receipt_id_advances: "evolves advances (new_receipt_id self p k)"
  by (simp add: evolves_def new_receipt_id_def advances_same draw_journal)

lemma draw_fresh:
  "draw_receipt_id self p k n w = (Inr rid, w') \<Longrightarrow>
     aget (journal w) (json_name rid) = None \<and> \<not> path_exists (bak_path self rid) w \<and>
     journal w' = journal w \<and> disk w' = disk w \<and> denied w' = denied w \<and> budget w' = budget w"
proof (induction n arbitrary: w)
  case 0
  then show ?case by simp
next
  case (Suc n)
  let ?r = "k @ ''-'' @ p @ ''-'' @ draws w (drawn w)"
  show ?case
  proof (cases "aget (journal w) (json_name ?r) = None \<and> \<not> path_exists (bak_path self ?r) w")
    case True
    with Suc.prems show ?thesis by (auto simp: Let_def)
  next
    case False
    with Suc.prems have "draw_receipt_id self p k n (w\<lparr>drawn := Suc (drawn w)\<rparr>) = (Inr rid, w')"
      by (simp only: draw_receipt_id.simps Let_def if_False)
    from Suc.IH [OF this] show ?thesis by (simp add: path_exists_def)
  qed
qed

lemma new_receipt_id_fresh:
  "new_receipt_id self p k w = (Inr rid, w') \<Longrightarrow>
     receipt_at (json_name rid) w = None \<and> aget (disk w) (bak_path self rid) = None \<and>
     journal w' = journal w \<and> disk w' = disk w \<and> denied w' = denied w \<and> budget w' = budget w"
  unfolding new_receipt_id_def
  by (drule draw_fresh) (auto simp: receipt_at_def load_doc_def path_exists_def)

lemma write_bytes_frames_journal: "evolves (frames journal) (write_bytes p b)"
  unfolding write_bytes_def
  by (rule effect_evolves) (auto simp: frames_def frame.evolution_axioms)

lemma put_receipt_frames_disk: "evolves (frames disk) (put_receipt self n d)"
  unfolding put_receipt_def write_doc_def
  by (rule effect_evolves) (auto simp: frames_def frame.evolution_axioms)

lemma failpoint_frames: "evolves (frames v) (failpoint self p)"
  unfolding failpoint_def by (intro frame.combinators)

section \<open>Journalling a write\<close>

lemma save_backup_frames_journal: "evolves (frames journal) (save_backup H self rid c)"
  unfolding save_backup_def by (intro frame.combinators write_bytes_frames_journal)

lemma save_preimage_advances: "evolves advances (save_preimage H self project_id target content)"
  unfolding evolves_def save_preimage_def
proof (rule allI, rule journal.bindM_at)
  show "advances w (snd (new_receipt_id self project_id ''recovery'' w))" for w
    using new_receipt_id_advances by (simp add: evolves_def)
next
  fix w rid w1
  assume "new_receipt_id self project_id ''recovery'' w = (Inr rid, w1)"
  then have fresh: "receipt_at (json_name rid) w1 = None"
    using new_receipt_id_fresh receipt_at_cong by metis
  show "advances w1 (snd (bindM (save_backup H self rid content) (\<lambda>_.
     bindM (readM (find_superseded_id H project_id target content)) (\<lambda>prev.
     bindM (readM (\<lambda>w. Inr (prepared_receipt H self rid project_id target content prev w))) (\<lambda>receipt.
     bindM (put_receipt self (json_name rid) receipt) (\<lambda>_.
     bindM (failpoint self ''after_backup'') (\<lambda>_. ret receipt))))) w1))"
  proof (rule journal.bindM_at)
    have "journal (snd (save_backup H self rid content w1)) = journal w1"
      using save_backup_frames_journal by (simp add: evolves_def frames_def)
    then show "advances w1 (snd (save_backup H self rid content w1))" by (rule advances_same)
  next
    fix u w2
    assume "save_backup H self rid content w1 = (Inr u, w2)"
    then have "journal w2 = journal w1"
      using evolvesD [OF save_backup_frames_journal] by (simp add: frames_def)
    then have fresh2: "receipt_at (json_name rid) w2 = None"
      using fresh receipt_at_cong by metis
    show "advances w2 (snd (bindM (readM (find_superseded_id H project_id target content)) (\<lambda>prev.
     bindM (readM (\<lambda>w. Inr (prepared_receipt H self rid project_id target content prev w))) (\<lambda>receipt.
     bindM (put_receipt self (json_name rid) receipt) (\<lambda>_.
     bindM (failpoint self ''after_backup'') (\<lambda>_. ret receipt)))) w2))"
      by (intro journal.readM_at journal.bindM_at put_invalid_advances fresh2)
        (use failpoint_advances in \<open>auto simp: evolves_def journal.R_refl\<close>)
  qed
qed

lemma receipt_at_read:
  "load_doc n w = Inr j \<Longrightarrow> as_dict j = Inr d \<Longrightarrow> receipt_at n w = Some d0 \<Longrightarrow> d = d0"
  by (auto simp: receipt_at_Some as_dict_def)

lemma valid_receipt_sget_state:
  "valid_receipt d \<Longrightarrow> dget d ''tx_state'' = JStr s \<longleftrightarrow> tx_state d = s"
  using valid_receipt_state [of d] by auto

text \<open>Recording the hash of what was written, and a state with it.\<close>

definition set_post :: "string \<Rightarrow> string \<Rightarrow> dict \<Rightarrow> dict" where
  "set_post post st d = set_state st (aset ''postimage_sha256'' (JStr post) d)"

lemma valid_set_post: "valid_receipt d \<Longrightarrow> st \<in> set KNOWN_STATES \<Longrightarrow> valid_receipt (set_post p st d)"
  by (auto simp: valid_receipt_def validate_receipt_def set_post_def set_state_def split: if_splits)

lemma set_post_simps [simp]:
  "dget (set_post p st d) k = (if k = ''tx_state'' then JStr st
     else if k = ''postimage_sha256'' then JStr p else dget d k)"
  "set_state st' (set_post p st d) = set_post p st' d"
  by (auto simp: set_post_def set_state_def)

lemma sget_set_post [simp]:
  "sget (set_post p st d) k = (if k = ''tx_state'' then st
     else if k = ''postimage_sha256'' then p else sget d k)"
  by (simp add: sget_def)

lemma moves_set_post: "tx_reach (tx_state d) st \<Longrightarrow> moves d (set_post p st d)"
  by (auto simp: moves_def KEPT_FIELDS_def)



text \<open>The document last read or written at a name, as far as it is a valid receipt.\<close>

definition holds :: "string \<Rightarrow> dict \<Rightarrow> world \<Rightarrow> bool" where
  "holds n d w \<longleftrightarrow> (\<forall>d0. receipt_at n w = Some d0 \<longrightarrow> d0 = d)"

lemma holds_receipt: "receipt_at n w = Some d \<Longrightarrow> holds n d w"
  by (simp add: holds_def)

lemma holds_read: "bindR (load_doc n w) as_dict = Inr d \<Longrightarrow> holds n d w"
  by (auto simp: holds_def bindR_Inr_iff receipt_at_Some as_dict_def)

lemma holds_put: "put_receipt self n d w = (Inr x, w') \<Longrightarrow> holds n d w'"
  by (drule put_receipt_Inr) (simp add: holds_def receipt_at_Some)

lemma holds_cong: "journal w' = journal w \<Longrightarrow> holds n d w' = holds n d w"
  unfolding holds_def by (metis receipt_at_cong)

lemma put_state_holds:
  assumes "holds n d w" and "\<And>s. dget d ''tx_state'' = JStr s \<Longrightarrow> tx_reach s st"
    and "st \<in> set KNOWN_STATES"
  shows "advances w (snd (put_receipt self n (set_state st d) w))"
  using assms valid_receipt_state
  by (intro put_receipt_advances)
    (fastforce simp: holds_def receipt_at_Some intro: moves_set_state valid_set_state)

lemma put_post_holds:
  assumes "holds n d w" and "\<And>s. dget d ''tx_state'' = JStr s \<Longrightarrow> tx_reach s st"
    and "st \<in> set KNOWN_STATES"
  shows "advances w (snd (put_receipt self n (set_post p st d) w))"
  using assms valid_receipt_state
  by (intro put_receipt_advances)
    (fastforce simp: holds_def receipt_at_Some intro: moves_set_post valid_set_post)

lemmas at_rules = journal.readM_at journal.bindM_at

lemma note_target_replaced_advances: "evolves advances (note_target_replaced self rid post)"
  unfolding note_target_replaced_def set_post_def [symmetric]
proof (rule journal.readM_evolves_at)
  fix data w
  assume "(case load_doc (json_name rid) w of
         Inl e \<Rightarrow> if is_a e OSError \<or> is_a e JSONDecodeError then Inl RecoveryError else Inl e
       | Inr j \<Rightarrow> as_dict j) = Inr data"
  then have "holds (json_name rid) data w"
    by (intro holds_read) (auto split: sum.splits if_splits)
  then show "advances w (snd ((if dget data ''tx_state'' \<noteq> JStr ''PREPARED'' then raise RecoveryError
     else put_receipt self (json_name rid) (set_post (upper post) ''APPLIED'' data)) w))"
    by (auto simp: journal.R_refl KNOWN_STATES_def intro!: put_post_holds apply_tx)
qed

lemma settle_postimage_advances:
  assumes "holds n d w" and "dget d ''tx_state'' = JStr ''APPLIED''"
  shows "advances w (snd (settle_postimage H self n d post w))"
proof -
  have put: "advances w (snd (put_receipt self n (set_state st d) w))"
    if "st \<in> {''VERIFIED'', ''RECOVERY_REQUIRED''}" for st
    using that assms by (intro put_state_holds)
      (auto simp: KNOWN_STATES_def intro: tx_reach_verified tx_reach_required)
  show ?thesis
    unfolding settle_postimage_def
  proof (rule journal.readM_at)
    fix current
    have "advances w (snd (bindM (put_receipt self n (set_state ''RECOVERY_REQUIRED'' d)) (\<lambda>_. raise RecoveryError :: (world, unit) M) w))"
      by (rule journal.bindM_at) (simp_all add: put journal.R_refl)
    then show "advances w (snd ((if current \<noteq> Inr post
        then bindM (put_receipt self n (set_state ''RECOVERY_REQUIRED'' d)) (\<lambda>_. raise RecoveryError)
        else put_receipt self n (set_state ''VERIFIED'' d)) w))"
      by (simp add: put)
  qed
qed

lemma failpoint_state: "failpoint self p w = (r, w') \<Longrightarrow> w' = w"
  by (auto simp: failpoint_def split: if_splits)

lemma record_postimage_advances: "evolves advances (record_postimage H self rid post)"
  unfolding record_postimage_def set_post_def [symmetric] Let_def
proof (rule journal.readM_evolves_at)
  fix data w
  let ?n = "json_name rid" and ?p = "upper post"
  assume "(if aget (journal w) ?n = None then Inl RecoveryError
      else bindR (load_doc ?n w) as_dict) = Inr data"
  then have h: "holds ?n data w" by (intro holds_read) (auto split: if_splits)
  let ?rest = "bindM (put_receipt self ?n (set_post ?p ''APPLIED'' data)) (\<lambda>_.
     bindM (failpoint self ''during_finalize'') (\<lambda>_.
     settle_postimage H self ?n (set_post ?p ''APPLIED'' data) ?p))"
  have "advances w (snd (?rest w))" if "dget data ''tx_state'' \<in> {JStr ''PREPARED'', JStr ''APPLIED''}"
    using that h
    by (intro at_rules put_post_holds settle_postimage_advances)
      (auto simp: KNOWN_STATES_def failpoint_advances [unfolded evolves_def]
        dest!: failpoint_state intro: apply_tx holds_put)
  then show "advances w (snd ((if \<not> hashable (dget data ''tx_state'') then raise TypeError
     else if dget data ''tx_state'' \<notin> {JStr ''PREPARED'', JStr ''APPLIED''} then raise RecoveryError
     else ?rest) w))"
    by (simp add: journal.R_refl)
qed

section \<open>Reconciling\<close>

lemma conclude_advances:
  assumes "holds n d w" and "\<And>s. dget d ''tx_state'' = JStr s \<Longrightarrow> tx_reach s st"
    and "st \<in> set KNOWN_STATES"
  shows "advances w (snd (conclude self n d st out w))"
  unfolding conclude_def
  by (intro journal.bindM_at put_state_holds assms) (auto simp: journal.R_refl)

lemma evolves_at: "evolves R m \<Longrightarrow> R w (snd (m w))"
  by (simp add: evolves_def)

lemma close_source_advances: "evolves advances (close_source self src)"
proof -
  have put: "advances w (snd (put_receipt self m (set_state ''ROLLED_BACK'' d) w))"
    if "receipt_at m w = Some d" for m d w
    using that by (intro put_state_advances) (auto simp: KNOWN_STATES_def intro: tx_reach_rolled_back)
  show ?thesis
    unfolding close_source_def
    by (intro journal.if_evolves journal.ret_evolves journal.readM_evolves_at)
      (auto simp: journal.R_refl split: sum.splits if_splits
        dest!: load_validated_Inr [THEN iffD1] intro: put)
qed

lemma finalize_rollback_advances:
  assumes "holds n d w" and "dget d ''tx_state'' \<in> JStr ` {''PREPARED'', ''APPLIED'', ''VERIFIED''}"
  shows "advances w (snd (finalize_rollback self n d src w))"
  unfolding finalize_rollback_def
proof (rule journal.bindM_at)
  show "advances w (snd (put_receipt self n (set_state ''VERIFIED'' d) w))"
    using assms by (intro put_state_holds) (auto simp: KNOWN_STATES_def intro: tx_reach_verified)
next
  show "advances w1 (snd (close_source self src w1))" for w1
    by (rule evolves_at [OF close_source_advances])
qed

lemma tx_state_incomplete:
  "holds n d w \<Longrightarrow> dget d ''tx_state'' = JStr s \<Longrightarrow> s \<in> {''PREPARED'', ''APPLIED''} \<Longrightarrow>
   advances w (snd (conclude self n d ''RECOVERY_REQUIRED'' out w))"
  by (rule conclude_advances) (auto simp: KNOWN_STATES_def intro: tx_reach_required)

lemma reconcile_rollback_advances:
  assumes "holds n d w" and "dget d ''tx_state'' = JStr s" and "s \<in> {''PREPARED'', ''APPLIED''}"
  shows "advances w (snd (reconcile_rollback H self n d s w))"
proof -
  have unapp: "s = ''PREPARED'' \<Longrightarrow> advances w (snd (conclude self n d ''RECOVERED_UNAPPLIED'' out w))" for out
    using assms by (auto simp: KNOWN_STATES_def intro!: conclude_advances unapplied)
  have fin: "advances w (snd (bindM (finalize_rollback self n d src) (\<lambda>_. ret Verified) w))" for src
    by (rule journal.bindM_at)
      (use assms in \<open>auto intro!: finalize_rollback_advances simp: journal.R_refl\<close>)
  show ?thesis
    unfolding reconcile_rollback_def Let_def
    using unapp fin tx_state_incomplete [OF assms]
    by (cases "observe H (sget d ''path'') w") (auto simp: bindM_readM)
qed

lemma reconcile_one_advances:
  assumes "holds n d w" and "dget d ''tx_state'' = JStr s" and "s \<in> {''PREPARED'', ''APPLIED''}"
  shows "advances w (snd (reconcile_one H self n d s w))"
proof (cases "dget d ''original_operation'' = JStr ''ROLLBACK''")
  case True
  with reconcile_rollback_advances [OF assms] show ?thesis by (simp add: reconcile_one_def)
next
  case False
  have unapp: "s = ''PREPARED'' \<Longrightarrow> advances w (snd (conclude self n d ''RECOVERED_UNAPPLIED'' out w))"
    and ver: "s = ''APPLIED'' \<Longrightarrow> advances w (snd (conclude self n d ''VERIFIED'' out w))" for out
    using assms by (auto simp: KNOWN_STATES_def intro!: conclude_advances unapplied verify)
  show ?thesis
    unfolding reconcile_one_def if_not_P [OF False]
    using unapp ver tx_state_incomplete [OF assms]
    by (cases "observe H (sget d ''path'') w") (auto simp: bindM_readM)
qed

lemma audit_verified_advances:
  assumes "holds n d w" and "dget d ''tx_state'' = JStr ''VERIFIED''"
  shows "advances w (snd (audit_verified H self n d w))"
  unfolding audit_verified_def using assms
  by (auto simp: KNOWN_STATES_def journal.R_refl intro!: at_rules finalize_rollback_advances
      conclude_advances tx_reach_required)

lemma decide_locked_advances: "evolves advances (decide_locked H self n)"
  unfolding decide_locked_def
proof (rule journal.readM_evolves_at)
  fix got w
  assume r: "(case read_validated n w of Inr d \<Rightarrow> Inr (Some d)
       | Inl e \<Rightarrow> if is_a e RecoveryError then Inr None else Inl e) = Inr got"
  show "advances w (snd ((case got of
       None \<Rightarrow> bindM (mark_raw self n) (\<lambda>_. ret Required)
     | Some data \<Rightarrow>
         let state = tx_state data in
         if state = ''VERIFIED'' then audit_verified H self n data
         else if state \<in> {''RECOVERED_UNAPPLIED'', ''ROLLED_BACK'', ''SUPERSEDED''} then ret Recovered
         else if state = ''RECOVERY_REQUIRED'' then ret Required
         else reconcile_one H self n data state) w))"
  proof (cases got)
    case None
    with r have none: "receipt_at n w = None"
      by (auto split: sum.splits dest: read_validated_Inl)
    have "advances w (snd (mark_raw self n w))"
      unfolding mark_raw_def
      by (intro journal.catchM_at journal.readM_at journal.ret_evolves)
        (auto split: json.split simp: journal.R_refl put_invalid_advances [OF none])
    with None show ?thesis by (auto intro!: journal.bindM_at simp: journal.R_refl)
  next
    case (Some d)
    with r have d: "receipt_at n w = Some d"
      by (auto split: sum.splits if_splits simp: read_validated_Inr)
    then have st: "dget d ''tx_state'' = JStr (tx_state d)" "tx_state d \<in> set KNOWN_STATES"
      using valid_receipt_state by (auto simp: receipt_at_Some)
    show ?thesis
      using audit_verified_advances [OF holds_receipt [OF d]]
        reconcile_one_advances [OF holds_receipt [OF d] st(1)] st Some
      by (auto simp: Let_def KNOWN_STATES_def journal.R_refl)
  qed
qed

section \<open>Restart recovery\<close>

lemma recover_one_advances:
  assumes "\<And>p. evolves advances (lock_for p)"
  shows "evolves advances (recover_one H self lock_for acc n)"
  unfolding recover_one_def
proof (rule journal.readM_evolves_at)
  fix got w
  assume r: "(case load_doc n w of
         Inl e \<Rightarrow> if is_a e OSError \<or> is_a e JSONDecodeError then Inr None else Inl e
       | Inr raw \<Rightarrow> Inr (Some raw)) = Inr got"
  have mark: "advances w (snd (bindM (catchM (put_receipt self n (set_state ''RECOVERY_REQUIRED'' d)) [OSError] (ret ()))
                  (\<lambda>_. ret x) w))"
    if "got = Some (JObj d)" and "validate_receipt (JObj d) = Inl e" for d e x
  proof -
    have "receipt_at n w = None"
      using r that by (auto simp: receipt_at_def valid_receipt_def split: sum.splits if_splits)
    then show ?thesis
      by (intro journal.bindM_at journal.catchM_at put_invalid_advances journal.combinators)
        (auto simp: journal.R_refl)
  qed
  have locked: "evolves advances (bindM (catchM (bindM (lock_for p) (\<lambda>_.
         bindM (decide_locked H self n) (\<lambda>out. ret (Some out)))) [LockTimeoutError] (ret None)) (\<lambda>d. ret (f d)))"
    for p and f :: "outcome option \<Rightarrow> scan"
    by (intro journal.combinators assms decide_locked_advances)
  show "advances w (snd ((case got of
       None \<Rightarrow> ret (add_required n acc)
     | Some raw \<Rightarrow>
       (case validate_receipt raw of
          Inl e \<Rightarrow>
            if \<not> is_a e RecoveryError then raise e
            else (case raw of
                JObj d \<Rightarrow> bindM (catchM (put_receipt self n (set_state ''RECOVERY_REQUIRED'' d)) [OSError] (ret ()))
                  (\<lambda>_. ret (add_required (case aget d ''receipt_id'' of None \<Rightarrow> n | Some v \<Rightarrow> py_str v) acc))
              | _ \<Rightarrow> ret (add_required n acc))
        | Inr data \<Rightarrow>
            let rid = sget data ''receipt_id'';
                acc = (if truthy (dget data ''backup_file'')
                       then acc\<lparr>seen_backups := base_name (sget data ''backup_file'') # seen_backups acc\<rparr>
                       else acc);
                state = tx_state data
            in if state \<in> {''RECOVERED_UNAPPLIED'', ''ROLLED_BACK'', ''SUPERSEDED''} then ret (add_recovered rid acc)
            else if state = ''RECOVERY_REQUIRED'' then ret (add_required rid acc)
            else bindM (readM (\<lambda>w. Inr (state = ''VERIFIED'' \<and>
                   dget data ''original_operation'' = JStr ''FS_WRITE'' \<and>
                   (\<not> truthy (dget data ''preimage_exists'') \<or> backup_ok H data w)))) (\<lambda>intact.
            if intact then ret (add_verified acc)
            else bindM (catchM (bindM (lock_for (sget data ''path'')) (\<lambda>_.
                          bindM (decide_locked H self n) (\<lambda>out. ret (Some out))))
                        [LockTimeoutError] (ret None)) (\<lambda>decision.
              ret (case decision of
                 None \<Rightarrow> add_deferred rid acc
               | Some Recovered \<Rightarrow> add_recovered rid acc
               | Some Verified \<Rightarrow> add_verified acc
               | Some Required \<Rightarrow> add_required rid acc))))) w))"
    by (cases got; simp only: option.case Let_def)
      (auto split: sum.split json.split simp: journal.R_refl bindM_readM mark
        intro: locked [THEN evolves_at])
qed

lemma recover_advances:
  assumes "\<And>p. evolves advances (lock_for p)"
  shows "evolves advances (recover H self lock_for)"
  unfolding recover_def
  by (intro journal.combinators recover_one_advances assms)

lemma reconcile_target_one_advances:
  "evolves advances (reconcile_target_one H self project_id target acc n)"
  unfolding reconcile_target_one_def
proof (rule journal.readM_evolves_at)
  fix got w
  assume r: "(case read_validated n w of Inr d \<Rightarrow> Inr (Some d)
       | Inl e \<Rightarrow> if is_a e OSError \<or> is_a e JSONDecodeError \<or> is_a e RecoveryError then Inr None else Inl e)
     = Inr got"
  have "advances w (snd (bindM (reconcile_one H self n d (tx_state d)) (\<lambda>out. ret (f out)) w))"
    if "got = Some d" "tx_state d \<in> set INCOMPLETE_STATES" for d and f :: "outcome \<Rightarrow> string list \<times> string list"
  proof -
    from r that have "receipt_at n w = Some d"
      by (auto simp: read_validated_Inr split: sum.splits if_splits)
    with that(2) show ?thesis
      by (intro journal.bindM_at reconcile_one_advances)
        (auto simp: holds_receipt receipt_at_Some INCOMPLETE_STATES_def valid_receipt_sget_state journal.R_refl)
  qed
  then show "advances w (snd ((case got of
         None \<Rightarrow> ret acc
       | Some data \<Rightarrow>
           if \<not> concerns project_id target data then ret acc
           else if tx_state data \<notin> set INCOMPLETE_STATES then
             ret (if tx_state data \<in> set BLOCKING_STATES
                  then (fst acc, snd acc @ [sget data ''receipt_id'']) else acc)
           else bindM (reconcile_one H self n data (tx_state data)) (\<lambda>out.
             ret (if out = Required then (fst acc, snd acc @ [sget data ''receipt_id''])
                  else (fst acc @ [sget data ''receipt_id''], snd acc)))) w))"
    by (auto split: option.split simp: journal.R_refl)
qed

lemma reconcile_target_advances: "evolves advances (reconcile_target H self project_id target)"
  unfolding reconcile_target_def
  by (intro journal.combinators reconcile_target_one_advances)

section \<open>Rollback\<close>

lemma conclude_Inr:
  assumes "conclude self n d st out w = (Inr o', w')"
  shows "o' = out \<and> disk w' = disk w \<and>
    (\<forall>m. load_doc m w' = (if m = n then Inr (JObj (set_state st d)) else load_doc m w))"
  using assms unfolding conclude_def by (auto elim!: bindM_InrE dest!: put_receipt_Inr)

lemma reconcile_prepared:
  assumes "reconcile_one H self n d ''PREPARED'' w = (Inr out, w')" and "out \<noteq> Required"
    and "dget d ''original_operation'' \<noteq> JStr ''ROLLBACK''"
  shows "load_doc n w' = Inr (JObj (set_state ''RECOVERED_UNAPPLIED'' d))"
  using assms unfolding reconcile_one_def
  by (cases "observe H (sget d ''path'') w")
    (auto simp: bindM_readM split: if_splits dest!: conclude_Inr)

lemma tx_reach_superseded: "tx_reach ''RECOVERED_UNAPPLIED'' ''SUPERSEDED''"
  using supersede by blast

lemma supersede_one_advances:
  "evolves advances (supersede_one H self project_id target current acc n)"
  unfolding supersede_one_def
proof (rule journal.readM_evolves_at)
  fix got w
  assume r: "(case read_validated n w of Inr d \<Rightarrow> Inr (Some d)
       | Inl e \<Rightarrow> if is_a e OSError \<or> is_a e JSONDecodeError \<or> is_a e RecoveryError then Inr None else Inl e)
     = Inr got"
  have rec: "receipt_at n w = Some d" if "got = Some d" for d
    using r that by (auto simp: read_validated_Inr split: sum.splits if_splits)
  have one: "advances w (snd (reconcile_one H self n d (tx_state d) w))"
    if "got = Some d" "tx_state d \<in> set INCOMPLETE_STATES" for d
    using rec [OF that(1)] that(2) by (intro reconcile_one_advances)
      (auto simp: holds_receipt receipt_at_Some INCOMPLETE_STATES_def valid_receipt_sget_state)
  have rb: "advances w (snd (bindM (reconcile_one H self n d (tx_state d)) (\<lambda>out.
             if out = Required then raise RecoveryRequiredError else ret acc) w))"
    if "got = Some d" "tx_state d \<in> set INCOMPLETE_STATES" for d
    by (intro journal.bindM_at one that) (auto simp: journal.R_refl)
  have prep: "advances w (snd (bindM (reconcile_one H self n d (tx_state d)) (\<lambda>out.
             if out = Required then raise RecoveryRequiredError
             else bindM (readM (read_validated n)) (\<lambda>d'.
                  bindM (put_receipt self n (set_state ''SUPERSEDED'' d')) (\<lambda>_.
                  ret (acc @ [sget d' ''receipt_id''])))) w))"
    if "got = Some d" "tx_state d = ''PREPARED''" "dget d ''original_operation'' \<noteq> JStr ''ROLLBACK''" for d
  proof (intro journal.bindM_at one that)
    show "tx_state d \<in> set INCOMPLETE_STATES" using that by (simp add: INCOMPLETE_STATES_def)
  next
    fix out w1
    assume 1: "reconcile_one H self n d (tx_state d) w = (Inr out, w1)"
    show "advances w1 (snd ((if out = Required then raise RecoveryRequiredError
             else bindM (readM (read_validated n)) (\<lambda>d'.
                  bindM (put_receipt self n (set_state ''SUPERSEDED'' d')) (\<lambda>_.
                  ret (acc @ [sget d' ''receipt_id''])))) w1))"
    proof (cases "out = Required")
      case False
      from reconcile_prepared [OF 1 [unfolded that(2)] False that(3)]
      have st: "receipt_at n w1 = Some d' \<Longrightarrow> tx_state d' = ''RECOVERED_UNAPPLIED''" for d'
        by (auto simp: receipt_at_Some)
      have "advances w1 (snd (put_receipt self n (set_state ''SUPERSEDED'' d') w1))"
        if "receipt_at n w1 = Some d'" for d'
        using that st [OF that] tx_reach_superseded
        by (intro put_state_advances) (auto simp: KNOWN_STATES_def)
      with False show ?thesis
        by (auto simp: read_validated_Inr journal.R_refl intro!: at_rules)
    qed (simp add: journal.R_refl)
  qed
  have app: "advances w (snd (put_receipt self n (set_state st d) w))"
    if "got = Some d" "tx_state d \<in> set INCOMPLETE_STATES" "st \<in> {''VERIFIED'', ''RECOVERY_REQUIRED''}" for d st
    using rec [OF that(1)] that(2,3) tx_reach_verified tx_reach_required
    by (intro put_state_advances) (auto simp: KNOWN_STATES_def INCOMPLETE_STATES_def)
  show "advances w (snd ((case got of
         None \<Rightarrow> ret acc
       | Some data \<Rightarrow>
           let state = tx_state data in
           if \<not> concerns project_id target data \<or> state \<notin> set INCOMPLETE_STATES then ret acc
           else if dget data ''original_operation'' = JStr ''ROLLBACK'' then
             bindM (reconcile_one H self n data state) (\<lambda>out.
             if out = Required then raise RecoveryRequiredError else ret acc)
           else if state = ''PREPARED'' then
             bindM (reconcile_one H self n data state) (\<lambda>out.
             if out = Required then raise RecoveryRequiredError
             else bindM (readM (read_validated n)) (\<lambda>data'.
                  bindM (put_receipt self n (set_state ''SUPERSEDED'' data')) (\<lambda>_.
                  ret (acc @ [sget data' ''receipt_id'']))))
           else if truthy (dget data ''postimage_sha256'') \<and> current = dget data ''postimage_sha256'' then
             bindM (put_receipt self n (set_state ''VERIFIED'' data)) (\<lambda>_. ret acc)
           else bindM (put_receipt self n (set_state ''RECOVERY_REQUIRED'' data)) (\<lambda>_.
                raise RecoveryRequiredError)) w))"
  proof (cases got)
    case None
    then show ?thesis by (simp add: journal.R_refl)
  next
    case (Some d)
    have wrap: "advances w (snd (bindM (put_receipt self n (set_state st d)) (\<lambda>_. m) w))"
      if "tx_state d \<in> set INCOMPLETE_STATES" "st \<in> {''VERIFIED'', ''RECOVERY_REQUIRED''}"
        "evolves advances m" for st m
      by (intro journal.bindM_at app Some that evolves_at [OF that(3)])
    have ver: "tx_state d \<in> set INCOMPLETE_STATES \<Longrightarrow> advances w (snd (bindM
        (put_receipt self n (set_state ''VERIFIED'' d)) (\<lambda>_. ret acc) w))"
      by (rule wrap) (auto intro: journal.ret_evolves)
    have req: "tx_state d \<in> set INCOMPLETE_STATES \<Longrightarrow> advances w (snd (bindM
        (put_receipt self n (set_state ''RECOVERY_REQUIRED'' d))
        (\<lambda>_. raise RecoveryRequiredError :: (world, string list) M) w))"
      by (rule wrap) (auto intro: journal.raise_evolves)
    show ?thesis
      using rb [OF Some] prep [OF Some] ver req Some
      by (simp add: Let_def journal.R_refl)
  qed
qed

lemma supersede_pending_advances: "evolves advances (supersede_pending H self project_id target)"
  unfolding supersede_pending_def
  by (intro journal.combinators supersede_one_advances)

text \<open>The rollback's own receipt: written fresh, then moved on by its terminal writes.\<close>

definition set_restored :: "json \<Rightarrow> dict \<Rightarrow> dict" where
  "set_restored v d = set_state ''APPLIED'' (aset ''restored_sha256'' v d)"

lemma valid_set_restored: "valid_receipt d \<Longrightarrow> valid_receipt (set_restored v d)"
  by (auto simp: valid_receipt_def validate_receipt_def set_restored_def set_state_def KNOWN_STATES_def
      split: if_splits)

lemma dget_set_restored [simp]:
  "dget (set_restored v d) k = (if k = ''tx_state'' then JStr ''APPLIED''
     else if k = ''restored_sha256'' then v else dget d k)"
  by (simp add: set_restored_def)

lemma moves_set_restored: "dget d ''tx_state'' = JStr ''PREPARED'' \<Longrightarrow> moves d (set_restored v d)"
  by (auto simp: moves_def KEPT_FIELDS_def sget_def intro: apply_tx)

lemma finish_rollback_advances:
  assumes "holds n rb w" and "dget rb ''tx_state'' = JStr ''PREPARED''"
  shows "advances w (snd (finish_rollback self n (set_restored v rb) src reply w))"
proof -
  have put: "advances w (snd (put_receipt self n (set_restored v rb) w))"
    using assms
    by (intro put_receipt_advances)
      (auto simp: holds_def receipt_at_Some intro: moves_set_restored valid_set_restored)
  show ?thesis
    unfolding finish_rollback_def
    by (intro journal.bindM_at put finalize_rollback_advances)
      (auto simp: failpoint_advances [THEN evolves_at] journal.R_refl
        dest!: failpoint_state intro: holds_put)
qed

lemma fail_rollback_advances:
  assumes "holds n rb w" and "dget rb ''tx_state'' = JStr ''PREPARED''"
  shows "advances w (snd (fail_rollback self n rb w))"
  unfolding fail_rollback_def using assms
  by (intro journal.bindM_at put_state_holds)
    (auto simp: KNOWN_STATES_def journal.R_refl intro: tx_reach_required)

lemma unlink_file_journal: "journal (snd (unlink_file p w)) = journal w"
  by (auto simp: unlink_file_def effect_def split: option.splits nat.splits)

lemma apply_rollback_advances:
  assumes "holds (json_name rb_id) rb w" and "dget rb ''tx_state'' = JStr ''PREPARED''"
  shows "advances w (snd (apply_rollback H self target rb_id cur receipt rb w))"
proof -
  let ?n = "json_name rb_id"
  have step: "advances w (snd (bindM m f w))"
    if "journal (snd (m w)) = journal w" and "\<And>x w1. holds ?n rb w1 \<Longrightarrow> advances w1 (snd (f x w1))"
    for f and m :: "(world, unit) M"
  proof (rule journal.bindM_at)
    show "advances w (snd (m w))" using that(1) by (rule advances_same)
    show "advances w1 (snd (f x w1))" if "m w = (Inr x, w1)" for x w1
      using that \<open>journal (snd (m w)) = journal w\<close> assms(1) holds_cong
      by (intro \<open>\<And>x w1. holds ?n rb w1 \<Longrightarrow> advances w1 (snd (f x w1))\<close>) (metis snd_conv)
  qed
  note fin = finish_rollback_advances [OF _ assms(2)] and fail = fail_rollback_advances [OF _ assms(2)]
  have wj: "journal (snd (write_bytes p b w)) = journal w" for p b
    using write_bytes_frames_journal by (simp add: evolves_def frames_def)
  show ?thesis
    unfolding apply_rollback_def Let_def set_restored_def [symmetric]
    by (simp only: bindM_readM sum.case split: if_split)
      (auto simp: bindM_readM journal.R_refl unlink_file_journal wj assms(1)
        split: sum.split intro!: step fin fail)
qed

lemma rollback_receipt_state: "dget (rollback_receipt i p t s c w) ''tx_state'' = JStr ''PREPARED''"
  by (simp add: rollback_receipt_def dget_def)

lemma rollback_advances: "evolves advances (rollback H self project_id target post)"
proof -
  have start: "advances w (snd (bindM (new_receipt_id self project_id ''rollback'') (\<lambda>rb_id.
         bindM (readM (\<lambda>w. Inr (rollback_receipt rb_id project_id target s c w))) (\<lambda>rb.
         bindM (put_receipt self (json_name rb_id) rb) (\<lambda>_.
         apply_rollback H self target rb_id c receipt rb))) w))" for w s c receipt
  proof (rule journal.bindM_at)
    show "advances w (snd (new_receipt_id self project_id ''rollback'' w))"
      by (rule evolves_at [OF new_receipt_id_advances])
  next
    fix rb_id w1
    assume "new_receipt_id self project_id ''rollback'' w = (Inr rb_id, w1)"
    then have "receipt_at (json_name rb_id) w1 = None"
      using new_receipt_id_fresh receipt_at_cong by metis
    then show "advances w1 (snd (bindM (readM (\<lambda>w. Inr (rollback_receipt rb_id project_id target s c w))) (\<lambda>rb.
         bindM (put_receipt self (json_name rb_id) rb) (\<lambda>_.
         apply_rollback H self target rb_id c receipt rb)) w1))"
      by (intro at_rules apply_rollback_advances put_invalid_advances)
        (auto intro: holds_put simp: rollback_receipt_state)
  qed
  then have start': "evolves advances (bindM (new_receipt_id self project_id ''rollback'') (\<lambda>rb_id.
         bindM (readM (\<lambda>w. Inr (rollback_receipt rb_id project_id target s c w))) (\<lambda>rb.
         bindM (put_receipt self (json_name rb_id) rb) (\<lambda>_.
         apply_rollback H self target rb_id c receipt rb))))" for s c receipt
    by (simp add: evolves_def)
  show ?thesis
    unfolding rollback_def
    by (intro start' journal.combinators supersede_pending_advances)
qed

section \<open>What the operations leave of the files\<close>

text \<open>Reconciliation moves receipts and nothing else: no target and no backup is touched.\<close>

lemmas disk_rules = frame.combinators put_receipt_frames_disk failpoint_frames

lemma conclude_frames_disk: "evolves (frames disk) (conclude self n d st out)"
  unfolding conclude_def by (intro disk_rules)

lemma finalize_rollback_frames_disk: "evolves (frames disk) (finalize_rollback self n d src)"
  unfolding finalize_rollback_def close_source_def by (intro disk_rules)

lemma reconcile_one_frames_disk: "evolves (frames disk) (reconcile_one H self n d s)"
  unfolding reconcile_one_def reconcile_rollback_def
  by (intro disk_rules conclude_frames_disk finalize_rollback_frames_disk)

lemma mark_raw_frames_disk: "evolves (frames disk) (mark_raw self n)"
  unfolding mark_raw_def
  by (intro frame.catchM_evolves frame.bindM_evolves frame.readM_evolves frame.ret_evolves)
    (auto split: json.split intro: put_receipt_frames_disk frame.ret_evolves)

lemma decide_locked_frames_disk: "evolves (frames disk) (decide_locked H self n)"
  unfolding decide_locked_def audit_verified_def
  by (intro disk_rules conclude_frames_disk finalize_rollback_frames_disk mark_raw_frames_disk
      reconcile_one_frames_disk)

lemma recover_one_frames_disk:
  assumes "\<And>p. evolves (frames disk) (lock_for p)"
  shows "evolves (frames disk) (recover_one H self lock_for acc n)"
proof -
  have json: "evolves (frames disk) (case raw of JObj d \<Rightarrow> f d | _ \<Rightarrow> g)"
    if "\<And>d. evolves (frames disk) (f d)" "evolves (frames disk) g"
    for raw f and g :: "(world, scan) M"
    using that by (cases raw) auto
  show ?thesis
    unfolding recover_one_def
    by (intro disk_rules json decide_locked_frames_disk assms)
qed

lemma recover_frames_disk:
  "(\<And>p. evolves (frames disk) (lock_for p)) \<Longrightarrow> evolves (frames disk) (recover H self lock_for)"
  unfolding recover_def by (intro disk_rules recover_one_frames_disk)

lemma reconcile_target_frames_disk: "evolves (frames disk) (reconcile_target H self project_id target)"
  unfolding reconcile_target_def reconcile_target_one_def
  by (intro disk_rules reconcile_one_frames_disk)

lemma note_target_replaced_frames_disk: "evolves (frames disk) (note_target_replaced self rid post)"
  unfolding note_target_replaced_def by (intro disk_rules)

lemma record_postimage_frames_disk: "evolves (frames disk) (record_postimage H self rid post)"
  unfolding record_postimage_def settle_postimage_def by (intro disk_rules)

lemma supersede_pending_frames_disk: "evolves (frames disk) (supersede_pending H self p t)"
  unfolding supersede_pending_def supersede_one_def by (intro disk_rules reconcile_one_frames_disk)

text \<open>A rollback touches the target only.\<close>

definition files_but :: "string \<Rightarrow> world \<Rightarrow> (string \<Rightarrow> node option)" where
  "files_but p w = (aget (disk w))(p := None)"

lemma frames_disk_but: "frames disk w w' \<Longrightarrow> frames (files_but p) w w'"
  by (simp add: frames_def files_but_def)

lemma evolves_disk_but: "evolves (frames disk) m \<Longrightarrow> evolves (frames (files_but p)) m"
  by (simp add: evolves_def frames_disk_but)

lemma write_bytes_but: "evolves (frames (files_but p)) (write_bytes p b)"
  unfolding write_bytes_def
  by (rule effect_evolves) (auto simp: frames_def files_but_def frame.evolution_axioms)

lemma unlink_file_but: "evolves (frames (files_but p)) (unlink_file p)"
  unfolding unlink_file_def evolves_def effect_def
  by (auto simp: frames_def files_but_def fun_eq_iff split: option.splits nat.splits)

lemma new_receipt_id_frames_disk: "evolves (frames disk) (new_receipt_id self p k)"
  by (simp add: evolves_def frames_def new_receipt_id_def draw_journal)

lemma finish_rollback_frames_disk: "evolves (frames disk) (finish_rollback self n rb s r)"
  unfolding finish_rollback_def by (intro disk_rules finalize_rollback_frames_disk)

lemma fail_rollback_frames_disk: "evolves (frames disk) (fail_rollback self n rb)"
  unfolding fail_rollback_def by (intro disk_rules)

lemma rollback_frame: "evolves (frames (files_but target)) (rollback H self project_id target post)"
  unfolding rollback_def apply_rollback_def
  by (intro frame.combinators write_bytes_but unlink_file_but evolves_disk_but
      supersede_pending_frames_disk finish_rollback_frames_disk fail_rollback_frames_disk
      new_receipt_id_frames_disk put_receipt_frames_disk)

text \<open>Saving a preimage adds a backup under a name that was free.\<close>

definition keeps_files :: "world \<Rightarrow> world \<Rightarrow> bool" where
  "keeps_files w w' \<longleftrightarrow> (\<forall>p v. aget (disk w) p = Some v \<longrightarrow> aget (disk w') p = Some v)"

interpretation files: evolution keeps_files
  by unfold_locales (auto simp: keeps_files_def)

lemma frames_keeps: "evolves (frames disk) m \<Longrightarrow> evolves keeps_files m"
  by (simp add: evolves_def frames_def keeps_files_def)

lemma save_backup_keeps:
  assumes "aget (disk w) (bak_path self rid) = None"
  shows "keeps_files w (snd (save_backup H self rid c w))"
proof -
  have wr: "keeps_files w (snd (write_bytes (bak_path self rid) b w))" for b
    using assms by (auto simp: write_bytes_def effect_def keeps_files_def split: option.split nat.split)
  have "evolves keeps_files (bindM (readM (sha256_file H (bak_path self rid))) (\<lambda>h.
      if h \<noteq> H b then raise RecoveryError else ret ()))" for b
    by (intro files.combinators)
  with wr show ?thesis
    unfolding save_backup_def
    by (auto split: option.split simp: files.R_refl intro!: files.bindM_at intro: evolves_at)
qed

lemma save_preimage_keeps: "evolves keeps_files (save_preimage H self project_id target content)"
proof -
  have rest: "evolves keeps_files (bindM (readM (find_superseded_id H project_id target content)) (\<lambda>prev.
     bindM (readM (\<lambda>w. Inr (prepared_receipt H self rid project_id target content prev w))) (\<lambda>receipt.
     bindM (put_receipt self (json_name rid) receipt) (\<lambda>_.
     bindM (failpoint self ''after_backup'') (\<lambda>_. ret receipt)))))" for rid
    by (rule frames_keeps) (intro disk_rules)
  have inner: "keeps_files w1 (snd (bindM (save_backup H self rid content) (\<lambda>_.
     bindM (readM (find_superseded_id H project_id target content)) (\<lambda>prev.
     bindM (readM (\<lambda>w. Inr (prepared_receipt H self rid project_id target content prev w))) (\<lambda>receipt.
     bindM (put_receipt self (json_name rid) receipt) (\<lambda>_.
     bindM (failpoint self ''after_backup'') (\<lambda>_. ret receipt))))) w1))"
    if "new_receipt_id self project_id ''recovery'' w = (Inr rid, w1)" for w w1 rid
    using new_receipt_id_fresh [OF that]
    by (intro files.bindM_at [OF save_backup_keeps] evolves_at [OF rest]) simp
  show ?thesis
    unfolding evolves_def save_preimage_def
    by (rule allI, rule files.bindM_at)
      (simp_all add: inner frames_keeps [OF new_receipt_id_frames_disk, THEN evolves_at])
qed

end
