(* ===== verification/Recovery.thy ===== *)
theory Recovery
  imports Store_Laws
begin

text \<open>
  The properties of the recovery store: what any sequence of its operations leaves of a receipt,
  what a saved preimage is worth, what reconciliation concludes and from what evidence, which
  receipt a rollback picks and what it restores, and what retention may delete.
\<close>

section \<open>Sequences of operations\<close>

datatype store_op =
    SavePreimage string string "bytes option"
  | NoteReplaced string string
  | RecordPostimage string string
  | Recover
  | ReconcileTarget string string
  | Rollback string string string

definition as_unit :: "(world, 'a) M \<Rightarrow> (world, unit) M" where
  "as_unit m = bindM m (\<lambda>_. ret ())"

fun store_step :: "hash \<Rightarrow> recovery_store \<Rightarrow> store_op \<Rightarrow> (world, unit) M" where
  "store_step H self (SavePreimage p t c) = as_unit (save_preimage H self p t c)"
| "store_step H self (NoteReplaced r h) = note_target_replaced self r h"
| "store_step H self (RecordPostimage r h) = record_postimage H self r h"
| "store_step H self Recover = as_unit (recover H self (\<lambda>_. ret ()))"
| "store_step H self (ReconcileTarget p t) = as_unit (reconcile_target H self p t)"
| "store_step H self (Rollback p t h) = as_unit (rollback H self p t h)"

lemma store_step_advances: "evolves advances (store_step H self c)"
  by (cases c)
    (auto simp: as_unit_def intro!: journal.bindM_evolves journal.ret_evolves save_preimage_advances
      note_target_replaced_advances record_postimage_advances recover_advances
      reconcile_target_advances rollback_advances)

lemma run_advances: "advances w (snd (run_all (store_step H self) w ops))"
  by (rule run_all_evolves [OF journal.evolution_axioms store_step_advances])

definition example_receipt :: "string \<Rightarrow> dict" where
  "example_receipt st =
     [(''receipt_id'', JStr ''recovery-p-0''), (''project_id'', JStr ''p''), (''path'', JStr ''/p/a''),
      (''original_operation'', JStr ''FS_WRITE''), (''preimage_exists'', JBool False),
      (''postimage_sha256'', JNull), (''tx_state'', JStr st)]"

definition example_world :: "string \<Rightarrow> world" where
  "example_world st =
     \<lparr>disk = [(''/p/a'', Reg ''x'')],
      journal = [(''recovery-p-0.json'', \<lparr>jdoc = Doc (JObj (example_receipt st)), jmtime = 0\<rparr>)],
      denied = [], now = 100, now_ns = 100, stamp = ''t'', draws = nat_digits, drawn = 1,
      budget = None\<rparr>"

definition example_store :: recovery_store where
  "example_store = \<lparr>root_dir = ''/s'', failure_points = []\<rparr>"

lemma example_receipt_at:
  "st \<in> set KNOWN_STATES \<Longrightarrow>
   receipt_at ''recovery-p-0.json'' (example_world st) = Some (example_receipt st)"
  by (auto simp: receipt_at_def load_doc_def example_world_def valid_receipt_def validate_receipt_def
      example_receipt_def KNOWN_STATES_def dget_def nonempty_str_def)



text \<open>A transaction that was settled is never reopened: after any further operations its
  receipt is in no incomplete state, and a receipt that needs an operator's decision still says
  so unless a rollback of that very receipt has completed.\<close>

theorem settled_never_reopens:
  assumes "receipt_at n w = Some d" and "tx_state d \<notin> set INCOMPLETE_STATES"
    and "receipt_at n (snd (run_all (store_step H self) w ops)) = Some d'"
  shows "tx_state d' \<notin> set INCOMPLETE_STATES \<and>
    (tx_state d = ''RECOVERY_REQUIRED'' \<longrightarrow> tx_state d' \<in> {''RECOVERY_REQUIRED'', ''ROLLED_BACK''})"
proof -
  have "tx_reach (tx_state d) (tx_state d')"
    using assms(1,3) run_advances [of w H self ops] by (fastforce simp: advances_def moves_def)
  with assms(2) show ?thesis
    using tx_reach_incomplete tx_reach_from_required by fastforce
qed

theorem settled_never_reopens_witness:
  "tx_state (example_receipt ''RECOVERY_REQUIRED'') \<notin> set INCOMPLETE_STATES \<and>
   tx_state (example_receipt ''RECOVERY_REQUIRED'') \<in> {''RECOVERY_REQUIRED'', ''ROLLED_BACK''}"
proof -
  let ?r = "example_receipt ''RECOVERY_REQUIRED''" and ?w = "example_world ''RECOVERY_REQUIRED''"
  have 1: "receipt_at ''recovery-p-0.json'' ?w = Some ?r"
    by (rule example_receipt_at) (simp add: KNOWN_STATES_def)
  have 2: "tx_state ?r \<notin> set INCOMPLETE_STATES" "tx_state ?r = ''RECOVERY_REQUIRED''" by code_simp+
  have 3: "receipt_at ''recovery-p-0.json'' (snd (run_all (store_step id example_store) ?w
        [Recover, ReconcileTarget ''p'' ''/p/a''])) = Some ?r"
    by code_simp
  from settled_never_reopens [OF 1 2(1) 3] 2(2) show ?thesis by blast
qed

section \<open>A saved preimage\<close>

lemma save_backup_Inr:
  assumes "save_backup H self rid c w = (Inr u, w')"
  shows "journal w' = journal w \<and> (\<forall>b. c = Some b \<longrightarrow>
     int (length b) \<le> MAX_BACKUP_BYTES \<and> aget (disk w') (bak_path self rid) = Some (Reg b))"
proof (cases c)
  case None
  with assms show ?thesis by (simp add: save_backup_def)
next
  case (Some b)
  with assms show ?thesis
    by (auto simp: save_backup_def bindM_readM sha256_file_def split: if_splits sum.splits
        elim!: bindM_InrE dest!: write_bytes_Inr)
qed

lemma prepared_valid:
  assumes "rid \<noteq> ''''" "p \<noteq> ''''" "t \<noteq> ''''"
  shows "valid_receipt (prepared_receipt H self rid p t c prev w)"
  using assms by (auto simp: valid_receipt_def validate_receipt_def prepared_receipt_def dget_def
      nonempty_str_def KNOWN_STATES_def)

lemma draw_kind: "draw_receipt_id self p k n w = (Inr rid, w') \<Longrightarrow> \<exists>d. rid = k @ ''-'' @ p @ ''-'' @ d"
  by (induction n arbitrary: w) (auto simp: Let_def split: if_splits)

lemma prepared_dget [simp]:
  "dget (prepared_receipt H self rid p t c prev w) ''receipt_id'' = JStr rid"
  "dget (prepared_receipt H self rid p t c prev w) ''project_id'' = JStr p"
  "dget (prepared_receipt H self rid p t c prev w) ''path'' = JStr t"
  "dget (prepared_receipt H self rid p t c prev w) ''original_operation'' = JStr ''FS_WRITE''"
  "dget (prepared_receipt H self rid p t c prev w) ''preimage_exists'' = JBool (c \<noteq> None)"
  "dget (prepared_receipt H self rid p t c prev w) ''preimage_sha256'' = opt_str (map_option H c)"
  "dget (prepared_receipt H self rid p t c prev w) ''postimage_sha256'' = JNull"
  "dget (prepared_receipt H self rid p t c prev w) ''backup_file'' =
     opt_str (map_option (\<lambda>_. bak_path self rid) c)"
  "dget (prepared_receipt H self rid p t c prev w) ''tx_state'' = JStr ''PREPARED''"
  by (simp_all add: prepared_receipt_def dget_def)

lemma save_preimage_Inr:
  assumes "save_preimage H self p t c w = (Inr r, w')"
  obtains rid w1 w2 w3 prev where
    "new_receipt_id self p ''recovery'' w = (Inr rid, w1)"
    "save_backup H self rid c w1 = (Inr (), w2)"
    "find_superseded_id H p t c w2 = Inr prev"
    "r = prepared_receipt H self rid p t c prev w2"
    "put_receipt self (json_name rid) r w2 = (Inr (), w')"
  using assms unfolding save_preimage_def
  by (auto elim!: bindM_InrE simp: failpoint_def split: if_splits)

text \<open>A world where nothing fails, and a store without injected failures.\<close>

definition calm :: "recovery_store \<Rightarrow> world \<Rightarrow> bool" where
  "calm self w \<longleftrightarrow> budget w = None \<and> denied w = [] \<and> failure_points self = []"

definition first_id :: "string \<Rightarrow> string \<Rightarrow> world \<Rightarrow> string" where
  "first_id k p w = k @ ''-'' @ p @ ''-'' @ draws w (drawn w)"

lemma new_receipt_id_first:
  assumes "aget (journal w) (json_name (first_id k p w)) = None"
    and "aget (disk w) (bak_path self (first_id k p w)) = None"
  shows "new_receipt_id self p k w = (Inr (first_id k p w), w\<lparr>drawn := Suc (drawn w)\<rparr>)"
proof -
  have "(100::nat) = Suc 99" by simp
  with assms show ?thesis
    unfolding new_receipt_id_def
    by (simp only: draw_receipt_id.simps) (simp add: first_id_def Let_def path_exists_def)
qed

lemma put_receipt_calm:
  "calm self w \<Longrightarrow> put_receipt self n d w =
     (Inr (), w\<lparr>journal := aset n \<lparr>jdoc = Doc (JObj d), jmtime = now w\<rparr> (journal w)\<rparr>)"
  by (simp add: put_receipt_def write_doc_ok calm_def)

lemma write_bytes_calm:
  "calm self w \<Longrightarrow> aget (disk w) p \<noteq> Some Dir \<Longrightarrow>
     write_bytes p b w = (Inr (), w\<lparr>disk := aset p (Reg b) (disk w)\<rparr>)"
  by (simp add: calm_def write_bytes_ok write_refused_def is_dir_def)

lemma failpoint_calm: "calm self w \<Longrightarrow> failpoint self p = ret ()"
  by (simp add: failpoint_def calm_def)

lemma calm_update [simp]:
  "calm self (w\<lparr>disk := a\<rparr>) = calm self w" "calm self (w\<lparr>journal := b\<rparr>) = calm self w"
  "calm self (w\<lparr>drawn := c\<rparr>) = calm self w"
  by (simp_all add: calm_def)

definition with_backup :: "recovery_store \<Rightarrow> string \<Rightarrow> bytes option \<Rightarrow> world \<Rightarrow> world" where
  "with_backup self rid c w = (case c of None \<Rightarrow> w
     | Some b \<Rightarrow> w\<lparr>disk := aset (bak_path self rid) (Reg b) (disk w)\<rparr>)"

lemma save_backup_calm:
  assumes "calm self w" and "aget (disk w) (bak_path self rid) = None"
    and "\<And>b. c = Some b \<Longrightarrow> int (length b) \<le> MAX_BACKUP_BYTES"
  shows "save_backup H self rid c w = (Inr (), with_backup self rid c w)"
proof (cases c)
  case (Some b)
  with assms(3) have "\<not> MAX_BACKUP_BYTES < int (length b)" by (simp add: not_less)
  with Some assms show ?thesis
    by (simp add: save_backup_def with_backup_def write_bytes_calm [OF assms(1)]
        bindM_app sha256_file_def read_bytes_def)
qed (simp add: save_backup_def with_backup_def)

lemma calm_with_backup [simp]: "calm self (with_backup s rid c w) = calm self w"
  by (simp add: with_backup_def split: option.split)

lemma save_preimage_calm:
  assumes "calm self w" and "rid = first_id ''recovery'' p w"
    and "aget (journal w) (json_name rid) = None" and "aget (disk w) (bak_path self rid) = None"
    and "\<And>b. c = Some b \<Longrightarrow> int (length b) \<le> MAX_BACKUP_BYTES"
    and "w2 = with_backup self rid c (w\<lparr>drawn := Suc (drawn w)\<rparr>)"
    and "find_superseded_id H p t c w2 = Inr prev"
    and "r = prepared_receipt H self rid p t c prev w2"
  shows "save_preimage H self p t c w =
     (Inr r, w2\<lparr>journal := aset (json_name rid) \<lparr>jdoc = Doc (JObj r), jmtime = now w2\<rparr> (journal w2)\<rparr>)"
proof -
  have new: "new_receipt_id self p ''recovery'' w = (Inr rid, w\<lparr>drawn := Suc (drawn w)\<rparr>)"
    using new_receipt_id_first assms(2,3,4) by simp
  have bak: "save_backup H self rid c (w\<lparr>drawn := Suc (drawn w)\<rparr>) = (Inr (), w2)"
    unfolding assms(6) using assms(1,4,5) by (intro save_backup_calm) auto
  have c2: "calm self w2" using assms(1,6) by simp
  show ?thesis
    using assms(7,8)
    by (simp add: save_preimage_def new bak bindM_app put_receipt_calm [OF c2] failpoint_calm [OF c2])
qed

lemma save_preimage_saved:
  assumes "save_preimage H self p t c w = (Inr r, w')" and "p \<noteq> ''''" and "t \<noteq> ''''"
  shows "receipt_at (json_name (sget r ''receipt_id'')) w = None \<and>
    receipt_at (json_name (sget r ''receipt_id'')) w' = Some r \<and> concerns p t r \<and>
    tx_state r = ''PREPARED'' \<and> dget r ''preimage_exists'' = JBool (c \<noteq> None) \<and>
    (\<forall>b. c = Some b \<longrightarrow> dget r ''preimage_sha256'' = JStr (H b) \<and>
        \<not> path_exists (sget r ''backup_file'') w \<and> read_bytes (sget r ''backup_file'') w' = Inr b) \<and>
    keeps_files w w'"
proof -
  from assms(1) obtain rid w1 w2 prev where
    new: "new_receipt_id self p ''recovery'' w = (Inr rid, w1)" and
    bak: "save_backup H self rid c w1 = (Inr (), w2)" and
    r: "r = prepared_receipt H self rid p t c prev w2" and
    put: "put_receipt self (json_name rid) r w2 = (Inr (), w')"
    by (rule save_preimage_Inr)
  have rid: "sget r ''receipt_id'' = rid" by (simp add: r sget_def)
  from new have "rid \<noteq> ''''" unfolding new_receipt_id_def by (auto dest: draw_kind)
  then have v: "valid_receipt r" unfolding r using assms(2,3) by (intro prepared_valid)
  have "disk w' = disk w2" using put_receipt_Inr [OF put] by simp
  moreover have "keeps_files w w'" using evolvesD [OF save_preimage_keeps assms(1)] .
  moreover note new_receipt_id_fresh [OF new] save_backup_Inr [OF bak] put_receipt_at [OF put v]
  ultimately show ?thesis
    by (auto simp: rid r concerns_def sget_def opt_str_def path_exists_def read_bytes_Inr)
qed

text \<open>When a preimage was saved, a fresh receipt of the write is in the journal in state
  PREPARED, the backup holds the preimage byte for byte under a name nothing used before, the
  recorded hash is the backup's, and no file that existed was changed: the backup is durable
  before the target is touched.\<close>

theorem preimage_saved_first:
  assumes "save_preimage H self p t c w = (Inr r, w')" and "p \<noteq> ''''" and "t \<noteq> ''''"
  shows "receipt_at (json_name (sget r ''receipt_id'')) w = None \<and>
    receipt_at (json_name (sget r ''receipt_id'')) w' = Some r \<and> concerns p t r \<and>
    tx_state r = ''PREPARED'' \<and> dget r ''preimage_exists'' = JBool (c \<noteq> None) \<and>
    (\<forall>b. c = Some b \<longrightarrow> dget r ''preimage_sha256'' = JStr (H b) \<and>
        \<not> path_exists (sget r ''backup_file'') w \<and> read_bytes (sget r ''backup_file'') w' = Inr b) \<and>
    keeps_files w w'"
  by (rule save_preimage_saved [OF assms])

theorem preimage_saved_first_witness:
  "\<exists>r w'. save_preimage id example_store ''p'' ''/p/a'' (Some ''x'') (example_world ''VERIFIED'') = (Inr r, w') \<and>
      receipt_at (json_name (sget r ''receipt_id'')) w' = Some r \<and>
      read_bytes (sget r ''backup_file'') w' = Inr ''x''"
proof -
  let ?w = "example_world ''VERIFIED''"
  have id1: "first_id ''recovery'' ''p'' ?w = ''recovery-p-1''" by code_simp
  have "find_superseded_id id ''p'' ''/p/a'' (Some ''x'') (with_backup example_store ''recovery-p-1'' (Some ''x'')
      (?w\<lparr>drawn := Suc (drawn ?w)\<rparr>)) = Inr None"
    by code_simp
  from save_preimage_calm [OF _ id1 [symmetric] _ _ _ refl this refl]
  obtain r w' where 1: "save_preimage id example_store ''p'' ''/p/a'' (Some ''x'') ?w = (Inr r, w')"
    by (auto simp: example_world_def example_store_def calm_def json_name_def bak_path_def MAX_BACKUP_BYTES_def)
  from preimage_saved_first [OF 1] 1 show ?thesis by auto
qed

section \<open>What reconciliation concludes\<close>

text \<open>The evidence that a write was not applied, and that it was.\<close>

definition bytes_hash_to :: "hash \<Rightarrow> string \<Rightarrow> json \<Rightarrow> world \<Rightarrow> bool" where
  "bytes_hash_to H p v w = (case read_bytes p w of Inr b \<Rightarrow> v = JStr (H b) | Inl _ \<Rightarrow> False)"

definition unapplied_evidence :: "hash \<Rightarrow> dict \<Rightarrow> world \<Rightarrow> bool" where
  "unapplied_evidence H d w =
     (if truthy (dget d ''preimage_exists'')
      then backup_ok H d w \<and> bytes_hash_to H (sget d ''path'') (dget d ''preimage_sha256'') w
      else \<not> is_file (sget d ''path'') w)"

definition applied_evidence :: "hash \<Rightarrow> dict \<Rightarrow> world \<Rightarrow> bool" where
  "applied_evidence H d w \<longleftrightarrow>
     backup_ok H d w \<and> truthy (dget d ''postimage_sha256'') \<and>
     bytes_hash_to H (sget d ''path'') (dget d ''postimage_sha256'') w"

definition verdict :: "hash \<Rightarrow> dict \<Rightarrow> world \<Rightarrow> outcome \<times> string" where
  "verdict H d w =
     (if tx_state d = ''PREPARED'' \<and> unapplied_evidence H d w then (Recovered, ''RECOVERED_UNAPPLIED'')
      else if tx_state d = ''APPLIED'' \<and> applied_evidence H d w then (Verified, ''VERIFIED'')
      else (Required, ''RECOVERY_REQUIRED''))"

lemma observe_cases:
  "observe H p w = Inr (JStr h) \<and> (\<exists>b. read_bytes p w = Inr b \<and> h = H b) \<or>
   observe H p w = Inr JNull \<and> \<not> is_file p w \<and> (\<forall>b. read_bytes p w \<noteq> Inr b) \<or>
   (\<exists>e. observe H p w = Inl e) \<and> is_file p w \<and> (\<forall>b. read_bytes p w \<noteq> Inr b)"
  if "h = (case read_bytes p w of Inr b \<Rightarrow> H b | Inl _ \<Rightarrow> '''')"
  using that
  by (auto simp: observe_def sha256_file_def is_file_def read_bytes_def split: option.splits node.splits)

lemma conclude_calm:
  "calm self w \<Longrightarrow> conclude self n d st out w =
     (Inr out, w\<lparr>journal := aset n \<lparr>jdoc = Doc (JObj (set_state st d)), jmtime = now w\<rparr> (journal w)\<rparr>)"
  by (simp add: conclude_def bindM_app put_receipt_calm)

lemma backup_ok_preimage: "backup_ok H d w \<Longrightarrow> truthy (dget d ''preimage_exists'') \<Longrightarrow> dget d ''preimage_sha256'' \<noteq> JNull"
  by (auto simp: backup_ok_def split: if_splits)

lemma backup_ok_absent: "\<not> truthy (dget d ''preimage_exists'') \<Longrightarrow> backup_ok H d w"
  by (simp add: backup_ok_def)

lemma reconcile_one_verdict:
  assumes "tx_state d \<in> set INCOMPLETE_STATES" and "dget d ''original_operation'' = JStr ''FS_WRITE''"
  shows "reconcile_one H self n d (tx_state d) w =
    (case verdict H d w of (out, st) \<Rightarrow> conclude self n d st out w)"
proof -
  consider (bytes) b where "observe H (sget d ''path'') w = Inr (JStr (H b))" "read_bytes (sget d ''path'') w = Inr b"
    | (absent) "observe H (sget d ''path'') w = Inr JNull" "\<not> is_file (sget d ''path'') w"
        "\<And>b. read_bytes (sget d ''path'') w \<noteq> Inr b"
    | (fault) e where "observe H (sget d ''path'') w = Inl e" "is_file (sget d ''path'') w"
        "\<And>b. read_bytes (sget d ''path'') w \<noteq> Inr b"
    using observe_cases [OF refl, of H "sget d ''path''" w] by auto
  then show ?thesis
  proof cases
    case bytes
    then have "is_file (sget d ''path'') w" by (simp add: read_bytes_Inr is_file_def)
    with bytes assms show ?thesis
      by (auto simp: reconcile_one_def bindM_readM verdict_def unapplied_evidence_def applied_evidence_def
          bytes_hash_to_def INCOMPLETE_STATES_def backup_ok_absent split: sum.splits)
  next
    case absent
    with assms show ?thesis
      by (auto simp: reconcile_one_def bindM_readM verdict_def unapplied_evidence_def applied_evidence_def
          bytes_hash_to_def INCOMPLETE_STATES_def split: sum.splits dest: backup_ok_preimage)
  next
    case fault
    with assms show ?thesis
      by (auto simp: reconcile_one_def bindM_readM verdict_def unapplied_evidence_def applied_evidence_def
          bytes_hash_to_def INCOMPLETE_STATES_def split: sum.splits)
  qed
qed

text \<open>C25. Reconciling an interrupted write concludes from evidence on disk only: it is
  recovered as unapplied exactly when its backup is intact and the target still has the bytes of
  the preimage (or is still absent, for a create), verified exactly when the backup is intact and
  the target has the recorded postimage, and otherwise is handed to the operator. The verdict is
  what the receipt records; no file is touched.\<close>

theorem reconcile_from_evidence:
  assumes "tx_state d \<in> set INCOMPLETE_STATES" and "dget d ''original_operation'' = JStr ''FS_WRITE''"
    and "reconcile_one H self n d (tx_state d) w = (Inr out, w')"
  shows "out = fst (verdict H d w) \<and> disk w' = disk w \<and>
    load_doc n w' = Inr (JObj (set_state (snd (verdict H d w)) d))"
  using assms(3) unfolding reconcile_one_verdict [OF assms(1,2)]
  by (auto split: prod.splits dest: conclude_Inr)

theorem reconcile_from_evidence_witness:
  "let w = example_world ''PREPARED''; d = example_receipt ''PREPARED'' in
   fst (verdict id d w) = Required \<and>
   load_doc ''recovery-p-0.json'' (snd (reconcile_one id example_store ''recovery-p-0.json'' d ''PREPARED'' w)) =
     Inr (JObj (example_receipt ''RECOVERY_REQUIRED''))"
proof -
  let ?w = "example_world ''PREPARED''" and ?d = "example_receipt ''PREPARED''"
  have st: "tx_state ?d = ''PREPARED''" by code_simp
  have v: "verdict id ?d ?w = (Required, ''RECOVERY_REQUIRED'')" by code_simp
  have s: "set_state ''RECOVERY_REQUIRED'' ?d = example_receipt ''RECOVERY_REQUIRED''" by code_simp
  have "calm example_store ?w" by (simp add: calm_def example_store_def example_world_def)
  moreover have "tx_state ?d \<in> set INCOMPLETE_STATES" "dget ?d ''original_operation'' = JStr ''FS_WRITE''"
    by code_simp+
  moreover obtain out w' where "reconcile_one id example_store ''recovery-p-0.json'' ?d (tx_state ?d) ?w = (Inr out, w')"
    using reconcile_one_verdict [OF calculation(2,3)] v conclude_calm [OF calculation(1)] by simp
  ultimately show ?thesis
    using reconcile_from_evidence [of ?d id example_store "''recovery-p-0.json''" ?w out w'] v s st
    by simp
qed

section \<open>Restart recovery settles the journal\<close>

definition decodable :: "world \<Rightarrow> bool" where
  "decodable w \<longleftrightarrow> (\<forall>n f. aget (journal w) n = Some f \<longrightarrow> jdoc f \<noteq> NotUtf8 \<and>
     (\<forall>d. jdoc f = Doc (JObj d) \<longrightarrow> hashable (dget d ''tx_state'')))"

definition good :: "recovery_store \<Rightarrow> world \<Rightarrow> bool" where
  "good self w \<longleftrightarrow> calm self w \<and> decodable w"

text \<open>A computation that returns in every good world and leaves a good one.\<close>

definition runs :: "recovery_store \<Rightarrow> (world, 'a) M \<Rightarrow> bool" where
  "runs self m \<longleftrightarrow> (\<forall>w. good self w \<longrightarrow> (\<exists>x w'. m w = (Inr x, w') \<and> good self w'))"

lemma runs_ret: "runs self (ret x)"
  by (simp add: runs_def)

lemma runs_bind: "runs self m \<Longrightarrow> (\<And>x. runs self (f x)) \<Longrightarrow> runs self (bindM m f)"
  unfolding runs_def by (fastforce simp: bindM_app)

lemma runs_read: "(\<And>w. good self w \<Longrightarrow> \<exists>x. f w = Inr x) \<Longrightarrow> runs self (readM f)"
  unfolding runs_def by auto

lemma runs_catch: "runs self m \<Longrightarrow> runs self (catchM m cs h)"
  unfolding runs_def by (fastforce simp: catchM_def)

lemma runs_if: "runs self m \<Longrightarrow> runs self n \<Longrightarrow> runs self (if c then m else n)"
  by simp

lemma runs_option: "runs self m \<Longrightarrow> (\<And>x. runs self (f x)) \<Longrightarrow>
    runs self (case v of None \<Rightarrow> m | Some x \<Rightarrow> f x)"
  by (cases v) auto

lemma runs_sum: "(\<And>e. runs self (f e)) \<Longrightarrow> (\<And>x. runs self (g x)) \<Longrightarrow>
    runs self (case v of Inl e \<Rightarrow> f e | Inr x \<Rightarrow> g x)"
  by (cases v) auto

lemma decodable_put:
  "decodable w \<Longrightarrow> hashable (dget d ''tx_state'') \<Longrightarrow>
   decodable (w\<lparr>journal := aset n \<lparr>jdoc = Doc (JObj d), jmtime = t\<rparr> (journal w)\<rparr>)"
  by (auto simp: decodable_def)

lemma hashable_JStr [simp]: "hashable (JStr s)"
  by simp

lemma runs_put: "hashable (dget d ''tx_state'') \<Longrightarrow> runs self (put_receipt self n d)"
  unfolding runs_def good_def by (auto simp: put_receipt_calm decodable_put)

lemma runs_set_state: "runs self (put_receipt self n (set_state st d))"
  by (rule runs_put) simp

lemmas runs_rules = runs_ret runs_bind runs_catch runs_if runs_option runs_sum runs_set_state

lemma good_load_doc:
  assumes "good self w"
  shows "load_doc n w = Inl e \<Longrightarrow> is_a e OSError \<or> is_a e JSONDecodeError"
    and "load_doc n w = Inr (JObj d) \<Longrightarrow> hashable (dget d ''tx_state'')"
proof -
  have sub: "is_a FileNotFoundError OSError" by (simp add: is_a_def)
  show "load_doc n w = Inl e \<Longrightarrow> is_a e OSError \<or> is_a e JSONDecodeError"
    and "load_doc n w = Inr (JObj d) \<Longrightarrow> hashable (dget d ''tx_state'')"
    using assms sub
    by (auto simp: good_def decodable_def load_doc_def split: option.splits rdoc.splits)
qed

lemma validate_Inl:
  "validate_receipt j = Inl e \<Longrightarrow> (\<And>d. j = JObj d \<Longrightarrow> hashable (dget d ''tx_state'')) \<Longrightarrow> e = RecoveryError"
  by (auto simp: validate_receipt_def split: json.splits if_splits)

lemma good_read_Inl: "good self w \<Longrightarrow> read_validated n w = Inl e \<Longrightarrow> e = RecoveryError"
  by (auto simp: read_validated_def split: sum.splits if_splits
      dest: good_load_doc validate_Inl)

lemma good_load_Inl:
  assumes "good self w" and "load_validated n w = Inl e"
  shows "is_a e OSError \<or> is_a e JSONDecodeError \<or> is_a e RecoveryError"
proof (cases "load_doc n w")
  case (Inl e')
  with assms good_load_doc(1) show ?thesis by (auto simp: load_validated_def)
next
  case (Inr j)
  with assms have "e = RecoveryError"
    by (auto simp: load_validated_def intro: validate_Inl good_load_doc(2))
  then show ?thesis by simp
qed

lemma runs_conclude: "runs self (conclude self n d st out)"
  unfolding conclude_def by (intro runs_rules)

lemma runs_finalize_rollback: "runs self (finalize_rollback self n d src)"
  unfolding finalize_rollback_def close_source_def
  by (intro runs_rules runs_read) (auto dest: good_load_Inl split: sum.split)

lemma runs_reconcile_one: "runs self (reconcile_one H self n d st)"
  unfolding reconcile_one_def reconcile_rollback_def Let_def
  by (intro runs_rules runs_conclude runs_finalize_rollback runs_read) auto

lemma runs_mark_raw: "good self w \<Longrightarrow> \<exists>w'. mark_raw self n w = (Inr (), w') \<and> good self w'"
proof -
  assume g: "good self w"
  show ?thesis
  proof (cases "load_doc n w")
    case (Inl e)
    with g have "is_a e OSError \<or> is_a e JSONDecodeError" by (rule good_load_doc(1))
    with Inl g show ?thesis by (auto simp: mark_raw_def catchM_def bindM_app)
  next
    case (Inr j)
    show ?thesis
    proof (cases j)
      case (JObj d)
      from g runs_set_state obtain w' where
        "put_receipt self n (set_state ''RECOVERY_REQUIRED'' d) w = (Inr (), w')" "good self w'"
        unfolding runs_def by (metis old.unit.exhaust)
      with Inr JObj show ?thesis by (simp add: mark_raw_def catchM_def bindM_app)
    qed (use Inr g in \<open>simp_all add: mark_raw_def catchM_def bindM_app\<close>)
  qed
qed

lemma runs_decide_locked: "runs self (decide_locked H self n)"
proof -
  have a: "runs self (audit_verified H self n d)" for d
    unfolding audit_verified_def
    by (intro runs_rules runs_conclude runs_finalize_rollback runs_read) auto
  have m: "runs self (mark_raw self n)"
    using runs_mark_raw by (fastforce simp: runs_def)
  show ?thesis
    unfolding decide_locked_def Let_def
    by (intro runs_rules a m runs_reconcile_one runs_read) (auto dest: good_read_Inl split: sum.split)
qed

definition settled :: "string \<Rightarrow> world \<Rightarrow> bool" where
  "settled n w \<longleftrightarrow> (\<forall>d. receipt_at n w = Some d \<longrightarrow> tx_state d \<notin> set INCOMPLETE_STATES)"

text \<open>Reconciliation writes settled states only, so it never unsettles a receipt.\<close>

lemma settled_put:
  assumes "st \<notin> set INCOMPLETE_STATES" and "put_receipt self m (set_state st d) w = (Inr x, w')"
  shows "settled m w'" and "settled n w \<Longrightarrow> settled n w'"
  using put_receipt_Inr [OF assms(2)] assms(1) by (auto simp: settled_def receipt_at_Some)

lemma put_carries_settled:
  assumes "st \<notin> set INCOMPLETE_STATES"
  shows "evolves (carries (settled n)) (put_receipt self m (set_state st d))"
  unfolding evolves_def carries_def
proof (intro allI impI)
  fix w
  assume "settled n w"
  then show "settled n (snd (put_receipt self m (set_state st d) w))"
    using settled_put(2) [OF assms]
    by (cases rule: put_receipt_cases [of self m "set_state st d" w]) auto
qed

lemma not_incomplete [simp]:
  "''VERIFIED'' \<notin> set INCOMPLETE_STATES" "''RECOVERED_UNAPPLIED'' \<notin> set INCOMPLETE_STATES"
  "''RECOVERY_REQUIRED'' \<notin> set INCOMPLETE_STATES" "''ROLLED_BACK'' \<notin> set INCOMPLETE_STATES"
  "''SUPERSEDED'' \<notin> set INCOMPLETE_STATES"
  by (simp_all add: INCOMPLETE_STATES_def)

lemma conclude_carries:
  "st \<notin> set INCOMPLETE_STATES \<Longrightarrow> evolves (carries (settled n)) (conclude self m d st out)"
  unfolding conclude_def by (intro carry.combinators put_carries_settled)

lemma finalize_carries: "evolves (carries (settled n)) (finalize_rollback self m d src)"
  unfolding finalize_rollback_def close_source_def
  by (intro carry.combinators put_carries_settled not_incomplete)

lemma reconcile_carries: "evolves (carries (settled n)) (reconcile_one H self m d st)"
  unfolding reconcile_one_def reconcile_rollback_def Let_def
  by (intro carry.combinators conclude_carries finalize_carries not_incomplete)

lemma json_evolves:
  "(\<And>d. evolves R (f d)) \<Longrightarrow> evolves R g \<Longrightarrow> evolves R (case raw of JObj d \<Rightarrow> f d | _ \<Rightarrow> g)"
  by (cases raw) auto

lemma decide_carries: "evolves (carries (settled n)) (decide_locked H self m)"
  unfolding decide_locked_def audit_verified_def mark_raw_def Let_def
  by (intro carry.combinators json_evolves conclude_carries finalize_carries reconcile_carries
      put_carries_settled not_incomplete)

lemma recover_one_carries: "evolves (carries (settled n)) (recover_one H self (\<lambda>_. ret ()) acc m)"
  unfolding recover_one_def Let_def
  by (intro carry.combinators json_evolves decide_carries put_carries_settled not_incomplete)

lemma carries_run: "evolves (carries P) m \<Longrightarrow> P w \<Longrightarrow> m w = (r, w') \<Longrightarrow> P w'"
  by (metis carries_def evolvesD)

lemma settled_conclude: "conclude self n d st out w = (Inr o', w') \<Longrightarrow> st \<notin> set INCOMPLETE_STATES \<Longrightarrow> settled n w'"
  unfolding conclude_def by (auto elim!: bindM_InrE intro: settled_put(1))

lemma settled_finalize:
  assumes "finalize_rollback self n d src w = (Inr u, w')"
  shows "settled n w'"
proof -
  from assms obtain x w1 where 1: "put_receipt self n (set_state ''VERIFIED'' d) w = (Inr x, w1)"
    and 2: "close_source self src w1 = (Inr u, w')"
    unfolding finalize_rollback_def by (elim bindM_InrE)
  have "evolves (carries (settled n)) (close_source self src)"
    unfolding close_source_def by (intro carry.combinators put_carries_settled not_incomplete)
  from carries_run [OF this settled_put(1) [OF not_incomplete(1) 1] 2] show ?thesis .
qed

lemma settled_reconcile: "reconcile_one H self n d st w = (Inr out, w') \<Longrightarrow> settled n w'"
  unfolding reconcile_one_def reconcile_rollback_def Let_def
  by (cases "observe H (sget d ''path'') w")
    (auto simp: bindM_readM split: if_splits elim!: bindM_InrE intro: settled_conclude settled_finalize)

lemma settled_decide:
  assumes "decide_locked H self n w = (Inr out, w')"
  shows "settled n w'"
proof (cases "read_validated n w")
  case (Inl e)
  have "settled n w" using read_validated_Inl [OF Inl] by (simp add: settled_def)
  from carries_run [OF decide_carries this assms] show ?thesis .
next
  case (Inr d)
  then have d: "receipt_at n w = Some d" by (simp add: read_validated_Inr)
  have same: "tx_state d \<notin> set INCOMPLETE_STATES \<Longrightarrow> settled n w" using d by (simp add: settled_def)
  have aud: "audit_verified H self n d w = (Inr out, w') \<Longrightarrow> tx_state d = ''VERIFIED'' \<Longrightarrow> settled n w'"
    using same by (auto simp: audit_verified_def bindM_readM split: if_splits elim!: bindM_InrE
        intro: settled_finalize settled_conclude)
  show ?thesis
    using assms Inr same aud settled_reconcile
    by (auto simp: decide_locked_def bindM_readM Let_def split: if_splits)
qed

lemma recover_one_good:
  assumes g: "good self w"
  shows "\<exists>acc' w'. recover_one H self (\<lambda>_. ret ()) acc n w = (Inr acc', w') \<and> good self w' \<and> settled n w'"
proof (cases "load_validated n w")
  case (Inl e)
  have "settled n w"
    using Inl by (auto simp: settled_def load_validated_Inr [symmetric])
  note carry = carries_run [OF recover_one_carries this]
  have "\<exists>acc' w'. recover_one H self (\<lambda>_. ret ()) acc n w = (Inr acc', w') \<and> good self w'"
  proof (cases "load_doc n w")
    case l: (Inl e')
    then have "is_a e' OSError \<or> is_a e' JSONDecodeError" using good_load_doc(1) [OF g] by blast
    with l g show ?thesis by (auto simp: recover_one_def bindM_readM)
  next
    case r: (Inr raw)
    then have v: "validate_receipt raw = Inl e" using Inl by (simp add: load_validated_def)
    with r have e: "e = RecoveryError" using good_load_doc(2) [OF g] by (auto intro: validate_Inl)
    show ?thesis
    proof (cases raw)
      case (JObj d)
      from runs_set_state [of self n "''RECOVERY_REQUIRED''" d] g obtain w1 where
        "put_receipt self n (set_state ''RECOVERY_REQUIRED'' d) w = (Inr (), w1)" "good self w1"
        by (auto simp: runs_def)
      with r v e JObj show ?thesis
        by (simp add: recover_one_def bindM_readM bindM_app catchM_def split: option.split)
    qed (use r v e g in \<open>simp_all add: recover_one_def bindM_readM\<close>)
  qed
  with carry show ?thesis by blast
next
  case (Inr d)
  then have d: "receipt_at n w = Some d" by (simp add: load_validated_Inr)
  then have l: "load_doc n w = Inr (JObj d)" and v: "validate_receipt (JObj d) = Inr d"
    by (auto simp: receipt_at_Some validate_receipt_Inr)
  from runs_decide_locked [of self H n] g obtain out w1 where
    1: "decide_locked H self n w = (Inr out, w1)" "good self w1"
    by (auto simp: runs_def)
  have st: "tx_state d \<in> {''RECOVERED_UNAPPLIED'', ''ROLLED_BACK'', ''SUPERSEDED'', ''RECOVERY_REQUIRED'', ''VERIFIED''}
      \<Longrightarrow> settled n w"
    using d by (auto simp: settled_def)
  show ?thesis
    using 1 st g settled_decide [OF 1(1)] l v
    by (auto simp: recover_one_def bindM_readM Let_def bindM_app catchM_def)
qed

lemma fold_recover_good:
  assumes "good self w"
  shows "\<exists>acc' w'. foldM (recover_one H self (\<lambda>_. ret ())) acc ns w = (Inr acc', w') \<and> good self w' \<and>
    (\<forall>n \<in> set ns. settled n w')"
  using assms
proof (induction ns arbitrary: acc w)
  case (Cons n ns)
  from recover_one_good [OF Cons.prems] obtain a w1 where
    1: "recover_one H self (\<lambda>_. ret ()) acc n w = (Inr a, w1)" "good self w1" "settled n w1"
    by blast
  from Cons.IH [OF 1(2)] obtain a' w' where
    2: "foldM (recover_one H self (\<lambda>_. ret ())) a ns w1 = (Inr a', w')" "good self w'"
      "\<forall>m \<in> set ns. settled m w'"
    by blast
  have "evolves (carries (settled n)) (foldM (recover_one H self (\<lambda>_. ret ())) a ns)"
    by (intro carry.foldM_evolves recover_one_carries)
  from carries_run [OF this 1(3) 2(1)] have "settled n w'" .
  with 1 2 show ?case by (simp add: bindM_app del: ret_apply)
qed simp



section \<open>Which receipt a rollback picks\<close>

text \<open>A world with every clock value taken out of its receipts.\<close>

definition undate :: "dict \<Rightarrow> dict" where
  "undate d = filter (\<lambda>(k, v). k \<notin> {''seq'', ''created_at''}) d"

definition undate_json :: "json \<Rightarrow> json" where
  "undate_json j = (case j of JObj d \<Rightarrow> JObj (undate d) | _ \<Rightarrow> j)"

definition undate_doc :: "rdoc \<Rightarrow> rdoc" where
  "undate_doc x = (case x of Doc j \<Rightarrow> Doc (undate_json j) | _ \<Rightarrow> x)"

definition declock :: "world \<Rightarrow> world" where
  "declock w = w\<lparr>journal := map (\<lambda>(n, f). (n, f\<lparr>jdoc := undate_doc (jdoc f)\<rparr>)) (journal w)\<rparr>"

lemma aget_undate: "aget (undate d) k = (if k \<in> {''seq'', ''created_at''} then None else aget d k)"
  by (induction d) (auto simp: undate_def)

lemma dget_undate: "k \<notin> {''seq'', ''created_at''} \<Longrightarrow> dget (undate d) k = dget d k"
  by (simp add: dget_def aget_undate)

lemma sget_undate: "k \<notin> {''seq'', ''created_at''} \<Longrightarrow> sget (undate d) k = sget d k"
  by (simp add: sget_def dget_undate)

lemma validate_undate: "validate_receipt (undate_json j) = map_sum id undate (validate_receipt j)"
  by (cases j) (simp_all add: undate_json_def validate_receipt_def dget_undate)

lemma load_doc_declock: "load_doc n (declock w) = map_sum id undate_json (load_doc n w)"
proof -
  have "aget (map (\<lambda>(n, f). (n, f\<lparr>jdoc := undate_doc (jdoc f)\<rparr>)) j) n =
      map_option (\<lambda>f. f\<lparr>jdoc := undate_doc (jdoc f)\<rparr>) (aget j n)" for j :: "(string \<times> jfile) list"
    by (induction j) auto
  then have a: "aget (journal (declock w)) n =
      map_option (\<lambda>f. f\<lparr>jdoc := undate_doc (jdoc f)\<rparr>) (aget (journal w) n)"
    by (simp add: declock_def)
  show ?thesis
  proof (cases "aget (journal w) n")
    case (Some f)
    with a show ?thesis by (cases "jdoc f") (simp_all add: load_doc_def undate_doc_def)
  qed (use a in \<open>simp add: load_doc_def\<close>)
qed

lemma load_declock: "load_validated n (declock w) = map_sum id undate (load_validated n w)"
  by (cases "load_doc n w") (simp_all add: load_validated_def load_doc_declock validate_undate)

lemma read_declock: "read_validated n (declock w) = map_sum id undate (read_validated n w)"
  by (cases "load_doc n w") (simp_all add: read_validated_def load_doc_declock validate_undate)

lemma glob_declock: "glob_journal a b (declock w) = glob_journal a b w"
  by (simp add: glob_journal_def declock_def comp_def case_prod_unfold)

lemma collect_map:
  "collect (\<lambda>n. map_sum id h (f n)) ns = map_sum id (map (map_prod id h)) (collect f ns)"
proof (induction ns)
  case (Cons n ns)
  then show ?case
    by (cases "f n"; cases "collect f ns") simp_all
qed simp

lemma filter_undate:
  assumes "\<And>d. P (undate d) = P d"
  shows "filter P (map undate ds) = map undate (filter P ds)"
  using assms by (induction ds) auto

lemma concerns_undate [simp]: "concerns p t (undate d) = concerns p t d"
  by (simp add: concerns_def dget_undate)

lemma map_undate_sget: "k \<notin> {''seq'', ''created_at''} \<Longrightarrow> map (\<lambda>d. sget d k) (map undate ds) = map (\<lambda>d. sget d k) ds"
  by (simp add: sget_undate)

lemma snd_undate: "map snd (map (map_prod id undate) rs) = map undate (map snd rs)"
  by simp

lemma chain_declock: "chain_references p t (declock w) = chain_references p t w"
proof -
  have all: "all_valid_receipts (declock w) = map_sum id (map (map_prod id undate)) (all_valid_receipts w)"
    unfolding all_valid_receipts_def iter_receipt_files_def glob_declock
      read_declock by (rule collect_map)
  show ?thesis
  proof (cases "all_valid_receipts w")
    case (Inr rs)
    with all show ?thesis
      by (simp add: chain_references_def Let_def snd_undate filter_undate dget_undate sget_undate
          del: map_map) (simp add: comp_def sget_undate)
  qed (use all in \<open>simp add: chain_references_def\<close>)
qed

lemma restorable_undate [simp]: "restorable p t h (undate d) = restorable p t h d"
  by (simp add: restorable_def dget_undate sget_undate)

lemma pick_head_undate: "pick_head e a (map undate cs) = map_sum id (map_option undate) (pick_head e a cs)"
proof -
  have "filter (\<lambda>c. sget c ''receipt_id'' \<notin> set e) (map undate cs) =
      map undate (filter (\<lambda>c. sget c ''receipt_id'' \<notin> set e) cs)"
    by (rule filter_undate) (simp add: sget_undate)
  then show ?thesis
    unfolding pick_head_def by (simp split: list.split) (auto simp: sget_undate)
qed

text \<open>Which receipt a rollback picks does not depend on any clock: with every recorded
  time and sequence number taken out of the journal the same receipt is picked, the same lineage
  is refused as ambiguous, and the same scan fails.\<close>

theorem rollback_choice_ignores_clocks:
  "find_latest_receipt p t post (declock w) =
     map_sum id (map_option undate) (find_latest_receipt p t post w)"
proof (cases "collect (\<lambda>n. load_validated n w) (glob_journal (''recovery-'' @ p @ ''-'') ''.json'' w)")
  case (Inl e)
  then show ?thesis
    unfolding find_latest_receipt_def Let_def glob_declock load_declock collect_map by simp
next
  case (Inr rs)
  let ?cs = "filter (restorable p t (strip_ws (upper post))) (map snd rs)"
  have cs: "filter (restorable p t (strip_ws (upper post))) (map snd (map (map_prod id undate) rs)) =
      map undate ?cs"
    unfolding snd_undate by (rule filter_undate) simp
  show ?thesis
  proof (cases "?cs = []")
    case True
    with Inr cs show ?thesis
      unfolding find_latest_receipt_def Let_def glob_declock load_declock collect_map by simp
  next
    case False
    with Inr cs show ?thesis
      unfolding find_latest_receipt_def Let_def glob_declock load_declock collect_map chain_declock
      by (cases "chain_references p t w") (simp_all add: case_prod_unfold pick_head_undate del: map_map)
  qed
qed

lemma collect_Inr:
  assumes "collect f ns = Inr rs"
  shows "(n, d) \<in> set rs \<longleftrightarrow> n \<in> set ns \<and> f n = Inr d"
  using assms
  by (induction ns arbitrary: rs) (auto simp: bindR_Inr_iff split: sum.splits if_splits)

lemma all_valid_receipts_iff:
  "all_valid_receipts w = Inr rs \<Longrightarrow>
     (n, d) \<in> set rs \<longleftrightarrow> n \<in> set (iter_receipt_files w) \<and> receipt_at n w = Some d"
  unfolding all_valid_receipts_def by (simp add: collect_Inr read_validated_Inr)

text \<open>A standing receipt of the target points at \<open>i\<close>.\<close>

definition standing_successor :: "string \<Rightarrow> string \<Rightarrow> string \<Rightarrow> string list \<Rightarrow> world \<Rightarrow> bool" where
  "standing_successor p t i sts w \<longleftrightarrow> (\<exists>n \<in> set (iter_receipt_files w). \<exists>d. receipt_at n w = Some d \<and>
     concerns p t d \<and> truthy (dget d ''prev_receipt_id'') \<and> sget d ''prev_receipt_id'' = i \<and>
     tx_state d \<in> set sts)"

lemma chain_references_iff:
  assumes "chain_references p t w = Inr (eff, amb)"
  shows "i \<in> set eff \<longleftrightarrow> standing_successor p t i [''APPLIED'', ''VERIFIED''] w"
    and "i \<in> set amb \<longleftrightarrow> standing_successor p t i [''RECOVERY_REQUIRED''] w"
proof -
  from assms obtain rs where rs: "all_valid_receipts w = Inr rs"
    and eff: "eff = map (\<lambda>d. sget d ''prev_receipt_id'') (filter (\<lambda>d. tx_state d \<in> set [''APPLIED'', ''VERIFIED''])
        (filter (\<lambda>d. concerns p t d \<and> truthy (dget d ''prev_receipt_id'')) (map snd rs)))"
    and amb: "amb = map (\<lambda>d. sget d ''prev_receipt_id'') (filter (\<lambda>d. tx_state d \<in> set [''RECOVERY_REQUIRED''])
        (filter (\<lambda>d. concerns p t d \<and> truthy (dget d ''prev_receipt_id'')) (map snd rs)))"
    by (auto simp: chain_references_def bindR_Inr_iff Let_def)
  have mem: "d \<in> set (map snd rs) \<longleftrightarrow> (\<exists>n \<in> set (iter_receipt_files w). receipt_at n w = Some d)" for d
    using all_valid_receipts_iff [OF rs] by (force simp: image_iff)
  have "i \<in> set (map (\<lambda>d. sget d ''prev_receipt_id'') (filter (\<lambda>d. tx_state d \<in> set sts)
        (filter (\<lambda>d. concerns p t d \<and> truthy (dget d ''prev_receipt_id'')) (map snd rs)))) \<longleftrightarrow>
      (\<exists>d. d \<in> set (map snd rs) \<and> concerns p t d \<and> truthy (dget d ''prev_receipt_id'') \<and>
        sget d ''prev_receipt_id'' = i \<and> tx_state d \<in> set sts)" for sts
    by auto
  then have "i \<in> set (map (\<lambda>d. sget d ''prev_receipt_id'') (filter (\<lambda>d. tx_state d \<in> set sts)
        (filter (\<lambda>d. concerns p t d \<and> truthy (dget d ''prev_receipt_id'')) (map snd rs)))) \<longleftrightarrow>
      standing_successor p t i sts w" for sts
    unfolding standing_successor_def mem by blast
  then show "i \<in> set eff \<longleftrightarrow> standing_successor p t i [''APPLIED'', ''VERIFIED''] w"
    and "i \<in> set amb \<longleftrightarrow> standing_successor p t i [''RECOVERY_REQUIRED''] w"
    unfolding eff amb by blast+
qed

lemma pick_head_Some:
  "pick_head eff amb cs = Inr (Some d) \<longleftrightarrow>
     filter (\<lambda>c. sget c ''receipt_id'' \<notin> set eff) cs = [d] \<and> sget d ''receipt_id'' \<notin> set amb"
  by (auto simp: pick_head_def split: list.split)

lemma find_latest_receipt_Some:
  assumes "find_latest_receipt p t post w = Inr (Some d)"
  obtains rs eff amb where
    "collect (\<lambda>n. load_validated n w) (glob_journal (''recovery-'' @ p @ ''-'') ''.json'' w) = Inr rs"
    "chain_references p t w = Inr (eff, amb)"
    "pick_head eff amb (filter (restorable p t (strip_ws (upper post))) (map snd rs)) = Inr (Some d)"
  using assms by (auto simp: find_latest_receipt_def bindR_Inr_iff Let_def split: if_splits)

text \<open>The receipt a rollback picks is the head of the target's chain: a valid, verified write
  of exactly this project, target and postimage, to which no standing write points back, and no
  write in need of recovery either; and every other candidate has a standing successor.\<close>

theorem rollback_picks_head:
  assumes "find_latest_receipt p t post w = Inr (Some d)"
  shows "\<exists>n. receipt_at n w = Some d \<and> restorable p t (strip_ws (upper post)) d \<and>
      \<not> standing_successor p t (sget d ''receipt_id'') [''APPLIED'', ''VERIFIED'', ''RECOVERY_REQUIRED''] w \<and>
      (\<forall>m \<in> set (glob_journal (''recovery-'' @ p @ ''-'') ''.json'' w). \<forall>c. receipt_at m w = Some c \<and>
         restorable p t (strip_ws (upper post)) c \<and> c \<noteq> d \<longrightarrow>
         standing_successor p t (sget c ''receipt_id'') [''APPLIED'', ''VERIFIED''] w)"
proof -
  let ?P = "restorable p t (strip_ws (upper post))"
  from assms obtain rs eff am where
    rs: "collect (\<lambda>n. load_validated n w) (glob_journal (''recovery-'' @ p @ ''-'') ''.json'' w) = Inr rs"
    and refs: "chain_references p t w = Inr (eff, am)"
    and hd: "filter (\<lambda>c. sget c ''receipt_id'' \<notin> set eff) (filter ?P (map snd rs)) = [d]"
    and amb: "sget d ''receipt_id'' \<notin> set am"
    by (elim find_latest_receipt_Some) (auto simp: pick_head_Some)
  note iff = chain_references_iff [OF refs]
  have "d \<in> set (filter (\<lambda>c. sget c ''receipt_id'' \<notin> set eff) (filter ?P (map snd rs)))"
    unfolding hd by simp
  then have d: "d \<in> set (map snd rs)" "?P d" "sget d ''receipt_id'' \<notin> set eff"
    by auto
  then obtain n where "receipt_at n w = Some d"
    using collect_Inr [OF rs] by (auto simp: load_validated_Inr)
  moreover have "\<not> standing_successor p t (sget d ''receipt_id'') [''APPLIED'', ''VERIFIED'', ''RECOVERY_REQUIRED''] w"
    using d(3) amb unfolding iff by (auto simp: standing_successor_def)
  moreover have "standing_successor p t (sget c ''receipt_id'') [''APPLIED'', ''VERIFIED''] w"
    if "m \<in> set (glob_journal (''recovery-'' @ p @ ''-'') ''.json'' w)" "receipt_at m w = Some c" "?P c" "c \<noteq> d" for m c
  proof (rule ccontr)
    assume "\<not> ?thesis"
    moreover have "c \<in> set (map snd rs)"
      using that(1,2) collect_Inr [OF rs] by (force simp: load_validated_Inr)
    ultimately have "c \<in> set (filter (\<lambda>c. sget c ''receipt_id'' \<notin> set eff) (filter ?P (map snd rs)))"
      using that(3) unfolding iff [symmetric] by simp
    with that(4) show False unfolding hd by simp
  qed
  ultimately show ?thesis using d(2) by blast
qed


text \<open>A target written three times, to B, C and B again, with a clock running backwards.\<close>

definition chain_receipt :: "string \<Rightarrow> json \<Rightarrow> string \<Rightarrow> string \<Rightarrow> int \<Rightarrow> dict" where
  "chain_receipt i prev pre post seq =
     [(''receipt_id'', JStr i), (''project_id'', JStr ''p''), (''path'', JStr ''/p/a''),
      (''original_operation'', JStr ''FS_WRITE''), (''prev_receipt_id'', prev),
      (''preimage_exists'', JBool True), (''preimage_sha256'', JStr pre),
      (''postimage_sha256'', JStr post), (''backup_file'', JStr (''/s/'' @ i @ ''.bak'')),
      (''seq'', JInt seq), (''tx_state'', JStr ''VERIFIED'')]"

definition chain_world :: world where
  "chain_world =
     \<lparr>disk = [(''/p/a'', Reg ''B''), (''/s/recovery-p-1.bak'', Reg ''A''),
        (''/s/recovery-p-2.bak'', Reg ''B''), (''/s/recovery-p-3.bak'', Reg ''C'')],
      journal =
        [(''recovery-p-1.json'', \<lparr>jdoc = Doc (JObj (chain_receipt ''recovery-p-1'' JNull ''A'' ''B'' 30)), jmtime = 0\<rparr>),
         (''recovery-p-2.json'', \<lparr>jdoc = Doc (JObj (chain_receipt ''recovery-p-2'' (JStr ''recovery-p-1'') ''B'' ''C'' 20)), jmtime = 0\<rparr>),
         (''recovery-p-3.json'', \<lparr>jdoc = Doc (JObj (chain_receipt ''recovery-p-3'' (JStr ''recovery-p-2'') ''C'' ''B'' 10)), jmtime = 0\<rparr>)],
      denied = [], now = 100, now_ns = 100, stamp = ''t'', draws = nat_digits, drawn = 4,
      budget = None\<rparr>"

theorem rollback_picks_head_witness:
  "\<exists>n. receipt_at n chain_world = Some (chain_receipt ''recovery-p-3'' (JStr ''recovery-p-2'') ''C'' ''B'' 10) \<and>
     standing_successor ''p'' ''/p/a'' ''recovery-p-1'' [''APPLIED'', ''VERIFIED''] chain_world"
proof -
  let ?d = "chain_receipt ''recovery-p-3'' (JStr ''recovery-p-2'') ''C'' ''B'' 10"
  let ?c = "chain_receipt ''recovery-p-1'' JNull ''A'' ''B'' 30"
  have 1: "find_latest_receipt ''p'' ''/p/a'' ''B'' chain_world = Inr (Some ?d)" by code_simp
  have 2: "''recovery-p-1.json'' \<in> set (glob_journal (''recovery-'' @ ''p'' @ ''-'') ''.json'' chain_world)"
    "receipt_at ''recovery-p-1.json'' chain_world = Some ?c"
    "restorable ''p'' ''/p/a'' (strip_ws (upper ''B'')) ?c" "?c \<noteq> ?d" "sget ?c ''receipt_id'' = ''recovery-p-1''"
    by code_simp+
  from rollback_picks_head [OF 1] 2 show ?thesis by metis
qed

section \<open>What a rollback restores\<close>

lemma close_source_Inr:
  assumes "close_source self src w = (Inr u, w')" and "src \<noteq> []"
    and "receipt_at (json_name src) w' = Some d"
  shows "tx_state d = ''ROLLED_BACK''"
proof (cases "receipt_at (json_name src) w")
  case None
  then have "w' = w"
    using assms(1,2) load_validated_Inr [of "json_name src" w]
    by (cases "load_validated (json_name src) w") (auto simp: close_source_def bindM_readM split: if_splits)
  with None assms(3) show ?thesis by simp
next
  case (Some d1)
  then have "load_validated (json_name src) w = Inr d1" by (simp add: load_validated_Inr)
  moreover have "aget (journal w) (json_name src) \<noteq> None"
    using Some by (auto simp: receipt_at_Some load_doc_def split: option.splits)
  ultimately have "put_receipt self (json_name src) (set_state ''ROLLED_BACK'' d1) w = (Inr u, w')"
    using assms(1,2) by (auto simp: close_source_def bindM_readM)
  from put_receipt_Inr [OF this] assms(3) show ?thesis by (auto simp: receipt_at_Some)
qed

lemma finish_rollback_Inr:
  assumes "finish_rollback self n rb src reply w = (Inr r, w')" and "src \<noteq> []"
  shows "disk w' = disk w \<and> (\<forall>d. receipt_at (json_name src) w' = Some d \<longrightarrow> tx_state d = ''ROLLED_BACK'')"
proof -
  have "disk w' = disk w"
    using evolvesD [OF finish_rollback_frames_disk assms(1)] by (simp add: frames_def)
  moreover from assms(1) obtain w1 where "close_source self src w1 = (Inr (), w')"
    unfolding finish_rollback_def finalize_rollback_def by (auto elim!: bindM_InrE)
  ultimately show ?thesis using close_source_Inr assms(2) by blast
qed

lemma unlink_file_Inr: "unlink_file p w = (Inr u, w') \<Longrightarrow> aget (disk w') p = None"
  unfolding unlink_file_def
  by (auto simp: path_exists_def split: if_splits dest!: effect_Inr)

lemma fail_rollback_not_Inr: "fail_rollback self n rb w \<noteq> (Inr x, w')"
  by (auto simp: fail_rollback_def bindM_app split: prod.splits sum.splits)

lemma apply_rollback_Inr:
  assumes "apply_rollback H self t rb_id cur src rb w = (Inr reply, w')" and "valid_receipt src"
  shows "if truthy (dget src ''preimage_exists'')
    then \<exists>b. read_bytes (sget_default src ''backup_file'') w = Inr b \<and> dget src ''preimage_sha256'' = JStr (H b) \<and>
           read_bytes t w' = Inr b
    else \<not> path_exists t w'"
    and "receipt_at (json_name (sget src ''receipt_id'')) w' = Some d \<Longrightarrow> tx_state d = ''ROLLED_BACK''"
proof -
  have id: "sget src ''receipt_id'' \<noteq> []" using valid_receipt_str [OF assms(2)] by blast
  have "(if truthy (dget src ''preimage_exists'')
    then \<exists>b. read_bytes (sget_default src ''backup_file'') w = Inr b \<and> dget src ''preimage_sha256'' = JStr (H b) \<and>
           read_bytes t w' = Inr b
    else \<not> path_exists t w') \<and>
    (receipt_at (json_name (sget src ''receipt_id'')) w' = Some d \<longrightarrow> tx_state d = ''ROLLED_BACK'')"
  proof (cases "truthy (dget src ''preimage_exists'')")
    case False
    with assms(1) show ?thesis
      by (auto simp: apply_rollback_def Let_def path_exists_def elim!: bindM_InrE
          dest!: unlink_file_Inr finish_rollback_Inr [OF _ id])
  next
    case True
    with assms(1) show ?thesis
      by (auto simp: apply_rollback_def Let_def bindM_readM fail_rollback_not_Inr sha256_file_def
          bindR_Inr_iff read_bytes_Inr split: if_splits sum.splits elim!: bindM_InrE
          dest!: write_bytes_Inr finish_rollback_Inr [OF _ id])
  qed
  then show "if truthy (dget src ''preimage_exists'')
    then \<exists>b. read_bytes (sget_default src ''backup_file'') w = Inr b \<and> dget src ''preimage_sha256'' = JStr (H b) \<and>
           read_bytes t w' = Inr b
    else \<not> path_exists t w'"
    and "receipt_at (json_name (sget src ''receipt_id'')) w' = Some d \<Longrightarrow> tx_state d = ''ROLLED_BACK''"
    by blast+
qed

lemma rollback_Inr:
  assumes "rollback H self p t post w = (Inr reply, w')"
  obtains b0 w1 src w3 rb_id rb where
    "corrupt_receipt_files w = Inr []" "read_bytes t w = Inr b0" "H b0 = strip_ws (upper post)"
    "advances w w1" "disk w1 = disk w" "find_latest_receipt p t (H b0) w1 = Inr (Some src)"
    "disk w3 = disk w" "apply_rollback H self t rb_id (H b0) src rb w3 = (Inr reply, w')"
proof -
  from assms obtain b0 sup w1 src rb_id w2 rb w3 where
    1: "corrupt_receipt_files w = Inr []" "read_bytes t w = Inr b0" "H b0 = strip_ws (upper post)"
    and s: "supersede_pending H self p t w = (Inr sup, w1)"
    and f: "find_latest_receipt p t (H b0) w1 = Inr (Some src)"
    and n: "new_receipt_id self p ''rollback'' w1 = (Inr rb_id, w2)"
    and u: "put_receipt self (json_name rb_id) rb w2 = (Inr (), w3)"
    and a: "apply_rollback H self t rb_id (H b0) src rb w3 = (Inr reply, w')"
    unfolding rollback_def
    by (auto simp: bindM_readM sha256_file_def bindR_Inr_iff split: sum.splits if_splits option.splits
        elim!: bindM_InrE)
  have "advances w w1" using evolvesD [OF supersede_pending_advances s] .
  moreover have "disk w1 = disk w"
    using evolvesD [OF supersede_pending_frames_disk s] by (simp add: frames_def)
  moreover have "disk w3 = disk w1"
    using evolvesD [OF new_receipt_id_frames_disk n] put_receipt_Inr [OF u] by (simp add: frames_def)
  ultimately show thesis using 1 f a that by simp
qed

lemma rollback_result:
  assumes "rollback H self p t post w = (Inr reply, w')"
  shows "\<exists>b0 w1 n src. read_bytes t w = Inr b0 \<and> H b0 = strip_ws (upper post) \<and> advances w w1 \<and>
     receipt_at n w1 = Some src \<and> restorable p t (strip_ws (upper (H b0))) src \<and>
     (if truthy (dget src ''preimage_exists'')
      then \<exists>b. read_bytes (sget_default src ''backup_file'') w = Inr b \<and>
             dget src ''preimage_sha256'' = JStr (H b) \<and> read_bytes t w' = Inr b
      else \<not> path_exists t w') \<and>
     files_but t w' = files_but t w \<and>
     (\<forall>d. receipt_at (json_name (sget src ''receipt_id'')) w' = Some d \<longrightarrow> tx_state d = ''ROLLED_BACK'')"
proof -
  obtain b0 w1 src w3 rb_id rb where
    1: "read_bytes t w = Inr b0" "H b0 = strip_ws (upper post)" "advances w w1"
    and f: "find_latest_receipt p t (H b0) w1 = Inr (Some src)"
    and d3: "disk w3 = disk w" and a: "apply_rollback H self t rb_id (H b0) src rb w3 = (Inr reply, w')"
    using assms by (rule rollback_Inr)
  from f obtain rs eff am where
    rs: "collect (\<lambda>n. load_validated n w1) (glob_journal (''recovery-'' @ p @ ''-'') ''.json'' w1) = Inr rs"
    and hd: "filter (\<lambda>c. sget c ''receipt_id'' \<notin> set eff)
        (filter (restorable p t (strip_ws (upper (H b0)))) (map snd rs)) = [src]"
    by (elim find_latest_receipt_Some) (auto simp: pick_head_Some)
  have "src \<in> set (filter (\<lambda>c. sget c ''receipt_id'' \<notin> set eff)
        (filter (restorable p t (strip_ws (upper (H b0)))) (map snd rs)))"
    unfolding hd by simp
  then obtain n where n: "receipt_at n w1 = Some src" and r: "restorable p t (strip_ws (upper (H b0))) src"
    using collect_Inr [OF rs] by (auto simp: load_validated_Inr)
  then have v: "valid_receipt src" by (simp add: receipt_at_Some)
  have rd: "read_bytes q w3 = read_bytes q w" for q using d3 by (simp add: read_bytes_def)
  have "files_but t w' = files_but t w"
    using evolvesD [OF rollback_frame assms] by (simp add: frames_def)
  with 1 n r apply_rollback_Inr [OF a v] show ?thesis unfolding rd by blast
qed

text \<open>A rollback that reports success has restored the preimage: the target had the expected
  postimage, the restored receipt is a verified write of exactly this project, target and
  postimage, the target now has, byte for byte, the content of its backup, whose hash is the
  recorded preimage (or is gone, when the write had created it), no other file changed, and the
  receipt of the undone write is closed as rolled back.\<close>

theorem rollback_restores:
  assumes "rollback H self p t post w = (Inr reply, w')"
  shows "\<exists>b0 w1 n src. read_bytes t w = Inr b0 \<and> H b0 = strip_ws (upper post) \<and> advances w w1 \<and>
     receipt_at n w1 = Some src \<and> restorable p t (strip_ws (upper (H b0))) src \<and>
     (if truthy (dget src ''preimage_exists'')
      then \<exists>b. read_bytes (sget_default src ''backup_file'') w = Inr b \<and>
             dget src ''preimage_sha256'' = JStr (H b) \<and> read_bytes t w' = Inr b
      else \<not> path_exists t w') \<and>
     files_but t w' = files_but t w \<and>
     (\<forall>d. receipt_at (json_name (sget src ''receipt_id'')) w' = Some d \<longrightarrow> tx_state d = ''ROLLED_BACK'')"
  by (rule rollback_result [OF assms])

lemma chain_rollback:
  "fst (rollback id example_store ''p'' ''/p/a'' ''b'' chain_world) =
     Inr [(''status'', JStr ''ROLLED_BACK''), (''receipt_id'', JStr ''recovery-p-3''),
          (''rollback_receipt_id'', JStr ''rollback-p-4''), (''path'', JStr ''/p/a''),
          (''action'', JStr ''restored''), (''restored_state'', JStr ''present''),
          (''restored_sha256'', JStr ''C'')]"
  by code_simp

theorem rollback_restores_witness:
  "\<exists>reply w'. rollback id example_store ''p'' ''/p/a'' ''b'' chain_world = (Inr reply, w') \<and>
     files_but ''/p/a'' w' = files_but ''/p/a'' chain_world"
proof -
  obtain reply w' where "rollback id example_store ''p'' ''/p/a'' ''b'' chain_world = (Inr reply, w')"
    using chain_rollback by (metis prod.collapse)
  from rollback_restores [OF this] this show ?thesis by blast
qed

section \<open>Retention\<close>

text \<open>What retention may take from the journal.\<close>

definition prunable :: "int \<Rightarrow> string \<Rightarrow> world \<Rightarrow> bool" where
  "prunable cutoff n w \<longleftrightarrow> (\<exists>f d. aget (journal w) n = Some f \<and> jmtime f < cutoff \<and>
     receipt_at n w = Some d \<and> tx_state d \<in> set TERMINAL_STATES)"

text \<open>One world is what is left of the other after removing prunable receipts and their backups.\<close>

definition pruned :: "int \<Rightarrow> world \<Rightarrow> world \<Rightarrow> bool" where
  "pruned cutoff w w' \<longleftrightarrow>
     (\<forall>n. aget (journal w') n = aget (journal w) n \<or> aget (journal w') n = None \<and> prunable cutoff n w) \<and>
     (\<forall>p. aget (disk w') p = aget (disk w) p \<or> aget (disk w') p = None \<and>
        (\<exists>n d. prunable cutoff n w \<and> receipt_at n w = Some d \<and> sget d ''backup_file'' = p))"

lemma receipt_at_aget: "aget (journal w') n = aget (journal w) n \<Longrightarrow> receipt_at n w' = receipt_at n w"
  by (simp add: receipt_at_def load_doc_def)

lemma prunable_back:
  assumes "pruned c w w'" and "prunable c n w'"
  shows "prunable c n w \<and> receipt_at n w' = receipt_at n w"
proof -
  from assms(2) have "aget (journal w') n \<noteq> None" by (auto simp: prunable_def)
  with assms(1) have "aget (journal w') n = aget (journal w) n" by (auto simp: pruned_def)
  with assms(2) receipt_at_aget [OF this] show ?thesis by (auto simp: prunable_def)
qed

interpretation pruning: evolution "pruned c" for c
proof unfold_locales
  show "pruned c w w" for w by (simp add: pruned_def)
  show "pruned c u w" if uv: "pruned c u v" and vw: "pruned c v w" for u v w
    unfolding pruned_def
  proof (intro conjI allI)
    fix n
    show "aget (journal w) n = aget (journal u) n \<or> aget (journal w) n = None \<and> prunable c n u"
      using uv vw prunable_back [OF uv, of n] unfolding pruned_def by metis
  next
    fix p
    show "aget (disk w) p = aget (disk u) p \<or> aget (disk w) p = None \<and>
        (\<exists>n d. prunable c n u \<and> receipt_at n u = Some d \<and> sget d ''backup_file'' = p)"
      using uv vw prunable_back [OF uv] unfolding pruned_def by metis
  qed
qed

lemma prune_one_pruned: "evolves (pruned c) (prune_one self c removed name)"
  unfolding prune_one_def
proof (rule pruning.readM_evolves_at)
  fix got w
  assume r: "(case aget (journal w) name of None \<Rightarrow> Inr None
       | Some f \<Rightarrow> if jmtime f \<ge> c then Inr None
           else (case load_validated name w of
               Inr d \<Rightarrow> Inr (Some d)
             | Inl e \<Rightarrow> if is_a e OSError \<or> is_a e JSONDecodeError \<or> is_a e RecoveryError
                        then Inr None else Inl e)) = Inr got"
  show "pruned c w (snd ((case got of
       None \<Rightarrow> ret removed
     | Some data \<Rightarrow>
         if tx_state data \<notin> set TERMINAL_STATES then ret removed
         else bindM (catchM (bindM (unlink_doc (root_dir self) name) (\<lambda>_. ret True)) [OSError] (ret False)) (\<lambda>gone.
         if \<not> gone then ret removed
         else if truthy (dget data ''backup_file'') then
           bindM (catchM (unlink_file (sget data ''backup_file'')) [OSError] (ret ())) (\<lambda>_. ret (Suc removed))
         else ret (Suc removed))) w))"
  proof (cases got)
    case None
    then show ?thesis by (simp add: pruning.R_refl)
  next
    case (Some d)
    with r obtain f where f: "aget (journal w) name = Some f" "jmtime f < c" "receipt_at name w = Some d"
      by (auto split: option.splits if_splits sum.splits simp: load_validated_Inr)
    show ?thesis
    proof (cases "tx_state d \<in> set TERMINAL_STATES")
      case False
      with Some show ?thesis by (simp add: pruning.R_refl)
    next
      case True
      with f have pr: "prunable c name w" by (auto simp: prunable_def)
      obtain g w1 where u: "catchM (bindM (unlink_doc (root_dir self) name) (\<lambda>_. ret True)) [OSError] (ret False) w = (g, w1)"
        by fastforce
      have j1: "disk w1 = disk w \<and> (journal w1 = journal w \<or> journal w1 = adel name (journal w))"
        using u by (auto simp: unlink_doc_def catchM_def bindM_app effect_def
            split: if_splits option.splits nat.splits)
      have j2: "journal (snd (catchM (unlink_file q) [OSError] (ret ()) v)) = journal v \<and>
          (disk (snd (catchM (unlink_file q) [OSError] (ret ()) v)) = disk v \<or>
           disk (snd (catchM (unlink_file q) [OSError] (ret ()) v)) = adel q (disk v))" for q v
        by (auto simp: unlink_file_def catchM_def effect_def split: if_splits option.splits nat.splits)
      have fin: "pruned c w v" if "journal v = journal w1" "disk v = disk w \<or> disk v = adel (sget d ''backup_file'') (disk w)" for v
        using j1 that pr f(3) by (auto simp: pruned_def split: if_splits)
      show ?thesis
      proof (cases g)
        case (Inl e)
        with u Some True fin [of w1] j1 show ?thesis by (simp add: bindM_app)
      next
        case (Inr b)
        obtain x w2 where v: "catchM (unlink_file (sget d ''backup_file'')) [OSError] (ret ()) w1 = (x, w2)"
          by fastforce
        with j2 [of "sget d ''backup_file''" w1] j1 fin [of w2] have "pruned c w w2" by auto
        with u v Some True Inr fin [of w1] j1 show ?thesis
          by (cases x) (auto simp: bindM_app)
      qed
    qed
  qed
qed

text \<open>Retention removes terminal receipts older than the period and their backups, and
  nothing else: incomplete transactions, those that need recovery, receipt files that do not
  parse or validate, young receipts, orphan backups and every other file are kept as they are.\<close>

theorem prune_keeps_unresolved:
  "pruned (now w - days * 86400) w (snd (prune self days w))"
proof -
  have "evolves (pruned c) (foldM (prune_one self c) 0 ns)" for c ns
    by (intro pruning.foldM_evolves prune_one_pruned)
  then show ?thesis by (simp add: prune_def bindM_readM evolves_def)
qed

end
