(* ===== verification/Registry.thy ===== *)
theory Registry
  imports Boundaries Json
begin

text \<open>
  \<open>src/jvc/configuration.py\<close>: the registered routes, the parser of the registry table, the
  registry and its validation.

  A path is its components with a flag for an absolute one, as \<open>pathlib\<close> parses it. What the
  file system answers is \<open>fsview\<close>: its symbolic links, and which resolved paths are directories
  and regular files.
\<close>

section \<open>Paths and the file system as it is read\<close>

record pypath =
  anchored :: bool
  parts :: path

definition mk_path :: "string \<Rightarrow> pypath" where
  "mk_path s = \<lparr>anchored = startswith s ''/'',
     parts = filter (\<lambda>c. c \<noteq> '''' \<and> c \<noteq> ''.'') (split_on CHR ''/'' s)\<rparr>"

definition str_path :: "pypath \<Rightarrow> string" where
  "str_path p = (if anchored p then path_str (parts p) else posix_rel (parts p))"

definition join_path :: "pypath \<Rightarrow> pypath \<Rightarrow> pypath" where
  "join_path p q = (if anchored q then q else \<lparr>anchored = anchored p, parts = parts p @ parts q\<rparr>)"

record fsview =
  symlinks :: links
  cwd :: path
  dirs :: "path \<Rightarrow> bool"
  regular :: "path \<Rightarrow> bool"

definition abs_parts :: "fsview \<Rightarrow> pypath \<Rightarrow> path" where
  "abs_parts F p = (if anchored p then parts p else cwd F @ parts p)"

definition resolve_in :: "fsview \<Rightarrow> pypath \<Rightarrow> path option" where
  "resolve_in F p = resolve (symlinks F) (abs_parts F p)"

definition dir_at :: "fsview \<Rightarrow> pypath \<Rightarrow> bool" where
  "dir_at F p = (case resolve_in F p of None \<Rightarrow> False | Some q \<Rightarrow> dirs F q)"

definition file_at :: "fsview \<Rightarrow> pypath \<Rightarrow> bool" where
  "file_at F p = (case resolve_in F p of None \<Rightarrow> False | Some q \<Rightarrow> regular F q)"

definition exists_at :: "fsview \<Rightarrow> pypath \<Rightarrow> bool" where
  "exists_at F p \<longleftrightarrow> dir_at F p \<or> file_at F p"

section \<open>Routes\<close>

definition ALLOWED_LIFECYCLE_STATUSES :: "string list" where
  "ALLOWED_LIFECYCLE_STATUSES = [''active'', ''held'', ''complete'', ''superseded'']"

definition ALLOWED_CAPABILITY_CLASSES :: "string list" where
  "ALLOWED_CAPABILITY_CLASSES = [''standard'', ''restricted-tooling'', ''private-content'']"

definition ALLOWED_STATUSES :: "string list" where
  "ALLOWED_STATUSES = ALLOWED_LIFECYCLE_STATUSES @ ALLOWED_CAPABILITY_CLASSES"

definition REQUIRED_STARTUP :: "string list" where
  "REQUIRED_STARTUP = [''AGENTS.md'', ''CONTEXT.md'', ''HANDOFF.md'']"

definition TABLE_HEADER :: string where
  "TABLE_HEADER = ''| Project ID | Aliases and keywords | Absolute project path | Required startup | Handoff/current state | Status |''"

definition id_char :: "char \<Rightarrow> bool" where
  "id_char c \<longleftrightarrow> is_lower_az c \<or> is_digit c"

definition PROJECT_ID_RE :: rexp where
  "PROJECT_ID_RE = Cat (plus (Cls id_char)) (Star (Cat (lit ''-'') (plus (Cls id_char))))"

record route =
  project_id :: string
  aliases :: "string list"
  root_path :: pypath
  startup :: "string list"
  handoff :: string
  status :: string

definition lifecycle :: "route \<Rightarrow> string" where
  "lifecycle r = (if status r \<in> {''held'', ''complete'', ''superseded''} then status r else ''active'')"

definition capability_class :: "route \<Rightarrow> string" where
  "capability_class r =
     (if status r \<in> {''restricted-tooling'', ''private-content''} then status r else ''standard'')"

section \<open>The registry table\<close>

text \<open>\<open>re.findall(r"`([^`]+)`", cell)\<close>.\<close>

function code_spans :: "string \<Rightarrow> string list" where
  "code_spans [] = []"
| "code_spans (c # cs) =
     (if c = CHR 0x60 then
        (let v = takeWhile (\<lambda>x. x \<noteq> CHR 0x60) cs; r = dropWhile (\<lambda>x. x \<noteq> CHR 0x60) cs
         in if v \<noteq> [] \<and> r \<noteq> [] then v # code_spans (tl r) else code_spans cs)
      else code_spans cs)"
  by pat_completeness auto
termination
proof (relation "measure length")
  fix c :: char and cs v r :: string
  assume "r = dropWhile (\<lambda>x. x \<noteq> CHR 0x60) cs" "v \<noteq> [] \<and> r \<noteq> []"
  then show "(tl r, c # cs) \<in> measure length"
    using length_dropWhile_le [of "\<lambda>x. x \<noteq> CHR 0x60" cs] by simp
qed auto

definition code_values :: "string \<Rightarrow> string list" where
  "code_values cell = map strip_ws (filter (\<lambda>v. strip_ws v \<noteq> []) (code_spans cell))"

definition split_row :: "string \<Rightarrow> string list" where
  "split_row line = map strip_ws (split_on CHR ''|'' (strip (\<lambda>c. c = CHR ''|'') (strip_ws line)))"

definition without_char :: "char \<Rightarrow> string \<Rightarrow> string" where
  "without_char c s = filter (\<lambda>x. x \<noteq> c) s"

definition is_header :: "string \<Rightarrow> bool" where
  "is_header line \<longleftrightarrow>
     contains (without_char CHR '' '' TABLE_HEADER) (without_char CHR '' '' line) \<or>
     contains ''| Project ID |'' line \<and> contains ''| Status |'' line"

definition cell_aliases :: "string \<Rightarrow> string list" where
  "cell_aliases cell = map (\<lambda>a. lower (strip_ws a))
     (filter (\<lambda>a. strip_ws a \<noteq> []) (split_on CHR '','' (without_char CHR 0x60 cell)))"

definition parse_row :: "fsview \<Rightarrow> pypath option \<Rightarrow> string \<Rightarrow> route result" where
  "parse_row F base_dir line =
     (let cells = split_row line in
      if length cells \<noteq> 6 then Inl ConfigurationError
      else let project_ids = code_values (cells ! 0); roots = code_values (cells ! 2) in
      if length project_ids \<noteq> 1 \<or> length roots \<noteq> 1 then Inl ConfigurationError
      else let raw = mk_path (hd roots) in
      bindR (case base_dir of
               None \<Rightarrow> Inr raw
             | Some b \<Rightarrow> if anchored raw then Inr raw
                 else (case resolve_in F (join_path b raw) of
                   None \<Rightarrow> Inl RuntimeError | Some p \<Rightarrow> Inr \<lparr>anchored = True, parts = p\<rparr>)) (\<lambda>rp.
      Inr \<lparr>project_id = hd project_ids, aliases = cell_aliases (cells ! 1), root_path = rp,
           startup = code_values (cells ! 3), handoff = cells ! 4,
           status = lower (strip_ws (without_char CHR 0x60 (cells ! 5)))\<rparr>))"

definition row_lines :: "string list \<Rightarrow> string list" where
  "row_lines ls = takeWhile (\<lambda>s. s \<noteq> [] \<and> startswith s ''|'') (map strip_ws ls)"

definition parse_registry_table :: "fsview \<Rightarrow> string \<Rightarrow> pypath option \<Rightarrow> route list result" where
  "parse_registry_table F text base_dir =
     (let lines = splitlines text in
      case find_index is_header lines of
        None \<Rightarrow> Inl ConfigurationError
      | Some i \<Rightarrow> bindR (mapR (parse_row F base_dir) (row_lines (drop (i + 2) lines))) (\<lambda>rs.
          if rs = [] then Inl ConfigurationError else Inr rs))"

section \<open>The registry\<close>

record registry =
  route_list :: "route list"
  by_id :: "(string, route) alist"
  by_alias :: "(string, string) alist"

definition add_route :: "registry \<Rightarrow> route \<Rightarrow> registry" where
  "add_route g r = g\<lparr>
     by_id := (if aget (by_id g) (project_id r) = None then aset (project_id r) r (by_id g) else by_id g),
     by_alias := foldl (\<lambda>m a. aset a (project_id r) m) (by_alias g) (aliases r)\<rparr>"

definition make_registry :: "route list \<Rightarrow> registry" where
  "make_registry rs = foldl add_route \<lparr>route_list = rs, by_id = [], by_alias = []\<rparr> rs"

definition get_route :: "registry \<Rightarrow> string \<Rightarrow> route option" where
  "get_route g pid = aget (by_id g) pid"

definition list_routes :: "registry \<Rightarrow> route list" where
  "list_routes g = route_list g"

text \<open>
  \<open>from_file\<close> on a JSON document. Iteration and attribute access fail as in Python; a field the
  \<open>Route\<close> class declares as text (identifier, root, handoff, a startup entry) must be text here.
\<close>

definition iterate :: "json \<Rightarrow> json list result" where
  "iterate v = (case v of
      JArr xs \<Rightarrow> Inr xs
    | JStr s \<Rightarrow> Inr (map (\<lambda>c. JStr [c]) s)
    | JObj d \<Rightarrow> Inr (map (\<lambda>p. JStr (fst p)) d)
    | _ \<Rightarrow> Inl TypeError)"

definition text_of :: "exn \<Rightarrow> json \<Rightarrow> string result" where
  "text_of e v = (case v of JStr s \<Rightarrow> Inr s | _ \<Rightarrow> Inl e)"

definition item_get :: "dict \<Rightarrow> string \<Rightarrow> json result" where
  "item_get d k = (case aget d k of None \<Rightarrow> Inl KeyError | Some x \<Rightarrow> Inr x)"

definition route_of_json :: "fsview \<Rightarrow> json \<Rightarrow> route result" where
  "route_of_json F item = (case item of
      JObj d \<Rightarrow>
        bindR (bindR (item_get d ''project_id'') (text_of TypeError)) (\<lambda>pid.
        bindR (bindR (iterate (get_default d ''aliases'' (JArr []))) (mapR (text_of AttributeError))) (\<lambda>as.
        bindR (bindR (item_get d ''root'') (text_of TypeError)) (\<lambda>raw.
        bindR (case resolve_in F (mk_path raw) of None \<Rightarrow> Inl RuntimeError | Some p \<Rightarrow> Inr p) (\<lambda>p.
        bindR (bindR (iterate (get_default d ''startup'' (JArr (map JStr REQUIRED_STARTUP)))) (mapR (text_of TypeError))) (\<lambda>st.
        bindR (text_of TypeError (get_default d ''handoff'' (JStr ''HANDOFF.md''))) (\<lambda>ho.
        Inr \<lparr>project_id = pid, aliases = map lower as, root_path = \<lparr>anchored = True, parts = p\<rparr>,
             startup = st, handoff = ho,
             status = lower (strip_ws (without_char CHR 0x60 (py_str (get_default d ''status'' (JStr ''active'')))))\<rparr>))))))
    | _ \<Rightarrow> Inl TypeError)"

definition registry_of_json :: "fsview \<Rightarrow> json \<Rightarrow> registry result" where
  "registry_of_json F data = (case data of
      JObj d \<Rightarrow> bindR (bindR (iterate (get_default d ''routes'' (JArr []))) (mapR (route_of_json F))) (\<lambda>rs.
        Inr (make_registry rs))
    | _ \<Rightarrow> Inl AttributeError)"

definition registry_of_table :: "fsview \<Rightarrow> string \<Rightarrow> pypath \<Rightarrow> registry result" where
  "registry_of_table F text dir =
     bindR (parse_registry_table F text (Some dir)) (\<lambda>rs. Inr (make_registry rs))"

section \<open>Validation\<close>

record checks =
  errors :: "string list"
  ids :: "string list"
  owners :: "(string, string) alist"
  root_owners :: "(string, string) alist"

definition root_key :: "fsview \<Rightarrow> bool \<Rightarrow> route \<Rightarrow> string result" where
  "root_key F check_root_paths r =
     (if check_root_paths \<and> exists_at F (root_path r)
      then (case resolve_in F (root_path r) of
              None \<Rightarrow> Inl RuntimeError | Some p \<Rightarrow> Inr (casefold (path_str p)))
      else Inr (casefold (str_path (root_path r))))"

definition startup_ordered :: "string list \<Rightarrow> bool" where
  "startup_ordered st =
     (let positions = map (\<lambda>f. find_index (\<lambda>x. x = f) st) REQUIRED_STARTUP in
      None \<notin> set positions \<and> hd st = ''AGENTS.md'' \<and> sorted (map the positions))"

definition alias_errors :: "string \<Rightarrow> (string, string) alist \<Rightarrow> string list \<Rightarrow> string list \<times> (string, string) alist" where
  "alias_errors pid own as = foldl (\<lambda>(errs, m) a.
     ((case aget m a of
         Some o' \<Rightarrow> if o' \<noteq> [] \<and> o' \<noteq> pid
           then errs @ [pid @ '': alias '' @ repr_str a @ '' already belongs to '' @ o'] else errs
       | None \<Rightarrow> errs),
      aset a pid m)) ([], own) as"

definition issue :: "bool \<Rightarrow> string \<Rightarrow> string list" where
  "issue c s = (if c then [s] else [])"

definition check_route :: "fsview \<Rightarrow> bool \<Rightarrow> bool \<Rightarrow> checks \<Rightarrow> route \<Rightarrow> checks result" where
  "check_route F check_startup_files check_root_paths k r =
     bindR (root_key F check_root_paths r) (\<lambda>key.
       let pid = project_id r;
           (aerrs, own) = alias_errors pid (owners k) (aliases r)
       in Inr \<lparr>
         errors = errors k
           @ issue (\<not> fullmatch PROJECT_ID_RE pid) (pid @ '': invalid project ID'')
           @ issue (pid \<in> set (ids k)) (pid @ '': duplicate project ID'')
           @ issue (status r \<notin> set ALLOWED_STATUSES) (pid @ '': unsupported status '' @ repr_str (status r))
           @ (case aget (root_owners k) key of
                None \<Rightarrow> [] | Some o' \<Rightarrow> [pid @ '': root duplicates '' @ o'])
           @ issue (check_root_paths \<and> \<not> dir_at F (root_path r))
               (pid @ '': project root does not exist: '' @ str_path (root_path r))
           @ issue (\<not> startup_ordered (startup r))
               (pid @ '': startup must route AGENTS.md -> CONTEXT.md -> HANDOFF.md in order'')
           @ (if check_startup_files then concat (map (\<lambda>rel.
                issue (\<not> file_at F (join_path (root_path r) (mk_path rel)))
                  (pid @ '': startup file missing: '' @ rel)) (startup r)) else [])
           @ issue (aliases r = []) (pid @ '': at least one alias is required'')
           @ aerrs,
         ids = pid # ids k, owners = own, root_owners = aset key pid (root_owners k)\<rparr>)"

fun foldR :: "('b \<Rightarrow> 'a \<Rightarrow> 'b result) \<Rightarrow> 'b \<Rightarrow> 'a list \<Rightarrow> 'b result" where
  "foldR f b [] = Inr b"
| "foldR f b (x # xs) = bindR (f b x) (\<lambda>b'. foldR f b' xs)"

record validation =
  verdict :: string
  route_count :: nat
  alias_count :: nat
  error_list :: "string list"

definition validate :: "fsview \<Rightarrow> registry \<Rightarrow> bool \<Rightarrow> bool \<Rightarrow> validation result" where
  "validate F g check_startup_files check_root_paths =
     bindR (foldR (check_route F check_startup_files check_root_paths)
              \<lparr>errors = [], ids = [], owners = [], root_owners = []\<rparr> (route_list g)) (\<lambda>k.
     Inr \<lparr>verdict = (if errors k = [] then ''PASS'' else ''FAIL''),
          route_count = length (by_id g), alias_count = length (owners k), error_list = errors k\<rparr>)"

section \<open>What the registry and its validation promise\<close>

lemma by_id_fold:
  "aget (by_id (foldl add_route g rs)) pid =
     (case aget (by_id g) pid of Some r \<Rightarrow> Some r
      | None \<Rightarrow> find (\<lambda>r. project_id r = pid) rs)"
  by (induction rs arbitrary: g) (auto simp: add_route_def split: option.splits)

lemma get_route_make: "get_route (make_registry rs) pid = find (\<lambda>r. project_id r = pid) rs"
  by (simp add: get_route_def make_registry_def by_id_fold)

lemma route_list_make [simp]: "route_list (make_registry rs) = rs"
proof -
  have "route_list (foldl add_route g rs) = route_list g" for g
    by (induction rs arbitrary: g) (simp_all add: add_route_def)
  then show ?thesis by (simp add: make_registry_def)
qed

lemma issue_Nil [simp]: "issue c s = [] \<longleftrightarrow> \<not> c"
  by (simp add: issue_def)

lemma alias_errors_fold:
  "foldl (\<lambda>(errs, m) a.
     ((case aget m a of
         Some o' \<Rightarrow> if o' \<noteq> [] \<and> o' \<noteq> pid
           then errs @ [pid @ '': alias '' @ repr_str a @ '' already belongs to '' @ o'] else errs
       | None \<Rightarrow> errs),
      aset a pid m)) (e0, own) as = (es, m') \<Longrightarrow>
   (es = [] \<longrightarrow> e0 = [] \<and> (\<forall>a \<in> set as. \<forall>w. aget own a = Some w \<longrightarrow> w = [] \<or> w = pid)) \<and>
   (\<forall>a. aget m' a = (if a \<in> set as then Some pid else aget own a))"
proof (induction as arbitrary: e0 own)
  case (Cons a as)
  from Cons.IH [OF Cons.prems [unfolded foldl.simps prod.case]] show ?case
    by (auto split: option.splits if_splits)
qed simp

lemma alias_errors_props:
  "alias_errors pid own as = (es, m') \<Longrightarrow>
   (es = [] \<longrightarrow> (\<forall>a \<in> set as. \<forall>w. aget own a = Some w \<longrightarrow> w = [] \<or> w = pid)) \<and>
   (\<forall>a. aget m' a = (if a \<in> set as then Some pid else aget own a))"
  unfolding alias_errors_def by (drule alias_errors_fold) blast

text \<open>What one route has to satisfy by itself.\<close>

definition sound_route :: "fsview \<Rightarrow> bool \<Rightarrow> bool \<Rightarrow> route \<Rightarrow> bool" where
  "sound_route F check_startup_files check_root_paths r \<longleftrightarrow>
     fullmatch PROJECT_ID_RE (project_id r) \<and> status r \<in> set ALLOWED_STATUSES \<and>
     (check_root_paths \<longrightarrow> dir_at F (root_path r)) \<and> startup_ordered (startup r) \<and>
     (check_startup_files \<longrightarrow> (\<forall>rel \<in> set (startup r). file_at F (join_path (root_path r) (mk_path rel)))) \<and>
     aliases r \<noteq> []"

lemma check_route_clean:
  assumes "check_route F cs cr k r = Inr k'" and "errors k' = []"
  obtains key where "errors k = []" "root_key F cr r = Inr key" "sound_route F cs cr r"
    "project_id r \<notin> set (ids k)" "aget (root_owners k) key = None"
    "\<forall>a \<in> set (aliases r). \<forall>w. aget (owners k) a = Some w \<longrightarrow> w = [] \<or> w = project_id r"
    "ids k' = project_id r # ids k"
    "\<forall>a. aget (owners k') a = (if a \<in> set (aliases r) then Some (project_id r) else aget (owners k) a)"
    "root_owners k' = aset key (project_id r) (root_owners k)"
proof -
  obtain es own where ae: "alias_errors (project_id r) (owners k) (aliases r) = (es, own)"
    by fastforce
  from assms(1) obtain key where key: "root_key F cr r = Inr key"
    by (auto simp: check_route_def bindR_Inr_iff)
  note al = alias_errors_props [OF ae]
  have k': "ids k' = project_id r # ids k" "owners k' = own" "root_owners k' = aset key (project_id r) (root_owners k)"
    using assms(1) by (auto simp: check_route_def key ae Let_def)
  have clean: "errors k = [] \<and> fullmatch PROJECT_ID_RE (project_id r) \<and> project_id r \<notin> set (ids k) \<and>
      status r \<in> set ALLOWED_STATUSES \<and> aget (root_owners k) key = None \<and> (cr \<longrightarrow> dir_at F (root_path r)) \<and>
      startup_ordered (startup r) \<and> (cs \<longrightarrow> (\<forall>rel \<in> set (startup r). file_at F (join_path (root_path r) (mk_path rel)))) \<and>
      aliases r \<noteq> [] \<and> es = []"
    using assms by (cases "aget (root_owners k) key"; cases cs) (auto simp: check_route_def key ae Let_def)
  show thesis
    by (rule that [of key]) (use clean k' al key in \<open>auto simp: sound_route_def\<close>)
qed

definition clean_upto :: "fsview \<Rightarrow> bool \<Rightarrow> bool \<Rightarrow> route list \<Rightarrow> checks \<Rightarrow> bool" where
  "clean_upto F cs cr rs k \<longleftrightarrow>
     (\<forall>r \<in> set rs. sound_route F cs cr r) \<and> distinct (map project_id rs) \<and>
     set (ids k) = project_id ` set rs \<and>
     (\<forall>r \<in> set rs. \<forall>a \<in> set (aliases r). aget (owners k) a = Some (project_id r)) \<and>
     (\<forall>r \<in> set rs. \<exists>key. root_key F cr r = Inr key \<and> aget (root_owners k) key = Some (project_id r)) \<and>
     distinct (map (root_key F cr) rs)"

lemma clean_step:
  assumes "clean_upto F cs cr rs k" and "check_route F cs cr k r = Inr k'" and "errors k' = []"
  shows "clean_upto F cs cr (rs @ [r]) k'"
proof -
  obtain key where c: "root_key F cr r = Inr key" "sound_route F cs cr r"
    "project_id r \<notin> set (ids k)" "aget (root_owners k) key = None"
    "\<forall>a \<in> set (aliases r). \<forall>w. aget (owners k) a = Some w \<longrightarrow> w = [] \<or> w = project_id r"
    "ids k' = project_id r # ids k"
    "\<forall>a. aget (owners k') a = (if a \<in> set (aliases r) then Some (project_id r) else aget (owners k) a)"
    "root_owners k' = aset key (project_id r) (root_owners k)"
    using check_route_clean [OF assms(2,3)] by metis
  note old = assms(1) [unfolded clean_upto_def]
  have ne: "project_id s \<noteq> []" if "s \<in> set rs" for s
  proof
    assume "project_id s = []"
    with old that have "fullmatch PROJECT_ID_RE []" by (metis sound_route_def)
    moreover have "\<not> fullmatch PROJECT_ID_RE []" by code_simp
    ultimately show False by contradiction
  qed
  have fresh: "project_id s \<noteq> project_id r" if "s \<in> set rs" for s
    using old that c(3) by (metis image_eqI)
  have al: "a \<notin> set (aliases r)" if "s \<in> set rs" "a \<in> set (aliases s)" for s a
    using old that c(5) ne [OF that(1)] fresh [OF that(1)] by metis
  have rk: "root_key F cr s \<noteq> Inr key" if "s \<in> set rs" for s
    using old that c(4) by force
  show ?thesis
    unfolding clean_upto_def
  proof (intro conjI)
    show "\<forall>s \<in> set (rs @ [r]). \<forall>a \<in> set (aliases s). aget (owners k') a = Some (project_id s)"
      using old c(7) al by auto
    show "\<forall>s \<in> set (rs @ [r]). \<exists>key. root_key F cr s = Inr key \<and> aget (root_owners k') key = Some (project_id s)"
      using old c(1,8) rk by fastforce
    show "distinct (map (root_key F cr) (rs @ [r]))" using old c(1) rk by auto
    have "project_id r \<notin> project_id ` set rs" using old c(3) by simp
    then show "distinct (map project_id (rs @ [r]))" using old by simp
  qed (use old c in auto)
qed

lemma check_errors_grow:
  assumes "foldR (check_route F cs cr) k rs = Inr k'" and "errors k' = []"
  shows "errors k = []"
  using assms
proof (induction rs arbitrary: k)
  case (Cons r rs)
  then obtain k1 where 1: "check_route F cs cr k r = Inr k1" "foldR (check_route F cs cr) k1 rs = Inr k'"
    by (auto simp: bindR_Inr_iff)
  with Cons have "errors k1 = []" by blast
  with 1(1) show ?case by (metis check_route_clean)
qed simp

lemma clean_fold:
  assumes "foldR (check_route F cs cr) k qs = Inr k'" and "errors k' = []" and "clean_upto F cs cr rs k"
  shows "clean_upto F cs cr (rs @ qs) k'"
  using assms
proof (induction qs arbitrary: k rs)
  case (Cons q qs)
  then obtain k1 where 1: "check_route F cs cr k q = Inr k1" "foldR (check_route F cs cr) k1 qs = Inr k'"
    by (auto simp: bindR_Inr_iff)
  have "errors k1 = []" using check_errors_grow [OF 1(2) Cons.prems(2)] .
  from Cons.IH [OF 1(2) Cons.prems(2) clean_step [OF Cons.prems(3) 1(1) this]] show ?case by simp
qed simp

lemma validation_unambiguous:
  assumes "validate F (make_registry rs) cs cr = Inr v" and "verdict v = ''PASS''"
  shows "distinct (map project_id rs) \<and> distinct (map (root_key F cr) rs) \<and>
    (\<forall>r \<in> set rs. sound_route F cs cr r \<and> get_route (make_registry rs) (project_id r) = Some r) \<and>
    (\<forall>r \<in> set rs. \<forall>s \<in> set rs. set (aliases r) \<inter> set (aliases s) \<noteq> {} \<longrightarrow> r = s)"
proof -
  from assms obtain k where
    "foldR (check_route F cs cr) \<lparr>errors = [], ids = [], owners = [], root_owners = []\<rparr> rs = Inr k"
    "errors k = []"
    by (auto simp: validate_def bindR_Inr_iff split: if_splits)
  from clean_fold [OF this, of "[]"] have c: "clean_upto F cs cr rs k"
    by (simp add: clean_upto_def)
  then have d: "distinct (map project_id rs)" by (simp add: clean_upto_def)
  have same: "r = s" if "r \<in> set rs" "s \<in> set rs" "project_id r = project_id s" for r s
    using d that by (simp add: distinct_map inj_on_def)
  have "get_route (make_registry rs) (project_id r) = Some r" if "r \<in> set rs" for r
  proof -
    have "find (\<lambda>s. project_id s = project_id r) rs \<noteq> None"
      using that by (auto simp: find_None_iff)
    then obtain s where s: "find (\<lambda>s. project_id s = project_id r) rs = Some s" by blast
    then have "s \<in> set rs \<and> project_id s = project_id r"
      by (auto simp: find_Some_iff)
    with s that same show ?thesis by (auto simp: get_route_make)
  qed
  moreover have "r = s" if "r \<in> set rs" "s \<in> set rs" "a \<in> set (aliases r)" "a \<in> set (aliases s)" for r s a
    using c that same unfolding clean_upto_def by (metis option.inject)
  ultimately show ?thesis using c d unfolding clean_upto_def by blast
qed

text \<open>A registry that validates with PASS identifies every project without ambiguity:
  project identifiers are well formed and distinct, every route is found under its own
  identifier, no alias belongs to two projects, no two projects have the same root, and each
  route satisfies the constraints on its own (status, startup order, required files).\<close>

theorem validated_registry_unambiguous:
  assumes "validate F (make_registry rs) cs cr = Inr v" and "verdict v = ''PASS''"
  shows "distinct (map project_id rs) \<and> distinct (map (root_key F cr) rs) \<and>
    (\<forall>r \<in> set rs. sound_route F cs cr r \<and> get_route (make_registry rs) (project_id r) = Some r) \<and>
    (\<forall>r \<in> set rs. \<forall>s \<in> set rs. set (aliases r) \<inter> set (aliases s) \<noteq> {} \<longrightarrow> r = s)"
  by (rule validation_unambiguous [OF assms])

definition example_table :: string where
  "example_table = ''| Project ID | Status |'' @ [chr 10] @ ''|-|'' @ [chr 10] @
     ''| `web-app` | web, front end | `/srv/web` | `AGENTS.md` `CONTEXT.md` `HANDOFF.md` | `HANDOFF.md` | active |'' @ [chr 10] @
     ''| `vault` | vault | `/srv/vault` | `AGENTS.md` `CONTEXT.md` `HANDOFF.md` | `HANDOFF.md` | `held` |'' @ [chr 10]"

definition example_view :: fsview where
  "example_view = \<lparr>symlinks = (\<lambda>_. None), cwd = [], dirs = (\<lambda>p. p \<in> {[''srv'', ''web''], [''srv'', ''vault'']}),
     regular = (\<lambda>p. length p = 3)\<rparr>"

definition example_routes :: "route list" where
  "example_routes = [
     \<lparr>project_id = ''web-app'', aliases = [''web'', ''front end''],
      root_path = \<lparr>anchored = True, parts = [''srv'', ''web'']\<rparr>, startup = REQUIRED_STARTUP,
      handoff = ''`HANDOFF.md`'', status = ''active''\<rparr>,
     \<lparr>project_id = ''vault'', aliases = [''vault''],
      root_path = \<lparr>anchored = True, parts = [''srv'', ''vault'']\<rparr>, startup = REQUIRED_STARTUP,
      handoff = ''`HANDOFF.md`'', status = ''held''\<rparr>]"

lemma example_table_parses:
  "parse_registry_table example_view example_table (Some (mk_path ''/srv'')) = Inr example_routes"
  by code_simp

lemma example_routes_validate:
  "validate example_view (make_registry example_routes) True True =
     Inr \<lparr>verdict = ''PASS'', route_count = 2, alias_count = 3, error_list = []\<rparr>"
  by code_simp

theorem validated_registry_unambiguous_witness:
  "distinct (map project_id example_routes) \<and>
   get_route (make_registry example_routes) ''vault'' = Some (example_routes ! 1)"
proof -
  have "example_routes ! 1 \<in> set example_routes" "project_id (example_routes ! 1) = ''vault''"
    by (simp_all add: example_routes_def)
  with validated_registry_unambiguous [OF example_routes_validate] show ?thesis by fastforce
qed

end
