(* ===== verification/Jsontext.thy ===== *)
theory Jsontext
  imports Json
begin

text \<open>
  The text of a JSON document: the canonical form \<open>canonical_json_bytes\<close> signs (sorted keys, no
  blanks, \<open>ensure_ascii=False\<close>) and the reader \<open>json.loads\<close>.

  Texts are Latin-1: an escape or an encoded byte sequence of a character beyond it has no value
  here. The float literals of a document are kept as their decimal value and their text; the
  literals \<open>NaN\<close> and \<open>Infinity\<close> have no value.
\<close>

section \<open>Writing\<close>

definition escape_char :: "char \<Rightarrow> string" where
  "escape_char c =
     (if code c = 34 then [chr 92, chr 34]
      else if code c = 92 then [chr 92, chr 92]
      else if code c = 10 then [chr 92, CHR ''n'']
      else if code c = 13 then [chr 92, CHR ''r'']
      else if code c = 9 then [chr 92, CHR ''t'']
      else if code c = 8 then [chr 92, CHR ''b'']
      else if code c = 12 then [chr 92, CHR ''f'']
      else if code c < 32
        then [chr 92, CHR ''u'', CHR ''0'', CHR ''0'', hex_digit (code c div 16), hex_digit (code c mod 16)]
      else [c])"

definition quote_str :: "string \<Rightarrow> string" where
  "quote_str s = chr 34 # concat (map escape_char s) @ [chr 34]"

function dumps :: "json \<Rightarrow> string" where
  "dumps JNull = ''null''"
| "dumps (JBool b) = (if b then ''true'' else ''false'')"
| "dumps (JInt i) = int_digits i"
| "dumps (JFloat r s) = s"
| "dumps (JStr s) = quote_str s"
| "dumps (JArr xs) = ''['' @ join '','' (map dumps xs) @ '']''"
| "dumps (JObj d) =
     ''{'' @ join '','' (map (\<lambda>p. quote_str (fst p) @ '':'' @ dumps (snd p)) (sort_key fst d)) @ ''}''"
  by pat_completeness auto
termination
proof (relation "measure size")
  fix d :: dict and p :: "string \<times> json"
  assume "p \<in> set (sort_key fst d)"
  then show "(snd p, JObj d) \<in> measure size"
    using size_dict_value [of "fst p" "snd p" d] by simp
qed (auto simp: less_Suc_eq_le size_list_estimation')

section \<open>Reading\<close>

definition is_ws :: "char \<Rightarrow> bool" where
  "is_ws c \<longleftrightarrow> code c \<in> {32, 9, 10, 13}"

definition skip_ws :: "string \<Rightarrow> string" where
  "skip_ws s = dropWhile is_ws s"

definition hex_value :: "char \<Rightarrow> nat option" where
  "hex_value c = (let n = code c in
     if 48 \<le> n \<and> n \<le> 57 then Some (n - 48)
     else if 97 \<le> n \<and> n \<le> 102 then Some (n - 87)
     else if 65 \<le> n \<and> n \<le> 70 then Some (n - 55)
     else None)"

definition hex4 :: "char \<Rightarrow> char \<Rightarrow> char \<Rightarrow> char \<Rightarrow> char option" where
  "hex4 a b c d = (case (hex_value a, hex_value b, hex_value c, hex_value d) of
      (Some w, Some x, Some y, Some z) \<Rightarrow>
        if w = 0 \<and> x = 0 then Some (chr (16 * y + z)) else None
    | _ \<Rightarrow> None)"

definition unescape :: "char \<Rightarrow> char option" where
  "unescape c =
     (if code c = 34 \<or> code c = 92 \<or> code c = 47 then Some c
      else if c = CHR ''n'' then Some (chr 10)
      else if c = CHR ''r'' then Some (chr 13)
      else if c = CHR ''t'' then Some (chr 9)
      else if c = CHR ''b'' then Some (chr 8)
      else if c = CHR ''f'' then Some (chr 12)
      else None)"

text \<open>The text of a string after its opening quote, and what follows its closing one.\<close>

fun scan_string :: "string \<Rightarrow> (string \<times> string) option" where
  "scan_string [] = None"
| "scan_string (c # cs) =
     (if code c = 34 then Some ([], cs)
      else if code c < 32 then None
      else if code c \<noteq> 92 then map_option (\<lambda>(t, r). (c # t, r)) (scan_string cs)
      else case cs of
        [] \<Rightarrow> None
      | e # es \<Rightarrow>
          if e = CHR ''u'' then
            (case es of
               w # x # y # z # r' \<Rightarrow>
                 (case hex4 w x y z of None \<Rightarrow> None
                  | Some h \<Rightarrow> map_option (\<lambda>(t, r). (h # t, r)) (scan_string r'))
             | _ \<Rightarrow> None)
          else (case unescape e of None \<Rightarrow> None
                | Some h \<Rightarrow> map_option (\<lambda>(t, r). (h # t, r)) (scan_string es)))"

definition nat_of_digits :: "string \<Rightarrow> nat" where
  "nat_of_digits ds = foldl (\<lambda>a c. a * 10 + (code c - 48)) 0 ds"

text \<open>An optional fraction and an optional exponent.\<close>

definition scan_frac :: "string \<Rightarrow> string \<times> string" where
  "scan_frac s = (case s of
      c # cs \<Rightarrow> if c = CHR ''.'' \<and> takeWhile is_digit cs \<noteq> []
        then (takeWhile is_digit cs, dropWhile is_digit cs) else ([], s)
    | [] \<Rightarrow> ([], s))"

definition scan_exp :: "string \<Rightarrow> (string \<times> string) \<times> string" where
  "scan_exp s = (case s of
      c # cs \<Rightarrow>
        if c = CHR ''e'' \<or> c = CHR ''E'' then
          (let sg = takeWhile (\<lambda>x. x = CHR ''+'' \<or> x = CHR ''-'') (take 1 cs); r = drop (length sg) cs
           in if takeWhile is_digit r \<noteq> [] then ((sg, takeWhile is_digit r), dropWhile is_digit r)
              else (([], []), s))
        else (([], []), s)
    | [] \<Rightarrow> (([], []), s))"

definition parse_number :: "string \<Rightarrow> (json \<times> string) option" where
  "parse_number s =
     (let neg = (take 1 s = ''-''); s1 = (if neg then drop 1 s else s);
          ds = takeWhile is_digit s1;
          ip = (if take 1 ds = ''0'' then ''0'' else ds); r = drop (length ip) s1
      in if ds = [] then None
         else let (fr, r1) = scan_frac r; ((sg, ex), r2) = scan_exp r1; n = nat_of_digits ip
         in if fr = [] \<and> ex = [] then Some (JInt (if neg then - int n else int n), r)
            else let m = (of_nat (nat_of_digits (ip @ fr)) :: rat) / 10 ^ length fr;
                     k = nat_of_digits ex;
                     v = (if sg = ''-'' then m / 10 ^ k else m * 10 ^ k)
                 in Some (JFloat (if neg then - v else v) (take (length s - length r2) s), r2))"

definition dict_of :: "dict \<Rightarrow> dict" where
  "dict_of ms = foldl (\<lambda>d p. aset (fst p) (snd p) d) [] ms"

fun parse_value :: "nat \<Rightarrow> string \<Rightarrow> (json \<times> string) option"
and parse_elems :: "nat \<Rightarrow> string \<Rightarrow> (json list \<times> string) option"
and parse_members :: "nat \<Rightarrow> string \<Rightarrow> (dict \<times> string) option" where
  "parse_value 0 s = None"
| "parse_value (Suc n) s = (case s of
      [] \<Rightarrow> None
    | c # cs \<Rightarrow>
        if code c = 34 then map_option (\<lambda>(t, r). (JStr t, r)) (scan_string cs)
        else if c = CHR ''{'' then
          (if take 1 (skip_ws cs) = ''}'' then Some (JObj [], drop 1 (skip_ws cs))
           else map_option (\<lambda>(ms, r). (JObj (dict_of ms), r)) (parse_members n (skip_ws cs)))
        else if c = CHR ''['' then
          (if take 1 (skip_ws cs) = '']'' then Some (JArr [], drop 1 (skip_ws cs))
           else map_option (\<lambda>(vs, r). (JArr vs, r)) (parse_elems n (skip_ws cs)))
        else if startswith s ''null'' then Some (JNull, drop 4 s)
        else if startswith s ''true'' then Some (JBool True, drop 4 s)
        else if startswith s ''false'' then Some (JBool False, drop 5 s)
        else parse_number s)"
| "parse_elems 0 s = None"
| "parse_elems (Suc n) s = (case parse_value n s of
      None \<Rightarrow> None
    | Some (v, r) \<Rightarrow> (case skip_ws r of
        [] \<Rightarrow> None
      | d # q \<Rightarrow>
          if d = CHR '','' then map_option (\<lambda>(vs, z). (v # vs, z)) (parse_elems n (skip_ws q))
          else if d = CHR '']'' then Some ([v], q) else None))"
| "parse_members 0 s = None"
| "parse_members (Suc n) s = (case s of
      [] \<Rightarrow> None
    | c # cs \<Rightarrow>
        if code c \<noteq> 34 then None
        else (case scan_string cs of
            None \<Rightarrow> None
          | Some (k, r) \<Rightarrow>
              if take 1 (skip_ws r) \<noteq> '':'' then None
              else (case parse_value n (skip_ws (drop 1 (skip_ws r))) of
                  None \<Rightarrow> None
                | Some (v, r2) \<Rightarrow> (case skip_ws r2 of
                    [] \<Rightarrow> None
                  | d # q \<Rightarrow>
                      if d = CHR '','' then map_option (\<lambda>(ms, z). ((k, v) # ms, z)) (parse_members n (skip_ws q))
                      else if d = CHR ''}'' then Some ([(k, v)], q) else None))))"

text \<open>Each call consumes a character or hands its fuel to one that does: twice the length is enough.\<close>

definition loads :: "string \<Rightarrow> json option" where
  "loads s = (case parse_value (2 * length s + 2) (skip_ws s) of
      Some (v, r) \<Rightarrow> if skip_ws r = [] then Some v else None
    | None \<Rightarrow> None)"

text \<open>\<open>b.decode("utf-8")\<close>.\<close>

fun utf8_decode :: "bytes \<Rightarrow> string option" where
  "utf8_decode [] = Some []"
| "utf8_decode (c # cs) =
     (if code c < 128 then map_option ((#) c) (utf8_decode cs)
      else case cs of
        d # ds \<Rightarrow>
          if 194 \<le> code c \<and> code c \<le> 195 \<and> 128 \<le> code d \<and> code d < 192
          then map_option ((#) (chr ((code c - 192) * 64 + (code d - 128)))) (utf8_decode ds) else None
      | [] \<Rightarrow> None)"

section \<open>Reading what was written\<close>

lemma hex_value_digit: "k < 16 \<Longrightarrow> hex_value (hex_digit k) = Some k"
  by (auto simp: hex_value_def hex_digit_def Let_def)

lemma code_CHR [simp]:
  "code (CHR ''u'') = 117" "code (CHR ''n'') = 110" "code (CHR ''r'') = 114" "code (CHR ''t'') = 116"
  "code (CHR ''b'') = 98" "code (CHR ''f'') = 102" "code (CHR ''0'') = 48" "code (CHR '','') = 44"
  "code (CHR '':'') = 58" "code (CHR ''['') = 91" "code (CHR '']'') = 93" "code (CHR ''{'') = 123"
  "code (CHR ''}'') = 125" "code (CHR ''-'') = 45" "code (CHR ''.'') = 46" "code (CHR ''e'') = 101"
  "code (CHR ''E'') = 69" "code (CHR ''+'') = 43"
  by (simp_all add: code_def)

lemma hex_value_zero: "hex_value (CHR ''0'') = Some 0"
  by (simp add: hex_value_def)

lemma chr_not_u [simp]: "chr 34 \<noteq> CHR ''u''" "chr 92 \<noteq> CHR ''u''"
  "chr 34 \<noteq> CHR '']''" "chr 34 \<noteq> CHR ''}''" "chr 34 \<noteq> CHR ''{''"
  by code_simp+

lemma scan_escape: "scan_string (escape_char c @ s) = map_option (\<lambda>(t, r). (c # t, r)) (scan_string s)"
proof -
  consider "code c = 34" | "code c = 92" | "code c = 10" | "code c = 13" | "code c = 9" | "code c = 8"
    | "code c = 12" | "code c < 32" "code c \<notin> {10, 13, 9, 8, 12}" | "32 \<le> code c" "code c \<notin> {34, 92}"
    by fastforce
  then show ?thesis
  proof cases
    case 8
    have "code c div 16 < 16" "code c mod 16 < 16" by (simp_all add: div_less_iff_less_mult)
    then have "hex4 (CHR ''0'') (CHR ''0'') (hex_digit (code c div 16)) (hex_digit (code c mod 16)) = Some c"
      by (simp add: hex4_def hex_value_zero hex_value_digit)
    with 8 show ?thesis by (auto simp: escape_char_def split: option.split)
  qed (auto simp: escape_char_def unescape_def split: option.split dest: arg_cong [where f = chr])
qed

lemma scan_quoted: "scan_string (concat (map escape_char s) @ chr 34 # rest) = Some (s, rest)"
  by (induction s) (auto simp: scan_escape)

lemma nat_of_digits_snoc: "nat_of_digits (ds @ [c]) = nat_of_digits ds * 10 + (code c - 48)"
  by (simp add: nat_of_digits_def)

lemma nat_digits_props:
  "nat_of_digits (nat_digits n) = n \<and> (\<forall>c \<in> set (nat_digits n). is_digit c) \<and> nat_digits n \<noteq> [] \<and>
   (take 1 (nat_digits n) = ''0'' \<longrightarrow> n = 0)"
proof (induction n rule: nat_digits.induct)
  case (1 n)
  show ?case
  proof (cases "n < 10")
    case True
    have "n = 0" if h: "chr (48 + n) = CHR ''0''"
    proof -
      have "code (chr (48 + n)) = code (CHR ''0'')" by (simp only: h)
      with True show ?thesis by simp
    qed
    with True show ?thesis
      by (subst (1 2 3 4) nat_digits.simps) (auto simp: nat_of_digits_def is_digit_def)
  next
    case False
    with 1 have IH: "nat_of_digits (nat_digits (n div 10)) = n div 10"
      "\<forall>c \<in> set (nat_digits (n div 10)). is_digit c" "nat_digits (n div 10) \<noteq> []"
      "take 1 (nat_digits (n div 10)) = ''0'' \<longrightarrow> n div 10 = 0"
      by blast+
    have eq: "nat_digits n = nat_digits (n div 10) @ [chr (48 + n mod 10)]"
      using False by (subst nat_digits.simps) simp
    have "48 + n mod 10 < 256" by (rule less_trans [of _ 58]) simp_all
    then have c: "code (chr (48 + n mod 10)) = 48 + n mod 10" by simp
    from False have "n div 10 \<noteq> 0" by auto
    obtain d ds where d: "nat_digits (n div 10) = d # ds" using IH(3) by (cases "nat_digits (n div 10)") auto
    with IH c \<open>n div 10 \<noteq> 0\<close> show ?thesis unfolding eq nat_of_digits_snoc
      by (auto simp: is_digit_def)
  qed
qed

definition stops :: "string \<Rightarrow> bool" where
  "stops s = (case s of [] \<Rightarrow> True | c # _ \<Rightarrow> \<not> is_digit c \<and> c \<notin> {CHR ''.'', CHR ''e'', CHR ''E''})"

lemma stops_scan: "stops s \<Longrightarrow> scan_frac s = ([], s) \<and> scan_exp s = (([], []), s)"
  by (cases s) (auto simp: stops_def scan_frac_def scan_exp_def)

lemma stops_digits:
  "stops rest \<Longrightarrow> \<forall>c \<in> set ds. is_digit c \<Longrightarrow> takeWhile is_digit (ds @ rest) = ds"
  by (cases rest) (simp_all add: stops_def takeWhile_append2)

lemma parse_digits:
  assumes "stops rest"
  shows "parse_number (nat_digits n @ rest) = Some (JInt (int n), rest)"
    and "parse_number (CHR ''-'' # nat_digits n @ rest) = Some (JInt (- int n), rest)"
proof -
  note p = nat_digits_props [of n]
  have tk: "takeWhile is_digit (nat_digits n @ rest) = nat_digits n"
    using p assms by (intro stops_digits) auto
  obtain d ds where d: "nat_digits n = d # ds" using p by (cases "nat_digits n") auto
  have z: "ds = []" if "d = CHR ''0''"
  proof -
    from that p d have "n = 0" by simp
    with d show ?thesis by (simp add: nat_digits.simps [of 0])
  qed
  have "d \<in> set (nat_digits n)" using d by simp
  with p have "is_digit d" by blast
  then have nm: "d \<noteq> CHR ''-''" by (auto simp: is_digit_def)
  show "parse_number (nat_digits n @ rest) = Some (JInt (int n), rest)"
    using tk z stops_scan [OF assms] p d nm
    by (auto simp: parse_number_def Let_def)
  show "parse_number (CHR ''-'' # nat_digits n @ rest) = Some (JInt (- int n), rest)"
    using tk z stops_scan [OF assms] p d
    by (auto simp: parse_number_def Let_def)
qed

lemma parse_int_digits: "stops rest \<Longrightarrow> parse_number (int_digits i @ rest) = Some (JInt i, rest)"
  using parse_digits [of rest "nat i"] parse_digits [of rest "nat (- i)"]
  by (auto simp: int_digits_def)

text \<open>Documents without floats whose objects have each key once; and a document with sorted keys.\<close>

function plain_json :: "json \<Rightarrow> bool" where
  "plain_json (JFloat r s) = False"
| "plain_json (JArr xs) = (\<forall>x \<in> set xs. plain_json x)"
| "plain_json (JObj d) = (distinct (map fst d) \<and> (\<forall>p \<in> set d. plain_json (snd p)))"
| "plain_json JNull = True"
| "plain_json (JBool b) = True"
| "plain_json (JInt i) = True"
| "plain_json (JStr s) = True"
  by pat_completeness auto
termination
proof (relation "measure size")
  show "(snd p, JObj d) \<in> measure size" if "p \<in> set d" for d and p :: "string \<times> json"
    using that size_dict_value [of "fst p" "snd p" d] by simp
qed (auto simp: less_Suc_eq_le size_list_estimation')

function sorted_json :: "json \<Rightarrow> json" where
  "sorted_json (JArr xs) = JArr (map sorted_json xs)"
| "sorted_json (JObj d) = JObj (map (\<lambda>p. (fst p, sorted_json (snd p))) (sort_key fst d))"
| "sorted_json JNull = JNull"
| "sorted_json (JBool b) = JBool b"
| "sorted_json (JInt i) = JInt i"
| "sorted_json (JFloat r s) = JFloat r s"
| "sorted_json (JStr s) = JStr s"
  by pat_completeness auto
termination
proof (relation "measure size")
  show "(snd p, JObj d) \<in> measure size" if "p \<in> set (sort_key fst d)" for d and p :: "string \<times> json"
    using that size_dict_value [of "fst p" "snd p" d] by simp
qed (auto simp: less_Suc_eq_le size_list_estimation')

lemma aget_sort: "distinct (map fst d) \<Longrightarrow> aget (sort_key fst d) k = aget d k"
proof -
  assume "distinct (map fst d)"
  moreover have "distinct (map fst (sort_key fst d))"
    using \<open>distinct (map fst d)\<close> by (simp add: distinct_map)
  ultimately have "aget (sort_key fst d) k = Some v \<longleftrightarrow> aget d k = Some v" for v
    by (simp add: map_of_eq_Some_iff)
  then show ?thesis by (metis option.exhaust)
qed

lemma aget_map_snd: "aget (map (\<lambda>p. (fst p, f (snd p))) d) k = map_option f (aget d k)"
  by (induction d) auto

lemma dget_sorted:
  "plain_json (JObj d) \<Longrightarrow> dget (map (\<lambda>p. (fst p, sorted_json (snd p))) (sort_key fst d)) k = sorted_json (dget d k)"
  by (simp add: dget_def aget_map_snd aget_sort split: option.split)

lemma dict_of_distinct: "distinct (map fst ms) \<Longrightarrow> dict_of ms = ms"
proof -
  have "foldl (\<lambda>d p. aset (fst p) (snd p) d) acc ms = acc @ ms"
    if "distinct (map fst ms)" "fst ` set ms \<inter> fst ` set acc = {}" for acc and ms :: dict
    using that
  proof (induction ms arbitrary: acc)
    case (Cons p ms)
    have "aset (fst p) (snd p) acc = acc @ [p]" using Cons.prems(2) by (induction acc) auto
    with Cons show ?case by auto
  qed simp
  then show "distinct (map fst ms) \<Longrightarrow> dict_of ms = ms" by (simp add: dict_of_def)
qed

lemma dumps_head:
  assumes "plain_json v"
  obtains c cs where "dumps v = c # cs" "\<not> is_ws c" "c \<noteq> CHR '']''" "c \<noteq> CHR ''}''"
proof -
  have digits: "\<exists>c cs. nat_digits n = c # cs \<and> is_digit c" for n
    using nat_digits_props [of n] by (cases "nat_digits n") auto
  have "\<exists>c cs. dumps v = c # cs \<and> \<not> is_ws c \<and> c \<noteq> CHR '']'' \<and> c \<noteq> CHR ''}''"
    using assms
  proof (cases v)
    case (JInt i)
    obtain c cs where "nat_digits (nat i) = c # cs" "is_digit c" using digits by blast
    with JInt show ?thesis
      by (cases "i < 0") (auto simp: int_digits_def is_ws_def is_digit_def)
  qed (auto simp: is_ws_def quote_str_def)
  then show thesis using that by blast
qed

lemma skip_ws_nonws [simp]: "\<not> is_ws c \<Longrightarrow> skip_ws (c # cs) = c # cs"
  by (simp add: skip_ws_def)

lemma skip_ws_dumps: "plain_json v \<Longrightarrow> skip_ws (dumps v @ s) = dumps v @ s"
  by (erule dumps_head) simp

lemma is_ws_syntax [simp]:
  "\<not> is_ws (CHR '','')" "\<not> is_ws (CHR '']'')" "\<not> is_ws (CHR ''}'')" "\<not> is_ws (CHR '':'')" "\<not> is_ws (chr 34)"
  by (simp_all add: is_ws_def)

definition reads :: "json \<Rightarrow> bool" where
  "reads v \<longleftrightarrow> (\<forall>n s. stops s \<and> 2 * length (dumps v) < n \<longrightarrow> parse_value n (dumps v @ s) = Some (sorted_json v, s))"

lemma stops_syntax [simp]: "stops (CHR '','' # s)" "stops (CHR '']'' # s)" "stops (CHR ''}'' # s)" "stops []"
  by (simp_all add: stops_def is_digit_def)

lemma parse_elems_dumps:
  assumes "xs \<noteq> []" and "\<forall>x \<in> set xs. reads x \<and> plain_json x"
    and "2 * length (join '','' (map dumps xs)) + 1 < n"
  shows "parse_elems n (join '','' (map dumps xs) @ CHR '']'' # s) = Some (map sorted_json xs, s)"
  using assms
proof (induction xs arbitrary: n)
  case (Cons x xs)
  obtain m where n: "n = Suc m" using Cons.prems(3) by (cases n) auto
  show ?case
  proof (cases "xs = []")
    case True
    with Cons.prems n have "parse_value m (dumps x @ CHR '']'' # s) = Some (sorted_json x, CHR '']'' # s)"
      by (simp add: reads_def)
    with True n show ?thesis by simp
  next
    case False
    let ?t = "join '','' (map dumps xs) @ CHR '']'' # s"
    have j: "join '','' (map dumps (x # xs)) = dumps x @ '','' @ join '','' (map dumps xs)"
      using False by (simp add: join_Cons)
    have len: "2 * length (dumps x) < m" "2 * length (join '','' (map dumps xs)) + 1 < m"
      using Cons.prems(3) unfolding j n by simp_all
    have "parse_value m (dumps x @ CHR '','' # ?t) = Some (sorted_json x, CHR '','' # ?t)"
      using Cons.prems(2) len(1) by (simp add: reads_def)
    moreover have "parse_elems m ?t = Some (map sorted_json xs, s)"
      using Cons.IH [OF False _ len(2)] Cons.prems(2) by simp
    moreover have "skip_ws ?t = ?t"
    proof -
      obtain y ys where "xs = y # ys" using False by (cases xs) auto
      moreover have "plain_json y" using Cons.prems(2) calculation by simp
      ultimately show ?thesis
        by (cases ys) (simp_all add: skip_ws_dumps join_Cons)
    qed
    ultimately show ?thesis unfolding j n by simp
  qed
qed simp

definition member_text :: "string \<times> json \<Rightarrow> string" where
  "member_text p = quote_str (fst p) @ '':'' @ dumps (snd p)"

lemma parse_members_dumps:
  assumes "ms \<noteq> []" and "\<forall>p \<in> set ms. reads (snd p) \<and> plain_json (snd p)"
    and "2 * length (join '','' (map member_text ms)) + 1 < n"
  shows "parse_members n (join '','' (map member_text ms) @ CHR ''}'' # s) =
    Some (map (\<lambda>p. (fst p, sorted_json (snd p))) ms, s)"
  using assms
proof (induction ms arbitrary: n)
  case (Cons p ms)
  obtain m where n: "n = Suc m" using Cons.prems(3) by (cases n) auto
  have one: "scan_string (concat (map escape_char (fst p)) @ chr 34 # u) = Some (fst p, u)" for u
    by (rule scan_quoted)
  have q: "member_text p @ u = chr 34 # concat (map escape_char (fst p)) @ chr 34 # CHR '':'' # dumps (snd p) @ u" for u
    by (simp add: member_text_def quote_str_def)
  have lq: "length (dumps (snd p)) \<le> length (member_text p)" by (simp add: member_text_def)
  have pl: "skip_ws (dumps (snd p) @ u) = dumps (snd p) @ u" for u
    using Cons.prems(2) by (simp add: skip_ws_dumps)
  show ?case
  proof (cases "ms = []")
    case True
    with Cons.prems n lq have "parse_value m (dumps (snd p) @ CHR ''}'' # s) = Some (sorted_json (snd p), CHR ''}'' # s)"
      by (simp add: reads_def)
    with True n show ?thesis by (simp add: q one pl)
  next
    case False
    let ?t = "join '','' (map member_text ms) @ CHR ''}'' # s"
    have j: "join '','' (map member_text (p # ms)) = member_text p @ '','' @ join '','' (map member_text ms)"
      using False by (simp add: join_Cons)
    have len: "2 * length (dumps (snd p)) < m" "2 * length (join '','' (map member_text ms)) + 1 < m"
      using Cons.prems(3) lq unfolding j n by simp_all
    have "parse_value m (dumps (snd p) @ CHR '','' # ?t) = Some (sorted_json (snd p), CHR '','' # ?t)"
      using Cons.prems(2) len(1) by (simp add: reads_def)
    moreover have "parse_members m ?t = Some (map (\<lambda>p. (fst p, sorted_json (snd p))) ms, s)"
      using Cons.IH [OF False _ len(2)] Cons.prems(2) by simp
    moreover have "skip_ws ?t = ?t"
    proof -
      obtain y ys where "ms = y # ys" using False by (cases ms) auto
      then show ?thesis
        by (cases ys) (simp_all add: join_Cons member_text_def quote_str_def)
    qed
    ultimately show ?thesis unfolding j n by (simp add: q one pl)
  qed
qed simp

lemma dumps_obj: "dumps (JObj d) = ''{'' @ join '','' (map member_text (sort_key fst d)) @ ''}''"
  by (simp add: member_text_def [abs_def])

lemma reads_plain: "plain_json v \<Longrightarrow> reads v"
proof (induction "size v" arbitrary: v rule: less_induct)
  case less
  show ?case
    unfolding reads_def
  proof (intro allI impI)
    fix n s
    assume a: "stops s \<and> 2 * length (dumps v) < n"
    then obtain m where n: "n = Suc m" by (cases n) auto
    show "parse_value n (dumps v @ s) = Some (sorted_json v, s)"
    proof (cases v)
      case (JInt i)
      obtain c cs where c: "int_digits i = c # cs" "is_digit c \<or> c = CHR ''-''"
        using nat_digits_props [of "nat i"]
        by (cases "i < 0"; cases "nat_digits (nat i)") (auto simp: int_digits_def)
      then have "code c \<noteq> 34" "c \<noteq> CHR ''{''" "c \<noteq> CHR ''[''" "c \<noteq> CHR ''n''" "c \<noteq> CHR ''t''" "c \<noteq> CHR ''f''"
        by (auto simp: is_digit_def)
      with a c n JInt parse_int_digits [of s i] show ?thesis by simp
    next
      case (JArr xs)
      show ?thesis
      proof (cases "xs = []")
        case True
        with JArr n show ?thesis by simp
      next
        case False
        have all: "\<forall>x \<in> set xs. reads x \<and> plain_json x"
        proof
          fix x
          assume "x \<in> set xs"
          then have "size x < size v" using JArr by (simp add: less_Suc_eq_le size_list_estimation')
          moreover have "plain_json x" using less.prems JArr \<open>x \<in> set xs\<close> by simp
          ultimately show "reads x \<and> plain_json x" using less.hyps by blast
        qed
        obtain y ys where y: "xs = y # ys" using False by (cases xs) auto
        with all obtain c cs where "dumps y = c # cs" "\<not> is_ws c" "c \<noteq> CHR '']''"
          using dumps_head by (metis list.set_intros(1))
        with y have h: "take 1 (skip_ws (join '','' (map dumps xs) @ CHR '']'' # s)) \<noteq> '']''"
          "skip_ws (join '','' (map dumps xs) @ CHR '']'' # s) = join '','' (map dumps xs) @ CHR '']'' # s"
          by (cases ys; simp add: join_Cons)+
        have "parse_elems m (join '','' (map dumps xs) @ CHR '']'' # s) = Some (map sorted_json xs, s)"
          using a n JArr by (intro parse_elems_dumps False all) simp
        with h n JArr show ?thesis by simp
      qed
    next
      case (JObj d)
      let ?ms = "sort_key fst d"
      show ?thesis
      proof (cases "d = []")
        case True
        with JObj n show ?thesis by simp
      next
        case False
        then have ne: "?ms \<noteq> []" by (metis length_0_conv length_sort)
        have all: "\<forall>p \<in> set ?ms. reads (snd p) \<and> plain_json (snd p)"
        proof
          fix p
          assume "p \<in> set ?ms"
          then have p: "p \<in> set d" by simp
          then have "size (snd p) < size v"
            using JObj size_dict_value [of "fst p" "snd p" d] by simp
          moreover have "plain_json (snd p)" using less.prems JObj p by simp
          ultimately show "reads (snd p) \<and> plain_json (snd p)" using less.hyps by blast
        qed
        obtain y ys where y: "?ms = y # ys" using ne by (cases ?ms) auto
        then have h: "take 1 (skip_ws (join '','' (map member_text ?ms) @ CHR ''}'' # s)) \<noteq> ''}''"
          "skip_ws (join '','' (map member_text ?ms) @ CHR ''}'' # s) = join '','' (map member_text ?ms) @ CHR ''}'' # s"
          by (cases ys; simp add: join_Cons member_text_def quote_str_def)+
        have "parse_members m (join '','' (map member_text ?ms) @ CHR ''}'' # s) =
            Some (map (\<lambda>p. (fst p, sorted_json (snd p))) ?ms, s)"
          using a [unfolded JObj dumps_obj] n by (intro parse_members_dumps ne all) simp
        moreover have "dict_of (map (\<lambda>p. (fst p, sorted_json (snd p))) ?ms) =
            map (\<lambda>p. (fst p, sorted_json (snd p))) ?ms"
          using less.prems JObj by (intro dict_of_distinct) (simp add: distinct_map comp_def)
        ultimately show ?thesis using h n JObj unfolding JObj dumps_obj by simp
      qed
    next
      case (JStr t)
      with n show ?thesis by (simp add: quote_str_def scan_quoted)
    next
      case (JBool b)
      with n show ?thesis by simp
    qed (use less.prems n in simp_all)
  qed
qed

lemma loads_dumps: "plain_json v \<Longrightarrow> loads (dumps v) = Some (sorted_json v)"
proof -
  assume p: "plain_json v"
  have "stops [] \<and> 2 * length (dumps v) < 2 * length (dumps v) + 2" by simp
  with reads_plain [OF p] have "parse_value (2 * length (dumps v) + 2) (dumps v @ []) = Some (sorted_json v, [])"
    unfolding reads_def by blast
  moreover have "skip_ws (dumps v) = dumps v" using skip_ws_dumps [OF p, of "[]"] by simp
  ultimately show ?thesis by (simp only: loads_def append_Nil2) (simp add: skip_ws_def)
qed

lemma utf8_decode_utf8: "utf8_decode (utf8 s) = Some s"
proof (induction s)
  case (Cons c s)
  show ?case
  proof (cases "code c < 128")
    case True
    with Cons show ?thesis by (simp add: utf8_def)
  next
    case False
    have b: "code c div 64 < 4" "code c mod 64 < 64" by (simp_all add: div_less_iff_less_mult)
    have "2 \<le> code c div 64" using False by simp
    with b have "code (chr (192 + code c div 64)) = 192 + code c div 64"
      "code (chr (128 + code c mod 64)) = 128 + code c mod 64" by simp_all
    with Cons False b \<open>2 \<le> code c div 64\<close> show ?thesis by (simp add: utf8_def)
  qed
qed (simp add: utf8_def)

end
