(* ===== verification/Base64.thy ===== *)
theory Base64
  imports Pystr
begin

text \<open>
  The base64 functions of \<open>src/jvc/policy/authority.py\<close>: \<open>_b64\<close> and \<open>_unb64\<close>, with the standard
  library's encoder and decoder. The decoder is the one of \<open>binascii.a2b_base64\<close> without strict
  mode: characters outside the alphabet are skipped, padding ends the text once it completes a
  group, and an unfinished group is an error. \<open>urlsafe_b64decode\<close> reads the two alphabets.
\<close>

definition b64_alphabet :: string where
  "b64_alphabet = ''ABCDEFGHIJKLMNOPQRSTUVWXYZabcdefghijklmnopqrstuvwxyz0123456789-_''"

definition b64_char :: "nat \<Rightarrow> char" where
  "b64_char i = b64_alphabet ! i"

definition b64_value :: "char \<Rightarrow> nat option" where
  "b64_value c = (let n = code c in
     if is_upper_az c then Some (n - 65)
     else if is_lower_az c then Some (n - 71)
     else if is_digit c then Some (n + 4)
     else if c = CHR ''-'' \<or> c = CHR ''+'' then Some 62
     else if c = CHR ''_'' \<or> c = CHR ''/'' then Some 63
     else None)"

fun urlsafe_b64encode :: "bytes \<Rightarrow> string" where
  "urlsafe_b64encode [] = []"
| "urlsafe_b64encode [a] =
     [b64_char (code a div 4), b64_char (code a mod 4 * 16), CHR ''='', CHR ''='']"
| "urlsafe_b64encode [a, b] =
     [b64_char (code a div 4), b64_char (code a mod 4 * 16 + code b div 16),
      b64_char (code b mod 16 * 4), CHR ''='']"
| "urlsafe_b64encode (a # b # c # rest) =
     [b64_char (code a div 4), b64_char (code a mod 4 * 16 + code b div 16),
      b64_char (code b mod 16 * 4 + code c div 64), b64_char (code c mod 64)] @ urlsafe_b64encode rest"

fun a2b :: "nat \<Rightarrow> nat \<Rightarrow> nat \<Rightarrow> string \<Rightarrow> bytes option" where
  "a2b quad left pads [] = (if quad = 0 then Some [] else None)"
| "a2b quad left pads (c # cs) =
     (if c = CHR ''='' then
        (if 2 \<le> quad \<and> 4 \<le> quad + Suc pads then Some []
         else a2b quad left (if 2 \<le> quad then Suc pads else pads) cs)
      else case b64_value c of
        None \<Rightarrow> a2b quad left pads cs
      | Some v \<Rightarrow>
          if quad = 0 then a2b 1 v 0 cs
          else if quad = 1 then map_option ((#) (chr (left * 4 + v div 16))) (a2b 2 (v mod 16) 0 cs)
          else if quad = 2 then map_option ((#) (chr (left * 16 + v div 4))) (a2b 3 (v mod 4) 0 cs)
          else map_option ((#) (chr (left * 64 + v))) (a2b 0 0 0 cs))"

definition urlsafe_b64decode :: "string \<Rightarrow> bytes option" where
  "urlsafe_b64decode s = (if \<exists>c \<in> set s. 128 \<le> code c then None else a2b 0 0 0 s)"

definition b64 :: "bytes \<Rightarrow> string" where
  "b64 data = rstrip (\<lambda>c. c = CHR ''='') (urlsafe_b64encode data)"

definition unb64 :: "string \<Rightarrow> bytes option" where
  "unb64 value = urlsafe_b64decode (value @ replicate ((4 - length value mod 4) mod 4) CHR ''='')"

section \<open>Encoding and decoding\<close>

definition good_char :: "nat \<Rightarrow> bool" where
  "good_char i \<longleftrightarrow> b64_value (b64_char i) = Some i \<and> b64_char i \<noteq> CHR ''='' \<and> code (b64_char i) < 128 \<and>
     b64_char i \<noteq> CHR ''.''"

lemma good_char: "i < 64 \<Longrightarrow> good_char i"
proof -
  assume "i < 64"
  have "\<forall>i \<in> set [0..<64]. good_char i" by code_simp
  with \<open>i < 64\<close> show ?thesis by simp
qed

lemma good_charD:
  "i < 64 \<Longrightarrow> b64_value (b64_char i) = Some i" "i < 64 \<Longrightarrow> b64_char i \<noteq> CHR ''=''"
  "i < 64 \<Longrightarrow> code (b64_char i) < 128" "i < 64 \<Longrightarrow> b64_char i \<noteq> CHR ''.''"
  using good_char by (auto simp: good_char_def)

lemma code_parts [simp]:
  "code a div 4 < 64" "code a div 16 < 16" "code a div 64 < 4"
  by (simp_all add: div_less_iff_less_mult)

lemma code_split [simp]:
  "code b div 16 div 16 = 0" "code b div 16 mod 16 = code b div 16"
  "code c div 64 div 4 = 0" "code c div 64 mod 4 = code c div 64"
  by simp_all

lemma sextets:
  "code a mod 4 * 16 + code b div 16 < 64" "code b mod 16 * 4 + code c div 64 < 64"
  "code c mod 64 < 64" "code a mod 4 * 16 < 64" "code b mod 16 * 4 < 64"
proof -
  have "code a mod 4 < 4" "code b div 16 < 16" "code b mod 16 < 16" "code c div 64 < 4" by simp_all
  then show "code a mod 4 * 16 + code b div 16 < 64" "code b mod 16 * 4 + code c div 64 < 64"
    "code c mod 64 < 64" "code a mod 4 * 16 < 64" "code b mod 16 * 4 < 64"
    by linarith+
qed

text \<open>The encoding without its padding.\<close>

fun sextets_of :: "bytes \<Rightarrow> nat list" where
  "sextets_of [] = []"
| "sextets_of [a] = [code a div 4, code a mod 4 * 16]"
| "sextets_of [a, b] = [code a div 4, code a mod 4 * 16 + code b div 16, code b mod 16 * 4]"
| "sextets_of (a # b # c # rest) =
     [code a div 4, code a mod 4 * 16 + code b div 16, code b mod 16 * 4 + code c div 64, code c mod 64]
       @ sextets_of rest"

lemma sextets_of_less: "i \<in> set (sextets_of d) \<Longrightarrow> i < 64"
  by (induction d rule: sextets_of.induct) (auto simp: sextets)

definition padding :: "nat \<Rightarrow> string" where
  "padding n = replicate ((4 - n mod 4) mod 4) CHR ''=''"

lemma small_padding:
  "padding 0 = []" "padding (Suc (Suc 0)) = ''==''" "padding (Suc (Suc (Suc 0))) = ''=''"
  by code_simp+

lemma encode_sextets:
  "urlsafe_b64encode d = map b64_char (sextets_of d) @ padding (length (sextets_of d))"
proof (induction d rule: sextets_of.induct)
  case (4 a b c rest)
  have "padding (Suc (Suc (Suc (Suc n)))) = padding n" for n
    by (simp add: padding_def)
  with 4 show ?case by simp
qed (simp_all add: small_padding)

lemma b64_sextets: "b64 d = map b64_char (sextets_of d)"
proof -
  have "rstrip (\<lambda>c. c = CHR ''='') (s @ replicate n CHR ''='') = s" if "CHR ''='' \<notin> set s" for s n
  proof -
    have "dropWhile (\<lambda>c. c = CHR ''='') (rev s) = rev s"
      using that by (cases s rule: rev_cases) auto
    moreover have "dropWhile (\<lambda>c. c = CHR ''='') (replicate n CHR ''='' @ rev s) = dropWhile (\<lambda>c. c = CHR ''='') (rev s)"
      by (induction n) auto
    ultimately show ?thesis by (simp add: rstrip_def)
  qed
  moreover have "CHR ''='' \<notin> set (map b64_char (sextets_of d))"
    using sextets_of_less good_charD(2) by force
  ultimately show ?thesis by (simp add: b64_def encode_sextets padding_def)
qed

lemma a2b_encode: "a2b 0 0 0 (urlsafe_b64encode d) = Some d"
proof (induction d rule: urlsafe_b64encode.induct)
  case (2 a)
  then show ?case by (simp add: good_charD sextets)
next
  case (3 a b)
  then show ?case by (simp add: good_charD sextets)
next
  case (4 a b c rest)
  then show ?case by (simp add: good_charD sextets)
qed simp

lemma unb64_b64: "unb64 (b64 d) = Some d"
proof -
  have e: "b64 d @ replicate ((4 - length (b64 d) mod 4) mod 4) CHR ''='' = urlsafe_b64encode d"
    by (simp add: b64_sextets encode_sextets padding_def)
  have "\<forall>c \<in> set (urlsafe_b64encode d). code c < 128"
    using sextets_of_less good_charD(3)
    by (auto simp: encode_sextets padding_def code_def)
  then show ?thesis
    unfolding unb64_def e urlsafe_b64decode_def by (auto simp: a2b_encode not_le)
qed

lemma b64_no_dot: "CHR ''.'' \<notin> set (b64 d)"
  using sextets_of_less good_charD(4) by (force simp: b64_sextets)

lemma b64_ascii: "c \<in> set (b64 d) \<Longrightarrow> code c < 128"
  using sextets_of_less good_charD(3) by (auto simp: b64_sextets)

end
