(* ===== verification/Authority.thy ===== *)
theory Authority
  imports Jsontext Base64 Store Boundaries
begin

text \<open>
  \<open>src/jvc/policy/authority.py\<close>: operator keys, signed capabilities, confirmation requests, the
  single-use consumption of a capability, and trusted executables.

  \<open>H\<close> is the hexadecimal SHA-256 and \<open>mac\<close> the hexadecimal HMAC-SHA256 of the standard library
  (key, message). The confirmation store is a record of its two directories: the pending
  proposals by identifier, each with what reading and parsing its file gives, and the consumed
  nonces by hash. The three flags say which file operation the operating system refuses.
\<close>

type_synonym mac = "bytes \<Rightarrow> bytes \<Rightarrow> string"

section \<open>Operator keys\<close>

definition OPERATOR_KEY_BYTES :: nat where
  "OPERATOR_KEY_BYTES = 32"

definition validate_operator_key :: "bytes \<Rightarrow> bytes result" where
  "validate_operator_key secret =
     (if length secret \<noteq> OPERATOR_KEY_BYTES then Inl ValueError
      else if secret = replicate OPERATOR_KEY_BYTES (chr 0) then Inl ValueError
      else Inr secret)"

text \<open>\<open>bytes.fromhex\<close>: blanks may stand between the pairs.\<close>

fun fromhex :: "string \<Rightarrow> bytes option" where
  "fromhex [] = Some []"
| "fromhex (a # cs) =
     (if is_space a then fromhex cs
      else case cs of
        b # ds \<Rightarrow> (case (hex_value a, hex_value b) of
            (Some x, Some y) \<Rightarrow> map_option ((#) (chr (16 * x + y))) (fromhex ds)
          | _ \<Rightarrow> None)
      | [] \<Rightarrow> None)"

definition load_operator_secret_from_env :: "string \<Rightarrow> (string, string) alist \<Rightarrow> bytes result" where
  "load_operator_secret_from_env var environ =
     (let text = strip_ws (case aget environ var of None \<Rightarrow> '''' | Some v \<Rightarrow> v) in
      if length text \<noteq> 64 then Inl ValueError
      else case fromhex text of None \<Rightarrow> Inl ValueError | Some secret \<Rightarrow> validate_operator_key secret)"

text \<open>The placement of a key: refused inside any governed root.\<close>

fun outside_roots :: "links \<Rightarrow> path \<Rightarrow> path list \<Rightarrow> unit result" where
  "outside_roots L resolved [] = Inr ()"
| "outside_roots L resolved (groot # rest) =
     (case resolve L groot of
        None \<Rightarrow> Inl RuntimeError
      | Some base \<Rightarrow> if relative_to resolved base \<noteq> None then Inl ValueError
                     else outside_roots L resolved rest)"

definition resolved_path :: "links \<Rightarrow> path \<Rightarrow> path result" where
  "resolved_path L p = (case resolve L p of None \<Rightarrow> Inl RuntimeError | Some q \<Rightarrow> Inr q)"

text \<open>
  \<open>key\<close> is what \<open>secrets.token_bytes\<close> gives and \<open>synced\<close> whether the file could be synced; the
  hardening of the permissions is reported and changes nothing here.
\<close>

definition generate_operator_key ::
    "links \<Rightarrow> path \<Rightarrow> path list \<Rightarrow> bool \<Rightarrow> bytes \<Rightarrow> bool \<Rightarrow> (world, bytes) M" where
  "generate_operator_key L output_path forbidden_roots overwrite key synced =
     bindM (readM (\<lambda>_. resolved_path L output_path)) (\<lambda>resolved.
     bindM (readM (\<lambda>_. outside_roots L resolved forbidden_roots)) (\<lambda>_.
     bindM (readM (\<lambda>w. Inr (path_exists (path_str resolved) w))) (\<lambda>present.
     if present \<and> \<not> overwrite then raise FileExistsError
     else bindM (write_bytes (path_str resolved) key) (\<lambda>_.
          if synced then ret key else raise PersistenceError))))"

definition rotate_operator_key ::
    "links \<Rightarrow> path \<Rightarrow> path list \<Rightarrow> bytes \<Rightarrow> bool \<Rightarrow> (world, bytes) M" where
  "rotate_operator_key L output_path forbidden_roots key synced =
     bindM (readM (\<lambda>_. resolved_path L output_path)) (\<lambda>resolved.
     bindM (readM (\<lambda>w. Inr (is_file (path_str resolved) w))) (\<lambda>present.
     if \<not> present then raise FileNotFoundError
     else bindM (readM (\<lambda>_. outside_roots L resolved forbidden_roots)) (\<lambda>_.
          if \<not> synced then raise PersistenceError
          else bindM (write_bytes (path_str resolved) key) (\<lambda>_. ret key))))"

section \<open>Capabilities\<close>

definition canonical_json_bytes :: "json \<Rightarrow> bytes" where
  "canonical_json_bytes v = utf8 (dumps v)"

definition sign_capability :: "mac \<Rightarrow> dict \<Rightarrow> bytes \<Rightarrow> string result" where
  "sign_capability mac claims secret =
     bindR (validate_operator_key secret) (\<lambda>secret.
     let body = b64 (canonical_json_bytes (JObj claims)) in
     Inr (body @ ''.'' @ mac secret (utf8 body)))"

text \<open>\<open>compare_digest\<close> refuses text beyond ASCII with \<open>TypeError\<close>.\<close>

definition decode_and_verify_capability :: "mac \<Rightarrow> string \<Rightarrow> bytes \<Rightarrow> dict result" where
  "decode_and_verify_capability mac token secret =
     bindR (validate_operator_key secret) (\<lambda>secret.
     case split_once ''.'' token of
       None \<Rightarrow> Inl PermissionError
     | Some (body, sig) \<Rightarrow>
         if \<exists>c \<in> set sig. 128 \<le> code c then Inl TypeError
         else if mac secret (utf8 body) \<noteq> sig then Inl PermissionError
         else (case unb64 body of
             None \<Rightarrow> Inl PermissionError
           | Some raw \<Rightarrow> (case utf8_decode raw of
               None \<Rightarrow> Inl PermissionError
             | Some text \<Rightarrow> (case loads text of
                 Some (JObj d) \<Rightarrow> Inr d
               | _ \<Rightarrow> Inl PermissionError))))"

section \<open>The confirmation store\<close>

record trust =
  pending :: "(string, rdoc) alist"
  consumed :: "(string, dict) alist"
  clock :: int
  conf_ids :: "nat \<Rightarrow> string"
  nonce_draws :: "nat \<Rightarrow> string"
  minted :: nat
  write_fails :: bool
  sync_fails :: bool
  unlink_fails :: bool

definition upper_or_empty :: "string option \<Rightarrow> string" where
  "upper_or_empty v = upper (case v of None \<Rightarrow> '''' | Some s \<Rightarrow> s)"

definition confirmation_record ::
    "hash \<Rightarrow> string \<Rightarrow> string \<Rightarrow> string \<Rightarrow> string \<Rightarrow> dict \<Rightarrow> string option \<Rightarrow> string \<Rightarrow> string \<Rightarrow> int \<Rightarrow> trust \<Rightarrow> dict" where
  "confirmation_record H cid pid operation target payload preimage cls reason ttl t =
     [(''confirmation_id'', JStr cid),
      (''project_id'', JStr pid),
      (''operation'', JStr operation),
      (''target'', JStr target),
      (''payload_sha256'', JStr (H (canonical_json_bytes (JObj payload)))),
      (''expected_preimage_sha256'', JStr (upper_or_empty preimage)),
      (''nonce'', JStr (nonce_draws t (minted t))),
      (''created_at'', JInt (clock t)),
      (''expires_at'', JInt (clock t + ttl)),
      (''confirmation_class'', JStr cls),
      (''reason'', JStr reason)]"

definition create_confirmation_request ::
    "hash \<Rightarrow> string \<Rightarrow> string \<Rightarrow> string \<Rightarrow> dict \<Rightarrow> string option \<Rightarrow> string \<Rightarrow> string \<Rightarrow> int \<Rightarrow> (trust, dict) M" where
  "create_confirmation_request H pid operation target payload preimage cls reason ttl = (\<lambda>t.
     let cid = ''conf_'' @ conf_ids t (minted t);
         record = confirmation_record H cid pid operation target payload preimage cls reason ttl t;
         t' = t\<lparr>minted := Suc (minted t)\<rparr>
     in if write_fails t then (Inl OSError, t')
        else if sync_fails t then (Inl PersistenceError, t')
        else (Inr [(''status'', JStr ''REQUIRES_CONFIRMATION''), (''op_class'', JStr ''MUTATION_GATED''),
                   (''confirmation_id'', JStr cid), (''project_id'', JStr pid),
                   (''operation'', JStr operation), (''target'', JStr target),
                   (''confirmation_class'', JStr cls), (''reason'', JStr reason),
                   (''proposed_payload'', JObj payload), (''expires_at'', JInt (clock t + ttl))],
              t'\<lparr>pending := aset cid (Doc (JObj record)) (pending t)\<rparr>))"

text \<open>\<open>int(v)\<close>: a text may have blanks around it, a sign, and single underscores between digits.\<close>

definition digits_ok :: "string \<Rightarrow> bool" where
  "digits_ok s \<longleftrightarrow> (\<forall>g \<in> set (split_on CHR ''_'' s). g \<noteq> [] \<and> (\<forall>c \<in> set g. is_digit c))"

definition int_of_text :: "string \<Rightarrow> int result" where
  "int_of_text raw =
     (let s = strip_ws raw; neg = (take 1 s = ''-'');
          body = (if neg \<or> take 1 s = ''+'' then drop 1 s else s);
          n = int (nat_of_digits (filter is_digit body))
      in if digits_ok body then Inr (if neg then - n else n) else Inl ValueError)"

definition py_int :: "json \<Rightarrow> int result" where
  "py_int v = (case v of
      JInt i \<Rightarrow> Inr i
    | JBool b \<Rightarrow> Inr (if b then 1 else 0)
    | JFloat r s \<Rightarrow> Inr (if r < 0 then - \<lfloor>- r\<rfloor> else \<lfloor>r\<rfloor>)
    | JStr s \<Rightarrow> int_of_text s
    | _ \<Rightarrow> Inl TypeError)"

text \<open>
  The exclusive creation of the consumed record: refused when it exists or cannot be created.
  A record that cannot be written stays as it is; one that cannot be synced is removed again
  when the operating system allows it.
\<close>

definition record_nonce :: "string \<Rightarrow> dict \<Rightarrow> (trust, bool) M" where
  "record_nonce h entry = (\<lambda>t.
     if aget (consumed t) h \<noteq> None then (Inr False, t)
     else if write_fails t then (Inr False, t\<lparr>consumed := aset h entry (consumed t)\<rparr>)
     else if sync_fails t then
       (Inr False, if unlink_fails t then t\<lparr>consumed := aset h entry (consumed t)\<rparr> else t)
     else (Inr True, t\<lparr>consumed := aset h entry (consumed t)\<rparr>))"

definition drop_proposal :: "string \<Rightarrow> (trust, unit) M" where
  "drop_proposal cid = (\<lambda>t. (Inr (), if unlink_fails t then t else t\<lparr>pending := adel cid (pending t)\<rparr>))"

text \<open>The claims an authorization must carry, in the order they are compared.\<close>

definition expected_claims ::
    "hash \<Rightarrow> string \<Rightarrow> string \<Rightarrow> string \<Rightarrow> string \<Rightarrow> dict \<Rightarrow> string option \<Rightarrow> dict \<Rightarrow> dict" where
  "expected_claims H cid pid operation target payload preimage proposal =
     [(''confirmation_id'', JStr cid),
      (''project_id'', JStr pid),
      (''operation'', JStr operation),
      (''target'', JStr target),
      (''payload_sha256'', JStr (H (canonical_json_bytes (JObj payload)))),
      (''expected_preimage_sha256'', JStr (upper_or_empty preimage)),
      (''nonce'', dget proposal ''nonce''),
      (''expires_at'', dget proposal ''expires_at'')]"

definition claims_match :: "dict \<Rightarrow> dict \<Rightarrow> dict \<Rightarrow> bool" where
  "claims_match claims proposal expected \<longleftrightarrow>
     (\<forall>p \<in> set expected. py_eq (dget claims (fst p)) (snd p) \<and> py_eq (dget proposal (fst p)) (snd p))"

definition read_proposal :: "string \<Rightarrow> trust \<Rightarrow> json option result" where
  "read_proposal cid t = (case aget (pending t) cid of
      None \<Rightarrow> Inr None
    | Some IOFault \<Rightarrow> Inr None
    | Some NotUtf8 \<Rightarrow> Inl UnicodeDecodeError
    | Some NotJson \<Rightarrow> Inr None
    | Some (Doc j) \<Rightarrow> Inr (Some j))"

definition verified_claims :: "mac \<Rightarrow> string \<Rightarrow> bytes \<Rightarrow> dict option result" where
  "verified_claims mac token secret = (case decode_and_verify_capability mac token secret of
      Inr c \<Rightarrow> Inr (Some c)
    | Inl e \<Rightarrow> if is_a e PermissionError then Inr None else Inl e)"

definition consume_verified ::
    "hash \<Rightarrow> string \<Rightarrow> dict \<Rightarrow> (trust, bool) M" where
  "consume_verified H cid claims =
     bindM (readM (\<lambda>t. bindR (py_int (get_default claims ''expires_at'' (JInt 0))) (\<lambda>x. Inr (x < clock t)))) (\<lambda>expired.
     if expired then ret False
     else let nonce = (case aget claims ''nonce'' of None \<Rightarrow> '''' | Some v \<Rightarrow> py_str v) in
     if nonce = '''' then ret False
     else bindM (readM (\<lambda>t. Inr (clock t))) (\<lambda>moment.
          bindM (record_nonce (H (utf8 nonce))
                   [(''confirmation_id'', JStr cid), (''consumed_at'', JInt moment)]) (\<lambda>won.
          if \<not> won then ret False
          else bindM (drop_proposal cid) (\<lambda>_. ret True))))"

definition validate_and_consume_capability ::
    "hash \<Rightarrow> mac \<Rightarrow> string \<Rightarrow> string \<Rightarrow> string \<Rightarrow> string \<Rightarrow> string \<Rightarrow> dict \<Rightarrow> string option \<Rightarrow> bytes \<Rightarrow>
     (trust, bool) M" where
  "validate_and_consume_capability H mac cid token pid operation target payload preimage secret =
     (if cid = '''' \<or> token = '''' then ret False
      else case validate_operator_key secret of
        Inl _ \<Rightarrow> ret False
      | Inr secret \<Rightarrow>
          bindM (readM (read_proposal cid)) (\<lambda>got.
          case got of
            None \<Rightarrow> ret False
          | Some proposal_doc \<Rightarrow>
              bindM (readM (\<lambda>_. verified_claims mac token secret)) (\<lambda>verified.
              case verified of
                None \<Rightarrow> ret False
              | Some claims \<Rightarrow>
                  bindM (readM (\<lambda>_. as_dict proposal_doc)) (\<lambda>proposal.
                  if \<not> claims_match claims proposal
                       (expected_claims H cid pid operation target payload preimage proposal)
                  then ret False
                  else consume_verified H cid claims))))"

section \<open>Host-owned stores and executables\<close>

definition assert_trust_store_outside_roots :: "links \<Rightarrow> path \<Rightarrow> path list \<Rightarrow> path result" where
  "assert_trust_store_outside_roots L store roots =
     bindR (resolved_path L store) (\<lambda>resolved.
     bindR (outside_roots L resolved roots) (\<lambda>_. Inr resolved))"

definition is_within_store :: "links \<Rightarrow> path \<Rightarrow> path \<Rightarrow> bool" where
  "is_within_store L candidate store = is_within L candidate store"

definition removesuffix :: "string \<Rightarrow> string \<Rightarrow> string" where
  "removesuffix suf s = (if suf \<noteq> [] \<and> endswith s suf then take (length s - length suf) s else s)"

text \<open>
  The list of trusted executables is a host configuration: a dictionary of specifications.
  A path in it resolves by \<open>locate\<close>, the resolution of the host.
\<close>

definition resolve_trusted_executable ::
    "hash \<Rightarrow> (string \<Rightarrow> string result) \<Rightarrow> string \<Rightarrow> dict \<Rightarrow> world \<Rightarrow> string result" where
  "resolve_trusted_executable H locate name trusted w =
     (let key = removesuffix ''.exe'' (lower (strip_ws name)) in
      case dget trusted key of
        JObj spec \<Rightarrow>
          bindR (locate (py_str (get_default spec ''path'' (JStr '''')))) (\<lambda>path.
          let expected = upper (py_str (get_default spec ''sha256'' (JStr ''''))) in
          if \<not> is_file path w then Inl FileNotFoundError
          else if length expected \<noteq> 64 then Inl PermissionError
          else bindR (sha256_file H path w) (\<lambda>current.
            if \<exists>c \<in> set expected. 128 \<le> code c then Inl TypeError
            else if current \<noteq> expected then Inl PermissionError
            else Inr path))
      | _ \<Rightarrow> Inl ValueError)"

section \<open>What consuming a capability does to the trust store\<close>

text \<open>Consumed records are only ever added, and a recorded one never changes.\<close>

definition spent_grows :: "trust \<Rightarrow> trust \<Rightarrow> bool" where
  "spent_grows t t' \<longleftrightarrow> (\<forall>k r. aget (consumed t) k = Some r \<longrightarrow> aget (consumed t') k = Some r)"

interpretation spending: evolution spent_grows
  by unfold_locales (auto simp: spent_grows_def)

lemma record_nonce_grows: "evolves spent_grows (record_nonce h entry)"
  by (auto simp: evolves_def spent_grows_def record_nonce_def Let_def)

lemma drop_proposal_grows: "evolves spent_grows (drop_proposal cid)"
  by (simp add: evolves_def spent_grows_def drop_proposal_def)

lemma create_request_grows:
  "evolves spent_grows (create_confirmation_request H pid operation target payload preimage cls reason ttl)"
  by (simp add: evolves_def spent_grows_def create_confirmation_request_def Let_def)

lemma consume_verified_grows: "evolves spent_grows (consume_verified H cid claims)"
  unfolding consume_verified_def Let_def
  by (intro spending.combinators record_nonce_grows drop_proposal_grows)

lemma consume_grows:
  "evolves spent_grows (validate_and_consume_capability H mac cid token pid operation target payload preimage secret)"
  unfolding validate_and_consume_capability_def Let_def
  by (intro spending.combinators consume_verified_grows)

text \<open>The one way a nonce is won.\<close>

lemma record_nonce_True:
  "record_nonce h entry t = (Inr True, t') \<Longrightarrow>
     aget (consumed t) h = None \<and> t' = t\<lparr>consumed := aset h entry (consumed t)\<rparr> \<and>
     \<not> write_fails t \<and> \<not> sync_fails t"
  by (auto simp: record_nonce_def split: if_splits)

lemma record_nonce_cases:
  "\<exists>b. fst (record_nonce h entry t) = Inr b"
  by (auto simp: record_nonce_def)

definition nonce_of :: "dict \<Rightarrow> string" where
  "nonce_of claims = (case aget claims ''nonce'' of None \<Rightarrow> '''' | Some v \<Rightarrow> py_str v)"

lemma consume_verified_True:
  assumes "consume_verified H cid claims t = (Inr True, t')"
  shows "(\<exists>x. py_int (get_default claims ''expires_at'' (JInt 0)) = Inr x \<and> clock t \<le> x) \<and>
     nonce_of claims \<noteq> '''' \<and>
     aget (consumed t) (H (utf8 (nonce_of claims))) = None \<and>
     aget (consumed t') (H (utf8 (nonce_of claims))) =
       Some [(''confirmation_id'', JStr cid), (''consumed_at'', JInt (clock t))] \<and>
     \<not> write_fails t \<and> \<not> sync_fails t"
  using assms unfolding consume_verified_def nonce_of_def [symmetric] Let_def
  by (auto simp: bindR_Inr_iff drop_proposal_def split: if_splits elim!: bindM_InrE dest!: record_nonce_True)

lemma verified_claims_Some:
  "verified_claims mac token secret = Inr (Some c) \<Longrightarrow> decode_and_verify_capability mac token secret = Inr c"
  by (auto simp: verified_claims_def split: sum.splits if_splits)

lemma validate_operator_key_Inr:
  "validate_operator_key k = Inr k' \<longleftrightarrow>
     k' = k \<and> length k = OPERATOR_KEY_BYTES \<and> k \<noteq> replicate OPERATOR_KEY_BYTES (chr 0)"
  by (auto simp: validate_operator_key_def)

text \<open>Everything a consumption that answers \<open>True\<close> has established on its way.\<close>

lemma consume_True:
  assumes "validate_and_consume_capability H mac cid token pid operation target payload preimage secret t
             = (Inr True, t')"
  obtains claims proposal where
    "decode_and_verify_capability mac token secret = Inr claims"
    "aget (pending t) cid = Some (Doc (JObj proposal))"
    "claims_match claims proposal (expected_claims H cid pid operation target payload preimage proposal)"
    "consume_verified H cid claims t = (Inr True, t')"
proof -
  note * = assms [unfolded validate_and_consume_capability_def]
  from * have "\<not> (cid = '''' \<or> token = '''')" by (auto split: if_splits)
  with * obtain key where "validate_operator_key secret = Inr key"
    by (auto split: sum.splits)
  then have key: "validate_operator_key secret = Inr secret"
    by (simp add: validate_operator_key_Inr)
  with * \<open>\<not> _\<close> obtain doc claims d where
    1: "read_proposal cid t = Inr (Some doc)" and
    2: "verified_claims mac token secret = Inr (Some claims)" and
    3: "as_dict doc = Inr d" and
    4: "claims_match claims d (expected_claims H cid pid operation target payload preimage d)" and
    5: "consume_verified H cid claims t = (Inr True, t')"
    by (auto elim!: bindM_InrE split: option.splits if_splits)
  from 3 have "doc = JObj d" by (cases doc) (auto simp: as_dict_def)
  with 1 have "aget (pending t) cid = Some (Doc (JObj d))"
    by (auto simp: read_proposal_def split: option.splits rdoc.splits)
  with that 4 5 verified_claims_Some [OF 2] show ?thesis by blast
qed

lemma claims_match_expected:
  assumes "claims_match claims proposal (expected_claims H cid pid operation target payload preimage proposal)"
  shows "dget claims ''confirmation_id'' = JStr cid" "dget claims ''project_id'' = JStr pid"
    "dget claims ''operation'' = JStr operation" "dget claims ''target'' = JStr target"
    "dget claims ''payload_sha256'' = JStr (H (canonical_json_bytes (JObj payload)))"
    "dget claims ''expected_preimage_sha256'' = JStr (upper_or_empty preimage)"
    "py_eq (dget claims ''nonce'') (dget proposal ''nonce'')"
  using assms by (simp_all add: claims_match_def expected_claims_def py_eq_str_right)

section \<open>Single use\<close>

text \<open>
  What a single-use credential promises: a step that is granted spends a key that was not spent,
  and no step makes a spent key usable again. The client then knows that, however the steps of
  any number of callers are ordered, two granted ones never carry the same key.
\<close>

locale single_use =
  fixes step :: "'c \<Rightarrow> ('s, bool) M"
    and key :: "'c \<Rightarrow> 'k option"
    and spent :: "'s \<Rightarrow> 'k \<Rightarrow> bool"
  assumes granted_spends:
      "step c s = (Inr True, s') \<Longrightarrow> \<exists>k. key c = Some k \<and> \<not> spent s k \<and> spent s' k"
    and spent_stays: "spent s k \<Longrightarrow> step c s = (r, s') \<Longrightarrow> spent s' k"
begin

lemma spent_refused:
  "spent s k \<Longrightarrow> j < length cs \<Longrightarrow> key (cs ! j) = Some k \<Longrightarrow> fst (run_all step s cs) ! j \<noteq> Inr True"
proof (induction cs arbitrary: s j)
  case Nil
  then show ?case by simp
next
  case (Cons c cs)
  obtain r s' where 1: "step c s = (r, s')" by (cases "step c s")
  obtain rs s'' where 2: "run_all step s' cs = (rs, s'')" by (cases "run_all step s' cs")
  show ?case
  proof (cases j)
    case 0
    with Cons.prems 1 2 granted_spends [of c s s'] show ?thesis by auto
  next
    case (Suc i)
    with Cons.IH [of s' i] Cons.prems 1 2 spent_stays [OF Cons.prems(1) 1] show ?thesis by simp
  qed
qed

lemma granted_once:
  "i < j \<Longrightarrow> j < length cs \<Longrightarrow> fst (run_all step s cs) ! i = Inr True \<Longrightarrow>
   fst (run_all step s cs) ! j = Inr True \<Longrightarrow> key (cs ! i) \<noteq> key (cs ! j)"
proof (induction cs arbitrary: s i j)
  case Nil
  then show ?case by simp
next
  case (Cons c cs)
  obtain r s' where 1: "step c s = (r, s')" by (cases "step c s")
  obtain rs s'' where 2: "run_all step s' cs = (rs, s'')" by (cases "run_all step s' cs")
  from Cons.prems(1) obtain j' where j: "j = Suc j'" by (cases j) auto
  with Cons.prems 1 2 have won: "fst (run_all step s' cs) ! j' = Inr True" and len: "j' < length cs"
    by simp_all
  show ?case
  proof (cases i)
    case 0
    with Cons.prems(3) 1 2 have "step c s = (Inr True, s')" by simp
    from granted_spends [OF this] obtain k where "key c = Some k" "spent s' k" by blast
    with spent_refused [of s' k j' cs] won len 0 j show ?thesis by auto
  next
    case (Suc i')
    with Cons.IH [of i' j' s'] Cons.prems 1 2 j won len show ?thesis by simp
  qed
qed

end

text \<open>
  The calls a trust store sees: the executor proposes and consumes, time passes, and the
  operating system starts or stops refusing writes, syncs and removals.
\<close>

datatype trust_call =
    Propose string string string dict "string option" string string int
  | Consume string string string string string dict "string option" bytes
  | Elapse nat
  | Faults bool bool bool

fun trust_step :: "hash \<Rightarrow> mac \<Rightarrow> trust_call \<Rightarrow> (trust, bool) M" where
  "trust_step H mac (Propose pid operation target payload preimage cls reason ttl) =
     bindM (create_confirmation_request H pid operation target payload preimage cls reason ttl) (\<lambda>_. ret False)"
| "trust_step H mac (Consume cid token pid operation target payload preimage secret) =
     validate_and_consume_capability H mac cid token pid operation target payload preimage secret"
| "trust_step H mac (Elapse n) = (\<lambda>t. (Inr False, t\<lparr>clock := clock t + int n\<rparr>))"
| "trust_step H mac (Faults w s u) = (\<lambda>t. (Inr False, t\<lparr>write_fails := w, sync_fails := s, unlink_fails := u\<rparr>))"

fun trust_key :: "hash \<Rightarrow> mac \<Rightarrow> trust_call \<Rightarrow> string option" where
  "trust_key H mac (Consume cid token pid operation target payload preimage secret) =
     (case decode_and_verify_capability mac token secret of
        Inl _ \<Rightarrow> None
      | Inr claims \<Rightarrow> Some (H (utf8 (nonce_of claims))))"
| "trust_key H mac _ = None"

fun trust_token :: "trust_call \<Rightarrow> (string \<times> bytes) option" where
  "trust_token (Consume cid token pid operation target payload preimage secret) = Some (token, secret)"
| "trust_token _ = None"

lemma trust_step_grows: "evolves spent_grows (trust_step H mac c)"
proof (cases c)
  case (Propose a b d e f g h i)
  then show ?thesis by (simp add: spending.combinators create_request_grows)
next
  case (Consume a b d e f g h i)
  then show ?thesis by (simp add: consume_grows)
qed (simp_all add: evolves_def spent_grows_def)

lemma trust_step_True:
  assumes "trust_step H mac c t = (Inr True, t')"
  shows "\<exists>k. trust_key H mac c = Some k \<and> aget (consumed t) k = None \<and> aget (consumed t') k \<noteq> None"
proof (cases c)
  case (Consume cid token pid operation target payload preimage secret)
  with assms have "validate_and_consume_capability H mac cid token pid operation target payload preimage secret t
      = (Inr True, t')" by simp
  then show ?thesis
    by (rule consume_True) (use Consume in \<open>auto dest!: consume_verified_True\<close>)
qed (use assms in \<open>auto elim!: bindM_InrE\<close>)

interpretation capability: single_use "trust_step H mac" "trust_key H mac" "\<lambda>t k. aget (consumed t) k \<noteq> None"
  for H :: hash and mac :: mac
proof
  fix c :: trust_call and s s' :: trust
  assume "trust_step H mac c s = (Inr True, s')"
  then show "\<exists>k. trust_key H mac c = Some k \<and> \<not> aget (consumed s) k \<noteq> None \<and> aget (consumed s') k \<noteq> None"
    using trust_step_True by blast
next
  fix c :: trust_call and s s' :: trust and k and r :: "bool result"
  assume "aget (consumed s) k \<noteq> None" and "trust_step H mac c s = (r, s')"
  then show "aget (consumed s') k \<noteq> None"
    using evolvesD [OF trust_step_grows] unfolding spent_grows_def by fastforce
qed

section \<open>Properties of capabilities\<close>


text \<open>C10. In every sequence of calls on the trust store, with any interleaving of proposals,
  consumptions, passing time and failing disks, two consumptions that both succeed spent
  different nonces; in particular no token is accepted twice.\<close>

theorem capability_single_use:
  assumes "i < j" and "j < length calls"
    and "fst (run_all (trust_step H mac) t calls) ! i = Inr True"
    and "fst (run_all (trust_step H mac) t calls) ! j = Inr True"
  shows "trust_key H mac (calls ! i) \<noteq> trust_key H mac (calls ! j) \<and>
    trust_token (calls ! i) \<noteq> trust_token (calls ! j)"
proof -
  have keys: "trust_key H mac (calls ! i) \<noteq> trust_key H mac (calls ! j)"
    by (rule capability.granted_once) (use assms in auto)
  moreover have "trust_token (calls ! i) \<noteq> trust_token (calls ! j)"
  proof
    assume "trust_token (calls ! i) = trust_token (calls ! j)"
    with keys show False by (cases "calls ! i"; cases "calls ! j") auto
  qed
  ultimately show ?thesis ..
qed

text \<open>When the record of the nonce cannot be written or synced, the consumption does not
  answer True; and when only the sync failed and the half-written record could be removed, no
  nonce is spent by it, so the operator's approval is still good.\<close>

theorem no_durability_no_authority:
  assumes "write_fails t \<or> sync_fails t"
  shows "fst (validate_and_consume_capability H mac cid token pid operation target payload preimage secret t)
           \<noteq> Inr True \<and>
    (\<not> write_fails t \<and> \<not> unlink_fails t \<longrightarrow>
       snd (validate_and_consume_capability H mac cid token pid operation target payload preimage secret t) = t)"
proof
  let ?run = "validate_and_consume_capability H mac cid token pid operation target payload preimage secret t"
  show "fst ?run \<noteq> Inr True"
  proof
    assume "fst ?run = Inr True"
    then obtain t' where "?run = (Inr True, t')" by (cases ?run) auto
    then show False by (rule consume_True) (use assms in \<open>auto dest!: consume_verified_True\<close>)
  qed
  show "\<not> write_fails t \<and> \<not> unlink_fails t \<longrightarrow> snd ?run = t"
  proof
    assume *: "\<not> write_fails t \<and> \<not> unlink_fails t"
    with assms have rec: "record_nonce h e t = (Inr False, t)" for h e
      by (simp add: record_nonce_def)
    have "snd (consume_verified H cid claims t) = t" for claims
      by (simp add: consume_verified_def Let_def bindM_app rec split: sum.split)
    then show "snd ?run = t"
      by (simp add: validate_and_consume_capability_def bindM_app split: sum.split option.split)
  qed
qed

section \<open>Signing and approval\<close>

definition ascii_mac :: "mac \<Rightarrow> bool" where
  "ascii_mac mac \<longleftrightarrow> (\<forall>k m. \<forall>c \<in> set (mac k m). code c < 128)"

lemma ascii_macD: "ascii_mac mac \<Longrightarrow> c \<in> set (mac k m) \<Longrightarrow> \<not> 128 \<le> code c"
  by (auto simp: ascii_mac_def not_le)

lemma decode_signed:
  assumes "ascii_mac mac" and "plain_json (JObj claims)" and "sign_capability mac claims secret = Inr token"
  shows "decode_and_verify_capability mac token secret =
    Inr (map (\<lambda>p. (fst p, sorted_json (snd p))) (sort_key fst claims))"
proof -
  let ?body = "b64 (canonical_json_bytes (JObj claims))"
  from assms(3) have key: "validate_operator_key secret = Inr secret"
    and token: "token = ?body @ CHR ''.'' # mac secret (utf8 ?body)"
    by (auto simp: sign_capability_def bindR_Inr_iff validate_operator_key_Inr Let_def)
  have "split_once ''.'' token = Some (?body, mac secret (utf8 ?body))"
    unfolding token by (rule split_once_char [OF b64_no_dot])
  moreover have "unb64 ?body = Some (utf8 (dumps (JObj claims)))"
    by (simp only: unb64_b64 canonical_json_bytes_def)
  moreover have "loads (dumps (JObj claims)) = Some (sorted_json (JObj claims))"
    by (rule loads_dumps [OF assms(2)])
  ultimately show ?thesis
    using key by (auto simp: decode_and_verify_capability_def utf8_decode_utf8 dest: ascii_macD [OF assms(1)]
        simp del: dumps.simps)
qed

lemma record_plain:
  "plain_json (JObj (confirmation_record H cid pid operation target payload preimage cls reason ttl t))"
  by (simp add: confirmation_record_def)

lemma aget_record [simp]:
  "aget (confirmation_record H cid pid operation target payload preimage cls reason ttl t) ''nonce'' =
     Some (JStr (nonce_draws t (minted t)))"
  "aget (confirmation_record H cid pid operation target payload preimage cls reason ttl t) ''expires_at'' =
     Some (JInt (clock t + ttl))"
  by (simp_all add: confirmation_record_def)

text \<open>The claims the operator signs: the proposal as it was stored, read back.\<close>

lemma record_claims:
  fixes H cid pid operation target payload preimage cls reason ttl and t :: trust
  defines "d \<equiv> confirmation_record H cid pid operation target payload preimage cls reason ttl t"
  defines "claims \<equiv> map (\<lambda>p. (fst p, sorted_json (snd p))) (sort_key fst d)"
  shows "claims_match claims d (expected_claims H cid pid operation target payload preimage d)"
    and "get_default claims ''expires_at'' (JInt 0) = JInt (clock t + ttl)"
    and "nonce_of claims = nonce_draws t (minted t)"
proof -
  have get: "dget claims k = sorted_json (dget d k)" for k
    unfolding claims_def d_def by (rule dget_sorted [OF record_plain])
  show "claims_match claims d (expected_claims H cid pid operation target payload preimage d)"
    by (simp add: claims_match_def expected_claims_def get) (simp add: d_def dget_def confirmation_record_def)
  have get': "aget claims k = map_option sorted_json (aget d k)" for k
    unfolding claims_def aget_map_snd d_def by (simp add: aget_sort confirmation_record_def)
  show "get_default claims ''expires_at'' (JInt 0) = JInt (clock t + ttl)"
    by (simp add: get_default_def get' d_def)
  show "nonce_of claims = nonce_draws t (minted t)"
    by (simp add: nonce_of_def get' d_def)
qed

lemma approval_run:
  assumes "ascii_mac mac" and "0 \<le> ttl" and "\<not> write_fails t" and "\<not> sync_fails t"
    and "nonce_draws t (minted t) \<noteq> ''''"
    and "aget (consumed t) (H (utf8 (nonce_draws t (minted t)))) = None"
    and "create_confirmation_request H pid operation target payload preimage cls reason ttl t = (Inr reply, t1)"
    and "cid = ''conf_'' @ conf_ids t (minted t)"
    and "sign_capability mac (confirmation_record H cid pid operation target payload preimage cls reason ttl t)
           secret = Inr token"
  shows "\<exists>t2. validate_and_consume_capability H mac cid token pid operation target payload preimage secret t1 = (Inr True, t2) \<and>
      validate_and_consume_capability H mac cid token pid operation target payload preimage secret t2 = (Inr False, t2) \<and>
      consumed t2 = aset (H (utf8 (nonce_draws t (minted t))))
        [(''confirmation_id'', JStr cid), (''consumed_at'', JInt (clock t))] (consumed t) \<and>
      minted t2 = Suc (minted t) \<and> clock t2 = clock t \<and> write_fails t2 = write_fails t \<and>
      sync_fails t2 = sync_fails t \<and> conf_ids t2 = conf_ids t \<and> nonce_draws t2 = nonce_draws t"
proof -
  let ?d = "confirmation_record H cid pid operation target payload preimage cls reason ttl t"
  let ?claims = "map (\<lambda>p. (fst p, sorted_json (snd p))) (sort_key fst ?d)"
  let ?consume = "validate_and_consume_capability H mac cid token pid operation target payload preimage secret"
  have t1: "t1 = t\<lparr>minted := Suc (minted t), pending := aset cid (Doc (JObj ?d)) (pending t)\<rparr>"
    using assms(3,4,7,8) by (auto simp: create_confirmation_request_def Let_def)
  have dec: "decode_and_verify_capability mac token secret = Inr ?claims"
    by (rule decode_signed [OF assms(1) record_plain assms(9)])
  have key: "validate_operator_key secret = Inr secret" and tok: "token \<noteq> ''''"
    using assms(9) by (auto simp: sign_capability_def bindR_Inr_iff validate_operator_key_Inr Let_def)
  have run: "?consume s = (case read_proposal cid s of Inr (Some doc) \<Rightarrow>
      (case as_dict doc of Inr p \<Rightarrow>
        if claims_match ?claims p (expected_claims H cid pid operation target payload preimage p)
        then consume_verified H cid ?claims s else (Inr False, s)
      | Inl e \<Rightarrow> (Inl e, s)) | Inr None \<Rightarrow> (Inr False, s) | Inl e \<Rightarrow> (Inl e, s))" for s
    using key tok assms(8)
    by (simp add: validate_and_consume_capability_def bindM_app verified_claims_def dec split: sum.split option.split)
  let ?h = "H (utf8 (nonce_draws t (minted t)))"
  let ?e = "[(''confirmation_id'', JStr cid), (''consumed_at'', JInt (clock t))]"
  have cv: "consume_verified H cid ?claims s = (if clock t + ttl < clock s then (Inr False, s) else
      bindM (record_nonce ?h [(''confirmation_id'', JStr cid), (''consumed_at'', JInt (clock s))])
        (\<lambda>won. if \<not> won then ret False else bindM (drop_proposal cid) (\<lambda>_. ret True)) s)" for s
    using assms(5)
    by (simp add: consume_verified_def record_claims nonce_of_def [symmetric] Let_def bindM_app py_int_def)
  let ?t2 = "if unlink_fails t then t1\<lparr>consumed := aset ?h ?e (consumed t)\<rparr>
    else t1\<lparr>consumed := aset ?h ?e (consumed t), pending := adel cid (pending t1)\<rparr>"
  have first: "?consume t1 = (Inr True, ?t2)"
    using assms(2,3,4,6)
    by (simp add: run cv t1 read_proposal_def as_dict_def record_claims(1) bindM_app record_nonce_def drop_proposal_def)
  have "?consume ?t2 = (Inr False, ?t2)"
    by (simp add: run cv t1 read_proposal_def as_dict_def record_claims(1) bindM_app record_nonce_def assms(3,4))
  with first show ?thesis
    by (intro exI [of _ ?t2]) (simp add: t1)
qed

text \<open>C27. The operator's approval is good for exactly one use: a capability signed over a stored
  proposal is accepted for the operation it was proposed for while it has not expired, and the
  second presentation of it is refused, whether or not the proposal could be removed.\<close>

theorem approval_admits_once:
  assumes "ascii_mac mac" and "0 \<le> ttl" and "\<not> write_fails t" and "\<not> sync_fails t"
    and "nonce_draws t (minted t) \<noteq> ''''"
    and "aget (consumed t) (H (utf8 (nonce_draws t (minted t)))) = None"
    and "create_confirmation_request H pid operation target payload preimage cls reason ttl t = (Inr reply, t1)"
    and "cid = ''conf_'' @ conf_ids t (minted t)"
    and "sign_capability mac (confirmation_record H cid pid operation target payload preimage cls reason ttl t)
           secret = Inr token"
  shows "\<exists>t2 t3.
    validate_and_consume_capability H mac cid token pid operation target payload preimage secret t1 = (Inr True, t2) \<and>
    validate_and_consume_capability H mac cid token pid operation target payload preimage secret t2 = (Inr False, t3)"
  using approval_run [OF assms] by blast

text \<open>Signing and verifying are inverse: the token signed over claims verifies under the same
  key and gives back the claims, each under its key.\<close>

theorem sign_then_decode:
  assumes "ascii_mac mac" and "plain_json (JObj claims)" and "sign_capability mac claims secret = Inr token"
  shows "\<exists>d. decode_and_verify_capability mac token secret = Inr d \<and>
    (\<forall>k. dget d k = sorted_json (dget claims k))"
  by (rule exI, rule conjI, rule decode_signed [OF assms], rule allI, rule dget_sorted [OF assms(2)])

section \<open>Properties of the host's keys and executables\<close>

lemma outside_roots_Inr:
  "outside_roots L q rs = Inr u \<longleftrightarrow>
     (\<forall>g \<in> set rs. \<exists>b. resolve L g = Some b \<and> \<not> is_prefix_list b q)"
  by (induction rs) (auto simp: relative_to_def split: option.splits)

lemma resolved_path_Inr: "resolved_path L p = Inr q \<longleftrightarrow> resolve L p = Some q"
  by (auto simp: resolved_path_def split: option.splits)

lemma generate_places_outside:
  fixes w :: world
  shows "disk (snd (generate_operator_key L p roots overwrite key synced w)) = disk w \<or>
     (\<exists>q. resolve L p = Some q \<and> (\<forall>g \<in> set roots. \<exists>b. resolve L g = Some b \<and> \<not> is_prefix_list b q) \<and>
        (overwrite \<or> \<not> path_exists (path_str q) w) \<and>
        disk (snd (generate_operator_key L p roots overwrite key synced w)) = aset (path_str q) (Reg key) (disk w))"
  by (auto simp: generate_operator_key_def bindM_app resolved_path_Inr outside_roots_Inr
      split: sum.split prod.split dest!: write_bytes_Inr write_bytes_Inl)

lemma rotate_replaces_or_keeps:
  fixes w :: world
  shows "(\<forall>e w'. rotate_operator_key L p roots key synced w = (Inl e, w') \<longrightarrow> w' = w) \<and>
     (\<forall>k w'. rotate_operator_key L p roots key synced w = (Inr k, w') \<longrightarrow> k = key \<and>
        (\<exists>q. resolve L p = Some q \<and> (\<forall>g \<in> set roots. \<exists>b. resolve L g = Some b \<and> \<not> is_prefix_list b q) \<and>
           is_file (path_str q) w \<and> disk w' = aset (path_str q) (Reg key) (disk w)))"
  by (auto simp: rotate_operator_key_def bindM_app resolved_path_Inr outside_roots_Inr
      split: sum.splits prod.splits if_splits dest!: write_bytes_Inr write_bytes_Inl)

text \<open>Provisioning a key touches at most the file of the key, never one inside a governed
  root, and never an existing one unless the caller asks to overwrite; rotation replaces an
  existing key or, whatever goes wrong (a crash included), leaves the world as it was.\<close>

theorem operator_key_placement:
  fixes w :: world
  shows "(disk (snd (generate_operator_key L p roots overwrite key synced w)) = disk w \<or>
     (\<exists>q. resolve L p = Some q \<and> (\<forall>g \<in> set roots. \<exists>b. resolve L g = Some b \<and> \<not> is_prefix_list b q) \<and>
        (overwrite \<or> \<not> path_exists (path_str q) w) \<and>
        disk (snd (generate_operator_key L p roots overwrite key synced w)) = aset (path_str q) (Reg key) (disk w))) \<and>
    (\<forall>e w'. rotate_operator_key L p roots key synced w = (Inl e, w') \<longrightarrow> w' = w) \<and>
     (\<forall>k w'. rotate_operator_key L p roots key synced w = (Inr k, w') \<longrightarrow> k = key \<and>
        (\<exists>q. resolve L p = Some q \<and> (\<forall>g \<in> set roots. \<exists>b. resolve L g = Some b \<and> \<not> is_prefix_list b q) \<and>
           is_file (path_str q) w \<and> disk w' = aset (path_str q) (Reg key) (disk w)))"
  by (intro conjI generate_places_outside rotate_replaces_or_keeps
      rotate_replaces_or_keeps [THEN conjunct1] rotate_replaces_or_keeps [THEN conjunct2])

text \<open>An executable is handed out only when it is on the host's list and the bytes of its file
  hash to the pin of 64 characters; a listed file with any other hash is refused.\<close>

theorem trusted_executable_pinned:
  "(resolve_trusted_executable H locate name trusted w = Inr path \<longrightarrow>
     (\<exists>spec b. dget trusted (removesuffix ''.exe'' (lower (strip_ws name))) = JObj spec \<and>
        locate (py_str (get_default spec ''path'' (JStr ''''))) = Inr path \<and>
        read_bytes path w = Inr b \<and> length (H b) = 64 \<and>
        H b = upper (py_str (get_default spec ''sha256'' (JStr ''''))))) \<and>
   (\<forall>spec b. dget trusted (removesuffix ''.exe'' (lower (strip_ws name))) = JObj spec \<and>
        locate (py_str (get_default spec ''path'' (JStr ''''))) = Inr path \<and>
        read_bytes path w = Inr b \<and> H b \<noteq> upper (py_str (get_default spec ''sha256'' (JStr ''''))) \<longrightarrow>
      (\<exists>e. resolve_trusted_executable H locate name trusted w = Inl e))"
  by (auto simp: resolve_trusted_executable_def Let_def bindR_Inr_iff sha256_file_def
      split: json.splits if_splits)

definition hexlify :: "bytes \<Rightarrow> string" where
  "hexlify b = concat (map (\<lambda>c. [hex_digit (code c div 16), hex_digit (code c mod 16)]) b)"


lemma hexlify_simps [simp]:
  "hexlify [] = []"
  "hexlify (c # b) = hex_digit (code c div 16) # hex_digit (code c mod 16) # hexlify b"
  by (simp_all add: hexlify_def)

lemma hex_value_space: "hex_value c = Some k \<Longrightarrow> \<not> is_space c"
  by (auto simp: hex_value_def is_space_def Let_def split: if_splits)

lemma fromhex_hexlify: "fromhex (hexlify b) = Some b"
proof (induction b)
  case (Cons c b)
  have 1: "hex_value (hex_digit (code c div 16)) = Some (code c div 16)"
    "hex_value (hex_digit (code c mod 16)) = Some (code c mod 16)"
    using code_less [of c] by (auto intro!: hex_value_digit)
  with Cons.IH hex_value_space [OF 1(1)] show ?case by simp
qed simp

lemma hexlify_length: "length (hexlify b) = 2 * length b"
  by (induction b) simp_all

lemma hexlify_no_space: "c \<in> set (hexlify b) \<Longrightarrow> \<not> is_space c"
proof (induction b)
  case (Cons d b)
  have "hex_value (hex_digit (code d div 16)) = Some (code d div 16)"
    "hex_value (hex_digit (code d mod 16)) = Some (code d mod 16)"
    using code_less [of d] by (auto intro!: hex_value_digit)
  with Cons hex_value_space show ?case by fastforce
qed simp

lemma dropWhile_none: "\<forall>c \<in> set s. \<not> p c \<Longrightarrow> dropWhile p s = s"
  by (cases s) auto

lemma strip_no_space: "\<forall>c \<in> set s. \<not> p c \<Longrightarrow> strip p s = s"
  by (simp add: strip_def lstrip_def rstrip_def dropWhile_none)

text \<open>A key provisioned in the environment as 64 hexadecimal characters is read back exactly,
  and whatever is read is a key of 32 bytes that is not all zero.\<close>

theorem operator_secret_roundtrip:
  "(validate_operator_key key = Inr key \<longrightarrow>
      load_operator_secret_from_env var (aset var (hexlify key) environ) = Inr key) \<and>
   (load_operator_secret_from_env var environ = Inr key' \<longrightarrow>
      length key' = 32 \<and> key' \<noteq> replicate 32 (chr 0))"
proof
  show "validate_operator_key key = Inr key \<longrightarrow>
      load_operator_secret_from_env var (aset var (hexlify key) environ) = Inr key"
    by (auto simp: load_operator_secret_from_env_def strip_no_space hexlify_no_space hexlify_length
        fromhex_hexlify validate_operator_key_Inr OPERATOR_KEY_BYTES_def)
  show "load_operator_secret_from_env var environ = Inr key' \<longrightarrow>
      length key' = 32 \<and> key' \<noteq> replicate 32 (chr 0)"
    by (auto simp: load_operator_secret_from_env_def Let_def validate_operator_key_Inr OPERATOR_KEY_BYTES_def
        split: if_splits option.splits)
qed

section \<open>Witnesses\<close>

text \<open>A trust store with an approval in it; hexadecimal texts stand for the hash and the HMAC.\<close>

definition checksum :: hash where
  "checksum b = hexlify b"

definition example_mac :: mac where
  "example_mac k m = checksum (k @ m)"

definition example_key :: bytes where
  "example_key = replicate 31 (chr 0) @ [chr 7]"

definition example_trust :: trust where
  "example_trust = \<lparr>pending = [], consumed = [], clock = 1000, conf_ids = nat_digits,
     nonce_draws = (\<lambda>i. ''n'' @ nat_digits i), minted = 0, write_fails = False, sync_fails = False,
     unlink_fails = False\<rparr>"

definition example_claims :: dict where
  "example_claims = confirmation_record checksum ''conf_0'' ''p'' ''fs_write'' ''a.txt'' [(''n'', JInt 1)] None
     ''CONTROL_PLANE_GATE'' ''why'' 300 example_trust"

definition example_token :: string where
  "example_token = (case sign_capability example_mac example_claims example_key of Inr s \<Rightarrow> s | Inl _ \<Rightarrow> '''')"

lemma example_mac_ascii: "ascii_mac example_mac"
proof -
  have "code (hex_digit n) < 128" if "n < 16" for n
    using that by (auto simp: hex_digit_def)
  then have "code c < 128" if "c \<in> set (hexlify b)" for c b
    using that by (induction b) (auto simp: less_mult_imp_div_less)
  then show ?thesis by (auto simp: ascii_mac_def example_mac_def checksum_def)
qed

lemma example_key_valid: "validate_operator_key example_key = Inr example_key"
  by code_simp

lemma example_token_signed: "sign_capability example_mac example_claims example_key = Inr example_token"
  by (simp add: example_token_def sign_capability_def example_key_valid Let_def)

lemma nat_digits_small [simp]: "nat_digits 0 = ''0''" "nat_digits (Suc 0) = ''1''"
  by code_simp+

definition example_approved :: trust where
  "example_approved = snd (create_confirmation_request checksum ''p'' ''fs_write'' ''a.txt'' [(''n'', JInt 1)] None
     ''CONTROL_PLANE_GATE'' ''why'' 300 example_trust)"

lemma example_approval:
  obtains reply where "create_confirmation_request checksum ''p'' ''fs_write'' ''a.txt'' [(''n'', JInt 1)] None
     ''CONTROL_PLANE_GATE'' ''why'' 300 example_trust = (Inr reply, example_approved)"
  unfolding example_approved_def by (simp add: create_confirmation_request_def Let_def example_trust_def)

lemmas example_approval_facts =
  example_mac_ascii example_token_signed [unfolded example_claims_def]

lemma example_consumed:
  obtains t2 where "validate_and_consume_capability checksum example_mac ''conf_0'' example_token ''p'' ''fs_write''
      ''a.txt'' [(''n'', JInt 1)] None example_key example_approved = (Inr True, t2)"
    and "consumed t2 = [(checksum (utf8 ''n0''), [(''confirmation_id'', JStr ''conf_0''), (''consumed_at'', JInt 1000)])]"
    and "minted t2 = 1" "clock t2 = 1000" "\<not> write_fails t2" "\<not> sync_fails t2"
    and "conf_ids t2 = nat_digits" "nonce_draws t2 = (\<lambda>i. ''n'' @ nat_digits i)"
proof -
  obtain reply where *: "create_confirmation_request checksum ''p'' ''fs_write'' ''a.txt'' [(''n'', JInt 1)] None
     ''CONTROL_PLANE_GATE'' ''why'' 300 example_trust = (Inr reply, example_approved)"
    by (rule example_approval)
  show ?thesis
    using approval_run [OF example_mac_ascii _ _ _ _ _ * _ example_token_signed [unfolded example_claims_def]] that
    by (auto simp: example_trust_def)
qed

theorem approval_admits_once_witness:
  "\<exists>t2 t3.
    validate_and_consume_capability checksum example_mac ''conf_0'' example_token ''p'' ''fs_write'' ''a.txt''
      [(''n'', JInt 1)] None example_key example_approved = (Inr True, t2) \<and>
    validate_and_consume_capability checksum example_mac ''conf_0'' example_token ''p'' ''fs_write'' ''a.txt''
      [(''n'', JInt 1)] None example_key t2 = (Inr False, t3)"
proof -
  obtain reply where "create_confirmation_request checksum ''p'' ''fs_write'' ''a.txt'' [(''n'', JInt 1)] None
     ''CONTROL_PLANE_GATE'' ''why'' 300 example_trust = (Inr reply, example_approved)"
    by (rule example_approval)
  then show ?thesis
    by (rule approval_admits_once [rotated 6])
      (simp_all add: example_approval_facts, simp_all add: example_trust_def)
qed


theorem no_durability_no_authority_witness:
  "fst (validate_and_consume_capability checksum example_mac ''conf_0'' example_token ''p'' ''fs_write'' ''a.txt''
      [(''n'', JInt 1)] None example_key (example_approved\<lparr>sync_fails := True\<rparr>)) \<noteq> Inr True \<and>
   snd (validate_and_consume_capability checksum example_mac ''conf_0'' example_token ''p'' ''fs_write'' ''a.txt''
      [(''n'', JInt 1)] None example_key (example_approved\<lparr>sync_fails := True\<rparr>))
     = example_approved\<lparr>sync_fails := True\<rparr>"
  using no_durability_no_authority [of "example_approved\<lparr>sync_fails := True\<rparr>" checksum example_mac "''conf_0''"
      example_token "''p''" "''fs_write''" "''a.txt''" "[(''n'', JInt 1)]" None example_key]
  by (simp add: example_approved_def create_confirmation_request_def example_trust_def Let_def)

theorem sign_then_decode_witness:
  "\<exists>d. decode_and_verify_capability example_mac example_token example_key = Inr d \<and>
     dget d ''target'' = JStr ''a.txt'' \<and> dget d ''expires_at'' = JInt 1300"
proof -
  have "plain_json (JObj example_claims)"
    unfolding example_claims_def by (rule record_plain)
  from sign_then_decode [OF example_mac_ascii this example_token_signed]
  obtain d where "decode_and_verify_capability example_mac example_token example_key = Inr d"
    and "\<And>k. dget d k = sorted_json (dget example_claims k)" by blast
  then show ?thesis
    by (simp add: example_claims_def confirmation_record_def dget_def example_trust_def)
qed

lemma example_sign:
  "sign_capability example_mac c example_key =
     Inr (case sign_capability example_mac c example_key of Inr s \<Rightarrow> s | Inl _ \<Rightarrow> '''')"
  by (simp add: sign_capability_def example_key_valid Let_def)

definition example_token2 :: string where
  "example_token2 = (case sign_capability example_mac (confirmation_record checksum ''conf_1'' ''p'' ''fs_write''
     ''b.txt'' [] None ''CONTROL_PLANE_GATE'' ''why'' 300 (example_trust\<lparr>minted := 1\<rparr>)) example_key of
       Inr s \<Rightarrow> s | Inl _ \<Rightarrow> '''')"

definition example_calls :: "trust_call list" where
  "example_calls =
     [Propose ''p'' ''fs_write'' ''a.txt'' [(''n'', JInt 1)] None ''CONTROL_PLANE_GATE'' ''why'' 300,
      Consume ''conf_0'' example_token ''p'' ''fs_write'' ''a.txt'' [(''n'', JInt 1)] None example_key,
      Propose ''p'' ''fs_write'' ''b.txt'' [] None ''CONTROL_PLANE_GATE'' ''why'' 300,
      Consume ''conf_1'' example_token2 ''p'' ''fs_write'' ''b.txt'' [] None example_key]"

lemma example_calls_run:
  "fst (run_all (trust_step checksum example_mac) example_trust example_calls) =
     [Inr False, Inr True, Inr False, Inr True]"
proof -
  obtain r1 where 1: "create_confirmation_request checksum ''p'' ''fs_write'' ''a.txt'' [(''n'', JInt 1)] None
     ''CONTROL_PLANE_GATE'' ''why'' 300 example_trust = (Inr r1, example_approved)"
    by (rule example_approval)
  obtain t2 where 2: "validate_and_consume_capability checksum example_mac ''conf_0'' example_token ''p'' ''fs_write''
      ''a.txt'' [(''n'', JInt 1)] None example_key example_approved = (Inr True, t2)"
    and t2: "consumed t2 = [(checksum (utf8 ''n0''), [(''confirmation_id'', JStr ''conf_0''), (''consumed_at'', JInt 1000)])]"
      "minted t2 = 1" "clock t2 = 1000" "\<not> write_fails t2" "\<not> sync_fails t2"
      "conf_ids t2 = nat_digits" "nonce_draws t2 = (\<lambda>i. ''n'' @ nat_digits i)"
    by (rule example_consumed)
  obtain r3 t3 where 3: "create_confirmation_request checksum ''p'' ''fs_write'' ''b.txt'' [] None
     ''CONTROL_PLANE_GATE'' ''why'' 300 t2 = (Inr r3, t3)"
    by (simp add: create_confirmation_request_def Let_def t2)
  have same: "confirmation_record checksum ''conf_1'' ''p'' ''fs_write'' ''b.txt'' [] None ''CONTROL_PLANE_GATE''
      ''why'' 300 t2 = confirmation_record checksum ''conf_1'' ''p'' ''fs_write'' ''b.txt'' [] None
      ''CONTROL_PLANE_GATE'' ''why'' 300 (example_trust\<lparr>minted := 1\<rparr>)"
    by (simp add: confirmation_record_def t2 example_trust_def)
  have "sign_capability example_mac (confirmation_record checksum ''conf_1'' ''p'' ''fs_write''
     ''b.txt'' [] None ''CONTROL_PLANE_GATE'' ''why'' 300 t2) example_key = Inr example_token2"
    unfolding example_token2_def same by (rule example_sign)
  moreover have "checksum (utf8 ''n1'') \<noteq> checksum (utf8 ''n0'')"
    by code_simp
  ultimately obtain t4 where 4: "validate_and_consume_capability checksum example_mac ''conf_1'' example_token2
      ''p'' ''fs_write'' ''b.txt'' [] None example_key t3 = (Inr True, t4)"
    using approval_run [OF example_mac_ascii _ _ _ _ _ 3 refl] t2 by auto
  show ?thesis
    by (simp add: example_calls_def bindM_app 1 2 3 4)
qed

theorem capability_single_use_witness:
  "trust_key checksum example_mac (example_calls ! 1) \<noteq> trust_key checksum example_mac (example_calls ! 3) \<and>
   trust_token (example_calls ! 1) \<noteq> trust_token (example_calls ! 3)"
  by (rule capability_single_use [where t = example_trust])
    (simp_all only: example_calls_run, simp_all add: example_calls_def)

theorem operator_key_placement_witness:
  "\<exists>q. resolve (\<lambda>_. None) [''k'', ''op''] = Some q \<and>
     disk (snd (rotate_operator_key (\<lambda>_. None) [''k'', ''op''] [[''g'']] example_key True
       \<lparr>disk = [(''/k/op'', Reg ''old'')], journal = [], denied = [], now = 0, now_ns = 0, stamp = '''',
        draws = (\<lambda>_. ''''), drawn = 0, budget = None\<rparr>)) = aset (path_str q) (Reg example_key) [(''/k/op'', Reg ''old'')]"
proof -
  let ?w = "\<lparr>disk = [(''/k/op'', Reg ''old'')], journal = [], denied = [], now = 0, now_ns = 0, stamp = '''',
        draws = (\<lambda>_. ''''), drawn = 0, budget = None\<rparr> :: world"
  have "is_ok (fst (rotate_operator_key (\<lambda>_. None) [''k'', ''op''] [[''g'']] example_key True ?w))"
    by code_simp
  then obtain k where "rotate_operator_key (\<lambda>_. None) [''k'', ''op''] [[''g'']] example_key True ?w =
      (Inr k, snd (rotate_operator_key (\<lambda>_. None) [''k'', ''op''] [[''g'']] example_key True ?w))"
    by (metis is_ok.elims(2) prod.collapse)
  with operator_key_placement [of "\<lambda>_. None" "[''k'', ''op'']" "[[''g'']]" False example_key True ?w]
  show ?thesis by fastforce
qed

theorem trusted_executable_pinned_witness:
  "\<exists>spec b. dget [(''git'', JObj [(''path'', JStr ''/b/git''), (''sha256'', JStr (replicate 64 (CHR ''a'')))])]
       (removesuffix ''.exe'' (lower (strip_ws ''Git.EXE''))) = JObj spec \<and>
     read_bytes ''/b/git'' \<lparr>disk = [(''/b/git'', Reg ''elf'')], journal = [], denied = [], now = 0, now_ns = 0,
        stamp = '''', draws = (\<lambda>_. ''''), drawn = 0, budget = None\<rparr> = Inr b \<and>
     length (replicate 64 (CHR ''A'')) = 64"
proof -
  let ?w = "\<lparr>disk = [(''/b/git'', Reg ''elf'')], journal = [], denied = [], now = 0, now_ns = 0,
        stamp = '''', draws = (\<lambda>_. ''''), drawn = 0, budget = None\<rparr> :: world"
  let ?t = "[(''git'', JObj [(''path'', JStr ''/b/git''), (''sha256'', JStr (replicate 64 (CHR ''a'')))])]"
  have "resolve_trusted_executable (\<lambda>_. replicate 64 (CHR ''A'')) Inr ''Git.EXE'' ?t ?w = Inr ''/b/git''"
    by code_simp
  with trusted_executable_pinned [of "\<lambda>_. replicate 64 (CHR ''A'')" Inr "''Git.EXE''" ?t ?w "''/b/git''"]
  show ?thesis by fastforce
qed

theorem operator_secret_roundtrip_witness:
  "load_operator_secret_from_env ''V'' (aset ''V'' (hexlify example_key) []) = Inr example_key \<and>
   length example_key = 32"
  using operator_secret_roundtrip [of example_key "''V''" "[]" example_key]
    operator_secret_roundtrip [of example_key "''V''" "aset ''V'' (hexlify example_key) []" example_key]
  by (simp add: example_key_valid del: AList.update.simps)

end
