(* ===== verification/Locks.thy ===== *)
theory Locks
  imports Authority Registry
begin

text \<open>
  \<open>src/jvc/policy/locks.py\<close>: the interprocess locks that serialize governed mutations.

  The operating system's file locks are \<open>oslocks\<close>: which descriptor holds the lock of which lock
  file, and the next descriptor to be opened. The record can be extended, so that a component
  whose operations run under a lock keeps its own state beside it. \<open>others k\<close> is what other
  processes do to the state while this one sleeps after its \<open>k\<close>-th attempt, and \<open>D\<close> is the
  hexadecimal SHA-256 of the standard library in lower case.
\<close>

section \<open>Names\<close>

definition lock_digest :: "hash \<Rightarrow> string \<Rightarrow> string" where
  "lock_digest D text = ''jvc-'' @ take 48 (D (utf8 text))"

definition lock_name_for :: "hash \<Rightarrow> string list \<Rightarrow> string" where
  "lock_name_for D ps = lock_digest D (join [chr 0] ps)"

definition canonical_resource_id :: "links \<Rightarrow> path \<Rightarrow> string result" where
  "canonical_resource_id L p = bindR (resolved_path L p) (\<lambda>q. Inr (path_str q))"

definition lock_name_for_resource :: "hash \<Rightarrow> links \<Rightarrow> string \<Rightarrow> path \<Rightarrow> string result" where
  "lock_name_for_resource D L kind p =
     bindR (canonical_resource_id L p) (\<lambda>i. Inr (lock_digest D (kind @ [chr 0] @ i)))"

section \<open>The lock object\<close>

datatype mechanism = Msvcrt | Fcntl | NoMechanism

definition lock_mechanism :: "bool \<Rightarrow> bool \<Rightarrow> mechanism" where
  "lock_mechanism nt importable =
     (if nt then (if importable then Msvcrt else NoMechanism)
      else if importable then Fcntl else NoMechanism)"

record resource_lock =
  lock_dir :: path
  lock_name :: string
  timeout :: int
  lock_roots :: "path list"
  mech :: mechanism
  lock_path :: "path option"
  handle :: "nat option"

definition new_lock :: "mechanism \<Rightarrow> path \<Rightarrow> string \<Rightarrow> int \<Rightarrow> path list \<Rightarrow> resource_lock" where
  "new_lock m dir n t roots =
     \<lparr>lock_dir = dir, lock_name = n, timeout = t, lock_roots = roots, mech = m, lock_path = None, handle = None\<rparr>"

definition established_path :: "resource_lock \<Rightarrow> path result" where
  "established_path lk = (case lock_path lk of None \<Rightarrow> Inl LockError | Some p \<Rightarrow> Inr p)"

definition inside_any :: "path \<Rightarrow> path list \<Rightarrow> bool" where
  "inside_any p roots \<longleftrightarrow> (\<exists>g \<in> set roots. relative_to p g \<noteq> None)"

text \<open>\<open>creatable\<close> says which directories \<open>mkdir\<close> can establish. A loop of links is no \<open>OSError\<close>.\<close>

definition validate_lock :: "fsview \<Rightarrow> (path \<Rightarrow> bool) \<Rightarrow> resource_lock \<Rightarrow> path result" where
  "validate_lock F creatable lk =
     (if mech lk = NoMechanism then Inl LockError
      else if lock_name lk = [] \<or> CHR ''/'' \<in> set (lock_name lk) \<or> CHR 0x5C \<in> set (lock_name lk) then Inl LockError
      else bindR (resolved_path (symlinks F) (lock_dir lk)) (\<lambda>resolved.
        if regular F resolved then Inl LockError
        else if inside_any resolved (lock_roots lk) then Inl LockError
        else if \<not> creatable resolved then Inl LockError
        else let candidate = resolved @ [lock_name lk @ ''.lock''] in
        bindR (resolved_path (symlinks F) candidate) (\<lambda>real.
        if inside_any real (lock_roots lk) then Inl LockError else Inr candidate)))"

section \<open>Taking and leaving a lock\<close>

record oslocks =
  owner :: "(string, nat) alist"
  next_fd :: nat
  unopenable :: "string list"
  unlock_fails :: bool

text \<open>One non-blocking attempt of descriptor \<open>fd\<close> on file \<open>f\<close>.\<close>

definition lock_free :: "string \<Rightarrow> nat \<Rightarrow> 'a oslocks_scheme \<Rightarrow> bool" where
  "lock_free f fd s \<longleftrightarrow> (case aget (owner s) f of None \<Rightarrow> True | Some g \<Rightarrow> g = fd)"

definition grant :: "string \<Rightarrow> nat \<Rightarrow> 'a oslocks_scheme \<Rightarrow> 'a oslocks_scheme" where
  "grant f fd s = s\<lparr>owner := aset f fd (owner s)\<rparr>"

text \<open>Closing a descriptor gives up what it holds.\<close>

definition close_fd :: "nat \<Rightarrow> 'a oslocks_scheme \<Rightarrow> 'a oslocks_scheme" where
  "close_fd fd s = s\<lparr>owner := filter (\<lambda>p. snd p \<noteq> fd) (owner s)\<rparr>"

text \<open>\<open>clk k\<close> is what \<open>time.monotonic\<close> reads after the \<open>k\<close>-th failed attempt.\<close>

partial_function (option) blocking_lock ::
    "(nat \<Rightarrow> 'a oslocks_scheme \<Rightarrow> 'a oslocks_scheme) \<Rightarrow> (nat \<Rightarrow> int) \<Rightarrow> int \<Rightarrow> string \<Rightarrow> nat \<Rightarrow> nat \<Rightarrow>
     'a oslocks_scheme \<Rightarrow> (unit result \<times> 'a oslocks_scheme) option" where
  "blocking_lock others clk deadline f fd k s =
     (if lock_free f fd s then Some (Inr (), grant f fd s)
      else if deadline \<le> clk k then Some (Inl LockTimeoutError, s)
      else blocking_lock others clk deadline f fd (Suc k) (others k s))"

declare blocking_lock.simps [code]

text \<open>The same with the number of attempts the deadline leaves, which the callers use.\<close>

primrec poll_lock ::
    "(nat \<Rightarrow> 'a oslocks_scheme \<Rightarrow> 'a oslocks_scheme) \<Rightarrow> string \<Rightarrow> nat \<Rightarrow> nat \<Rightarrow> nat \<Rightarrow> ('a oslocks_scheme, unit) M" where
  "poll_lock others f fd 0 k = (\<lambda>s. if lock_free f fd s then (Inr (), grant f fd s) else (Inl LockTimeoutError, s))"
| "poll_lock others f fd (Suc n) k = (\<lambda>s.
     if lock_free f fd s then (Inr (), grant f fd s)
     else poll_lock others f fd n (Suc k) (others k s))"

definition acquire ::
    "fsview \<Rightarrow> (path \<Rightarrow> bool) \<Rightarrow> (nat \<Rightarrow> 'a oslocks_scheme \<Rightarrow> 'a oslocks_scheme) \<Rightarrow> nat \<Rightarrow> resource_lock \<Rightarrow>
     ('a oslocks_scheme, resource_lock) M" where
  "acquire F creatable others retries lk =
     bindM (readM (\<lambda>_. validate_lock F creatable lk)) (\<lambda>candidate.
     bindM (readM (\<lambda>s. if path_str candidate \<in> set (unopenable s) then Inl LockError else Inr (next_fd s))) (\<lambda>fd.
     bindM (\<lambda>s. (Inr (), s\<lparr>next_fd := Suc fd\<rparr>)) (\<lambda>_.
     bindM (poll_lock others (path_str candidate) fd retries 0) (\<lambda>_.
     ret (lk\<lparr>lock_path := Some candidate, handle := Some fd\<rparr>)))))"

definition release :: "resource_lock \<Rightarrow> 'a oslocks_scheme \<Rightarrow> unit result \<times> resource_lock \<times> 'a oslocks_scheme" where
  "release lk s = (case handle lk of
      None \<Rightarrow> (Inr (), lk, s)
    | Some fd \<Rightarrow> (if unlock_fails s then Inl LockError else Inr (), lk\<lparr>handle := None\<rparr>, close_fd fd s))"

text \<open>\<open>with lock: body\<close>. A process that loses power leaves its locks to the operating system.\<close>

definition with_lock ::
    "fsview \<Rightarrow> (path \<Rightarrow> bool) \<Rightarrow> (nat \<Rightarrow> 'a oslocks_scheme \<Rightarrow> 'a oslocks_scheme) \<Rightarrow> nat \<Rightarrow> resource_lock \<Rightarrow>
     ('a oslocks_scheme, 'b) M \<Rightarrow> ('a oslocks_scheme, 'b) M" where
  "with_lock F creatable others retries lk body =
     bindM (acquire F creatable others retries lk) (\<lambda>held s.
       case body s of (r, s') \<Rightarrow>
         (case release held s' of (rel, _, s'') \<Rightarrow>
           (if r = Inl PowerLoss then (r, s'') else case rel of Inl e \<Rightarrow> (Inl e, s'') | Inr _ \<Rightarrow> (r, s''))))"

section \<open>The loop of attempts\<close>

lemma poll_lock_ends: "fst (poll_lock others f fd n k s) \<in> {Inr (), Inl LockTimeoutError}"
  by (induction n arbitrary: k s) simp_all

lemma blocking_poll:
  "(\<forall>i < n. clk (k + i) < deadline) \<Longrightarrow> deadline \<le> clk (k + n) \<Longrightarrow>
   blocking_lock others clk deadline f fd k s = Some (poll_lock others f fd n k s)"
proof (induction n arbitrary: k s)
  case 0
  then show ?case by (subst blocking_lock.simps) simp
next
  case (Suc n)
  from Suc.prems have "clk k < deadline" by force
  moreover have "blocking_lock others clk deadline f fd (Suc k) (others k s) = Some (poll_lock others f fd n (Suc k) (others k s))"
    using Suc.prems by (intro Suc.IH) (auto simp: less_Suc_eq_0_disj)
  ultimately show ?case by (subst blocking_lock.simps) simp
qed

text \<open>C38. Waiting for a lock ends: once the clock passes the deadline the attempts stop, with the
  lock or with a timeout, and the number of attempts is the number of readings before it.\<close>

theorem lock_wait_ends:
  assumes "\<exists>k. deadline \<le> clk k"
  shows "blocking_lock others clk deadline f fd 0 s =
      Some (poll_lock others f fd (LEAST k. deadline \<le> clk k) 0 s) \<and>
    fst (poll_lock others f fd (LEAST k. deadline \<le> clk k) 0 s) \<in> {Inr (), Inl LockTimeoutError}"
proof
  have "deadline \<le> clk (0 + (LEAST k. deadline \<le> clk k))"
    using LeastI_ex [OF assms] by simp
  moreover have "\<forall>i < (LEAST k. deadline \<le> clk k). clk (0 + i) < deadline"
  proof (intro allI impI)
    fix i
    assume "i < (LEAST k. deadline \<le> clk k)"
    from not_less_Least [OF this] show "clk (0 + i) < deadline" by simp
  qed
  ultimately show "blocking_lock others clk deadline f fd 0 s =
      Some (poll_lock others f fd (LEAST k. deadline \<le> clk k) 0 s)"
    by (rule blocking_poll [rotated])
qed (rule poll_lock_ends)

theorem lock_wait_ends_witness:
  "blocking_lock (\<lambda>_ s. s) (\<lambda>k. 20 * int k) 50 ''/l/a.lock'' 7 0
     \<lparr>owner = [(''/l/a.lock'', 3)], next_fd = 8, unopenable = [], unlock_fails = False\<rparr> =
   Some (poll_lock (\<lambda>_ s. s) ''/l/a.lock'' 7 (LEAST k. (50::int) \<le> 20 * int k) 0
     \<lparr>owner = [(''/l/a.lock'', 3)], next_fd = 8, unopenable = [], unlock_fails = False\<rparr>)"
  by (rule lock_wait_ends [THEN conjunct1]) (rule exI [of _ 3], simp)

section \<open>Mutual exclusion\<close>

text \<open>
  What a mutex promises, whatever it is made of: an invariant that its steps keep, at most one
  holder of a resource where the invariant holds, and a holding that only its holder's own step
  ends. The client may then rely on its section being undisturbed.
\<close>

locale mutex =
  fixes step :: "'s \<Rightarrow> 'c \<Rightarrow> 's \<Rightarrow> bool"
    and inv :: "'s \<Rightarrow> bool"
    and holds :: "'s \<Rightarrow> 'c \<Rightarrow> 'r \<Rightarrow> bool"
  assumes inv_step: "inv s \<Longrightarrow> step s c s' \<Longrightarrow> inv s'"
    and exclusive: "inv s \<Longrightarrow> holds s c r \<Longrightarrow> holds s d r \<Longrightarrow> c = d"
    and stays_held: "inv s \<Longrightarrow> holds s c r \<Longrightarrow> step s d s' \<Longrightarrow> c \<noteq> d \<Longrightarrow> holds s' c r"
begin

inductive runs_to :: "'s \<Rightarrow> 'c list \<Rightarrow> 's \<Rightarrow> bool" where
  done_run: "runs_to s [] s"
| one_more: "step s c s' \<Longrightarrow> runs_to s' cs s'' \<Longrightarrow> runs_to s (c # cs) s''"

lemma inv_run: "runs_to s cs s' \<Longrightarrow> inv s \<Longrightarrow> inv s'"
  by (induction rule: runs_to.induct) (auto intro: inv_step)

lemma exclusive_run:
  "inv s \<Longrightarrow> runs_to s cs s' \<Longrightarrow> holds s' c r \<Longrightarrow> holds s' d r \<Longrightarrow> c = d"
  by (blast intro: exclusive inv_run)

lemma undisturbed:
  "runs_to s cs s' \<Longrightarrow> inv s \<Longrightarrow> holds s c r \<Longrightarrow> c \<notin> set cs \<Longrightarrow>
     holds s' c r \<and> (\<forall>d. holds s' d r \<longrightarrow> d = c)"
proof (induction rule: runs_to.induct)
  case (done_run s)
  then show ?case by (blast intro: exclusive)
next
  case (one_more s d s' cs s'')
  then have "holds s' c r" by (auto intro: stays_held)
  moreover have "inv s'" using one_more by (blast intro: inv_step)
  ultimately show ?case using one_more by simp
qed

end

text \<open>
  The processes of one host: each client holds at most one lock object at a time. A step is one
  attempt (with a descriptor of its own, as \<open>acquire\<close> opens it), or the end of a holding: a
  release, or the death of the process, which closes its descriptors.
\<close>

record lock_sys = oslocks +
  clients :: "(nat, string \<times> nat) alist"

definition open_fd :: "lock_sys \<Rightarrow> lock_sys" where
  "open_fd s = s\<lparr>next_fd := Suc (next_fd s)\<rparr>"

inductive client_step :: "lock_sys \<Rightarrow> nat \<Rightarrow> lock_sys \<Rightarrow> bool" where
  takes: "aget (clients s) c = None \<Longrightarrow>
    poll_lock others f (next_fd s) 0 k (open_fd s) = (Inr (), s') \<Longrightarrow>
    client_step s c (s'\<lparr>clients := aset c (f, next_fd s) (clients s')\<rparr>)"
| times_out: "poll_lock others f (next_fd s) 0 k (open_fd s) = (Inl e, s') \<Longrightarrow>
    client_step s c (close_fd (next_fd s) s')"
| leaves: "aget (clients s) c = Some (f, fd) \<Longrightarrow>
    client_step s c ((close_fd fd s)\<lparr>clients := adel c (clients s)\<rparr>)"

inductive_cases client_stepE: "client_step s c s'"

definition holds_lock :: "lock_sys \<Rightarrow> nat \<Rightarrow> string \<Rightarrow> bool" where
  "holds_lock s c f \<longleftrightarrow> (\<exists>fd. aget (clients s) c = Some (f, fd))"

text \<open>The system agrees with the clients: who believes to hold a lock does, by its own descriptor.\<close>

definition lock_inv :: "lock_sys \<Rightarrow> bool" where
  "lock_inv s \<longleftrightarrow> distinct (map fst (owner s)) \<and>
     (\<forall>c f fd. aget (clients s) c = Some (f, fd) \<longrightarrow> aget (owner s) f = Some fd \<and> fd < next_fd s) \<and>
     (\<forall>c d f g fd. aget (clients s) c = Some (f, fd) \<longrightarrow> aget (clients s) d = Some (g, fd) \<longrightarrow> c = d)"

lemma aget_filter_snd:
  "distinct (map fst l) \<Longrightarrow>
   aget (filter (\<lambda>p. snd p \<noteq> fd) l) f = (case aget l f of None \<Rightarrow> None | Some g \<Rightarrow> if g = fd then None else Some g)"
proof (induction l)
  case (Cons p l)
  obtain k v where p: "p = (k, v)" by (cases p)
  from Cons.prems p have "k \<notin> fst ` set l" "distinct (map fst l)" by auto
  then have "aget l k = None" by (simp add: map_of_eq_None_iff)
  with Cons p \<open>distinct (map fst l)\<close> show ?case by (auto split: option.splits)
qed simp

lemma distinct_filter_fst: "distinct (map fst l) \<Longrightarrow> distinct (map fst (filter P l))"
  by (induction l) auto

lemma distinct_aset: "distinct (map fst l) \<Longrightarrow> distinct (map fst (aset k v l))"
  by (rule distinct_update)

lemma fresh_fd_lock:
  assumes "lock_inv s" and "aget (clients s) c = Some (f, fd)"
  shows "fd \<noteq> next_fd s"
  using assms unfolding lock_inv_def by (metis nat_neq_iff)

lemma close_other:
  assumes "lock_inv s" and "aget (clients s) c = Some (f, fd)" and "fd \<noteq> g"
  shows "aget (owner (close_fd g s)) f = Some fd"
proof -
  from assms have "distinct (map fst (owner s))" "aget (owner s) f = Some fd"
    unfolding lock_inv_def by blast+
  with assms(3) show ?thesis by (simp add: close_fd_def aget_filter_snd)
qed

lemma taken_owner:
  assumes "lock_inv s" and "poll_lock others f (next_fd s) 0 k (open_fd s) = (Inr (), s')"
    and "aget (clients s) d = Some (g, fd)"
  shows "aget (owner s') g = Some fd"
proof -
  from assms(2) have free: "lock_free f (next_fd s) (open_fd s)" and s': "s' = grant f (next_fd s) (open_fd s)"
    by (auto split: if_splits)
  from assms(1,3) have own: "aget (owner s) g = Some fd" unfolding lock_inv_def by blast
  have "g \<noteq> f"
  proof
    assume "g = f"
    with free own fresh_fd_lock [OF assms(1,3)] show False
      by (simp add: lock_free_def open_fd_def)
  qed
  with own s' show ?thesis by (simp add: grant_def open_fd_def)
qed

lemma client_step_inv: "client_step s c s' \<Longrightarrow> lock_inv s \<Longrightarrow> lock_inv s'"
proof (induction rule: client_step.induct)
  case (takes s c others f k s')
  then have s': "s' = grant f (next_fd s) (open_fd s)" by (auto split: if_splits)
  have "aget (owner s') g = Some fd \<and> fd < next_fd s'" if "aget (clients s) d = Some (g, fd)" for d g fd
    using taken_owner [OF takes.prems takes.hyps(2) that] takes.prems that s'
    unfolding lock_inv_def grant_def open_fd_def by (auto simp: less_Suc_eq)
  moreover have "fd \<noteq> next_fd s" if "aget (clients s) d = Some (g, fd)" for d g fd
    by (rule fresh_fd_lock [OF takes.prems that])
  moreover have "distinct (map fst (owner s'))"
    using takes.prems s' by (simp add: lock_inv_def grant_def open_fd_def distinct_aset)
  ultimately show ?case
    using takes.prems s' unfolding lock_inv_def
    by (auto simp: grant_def open_fd_def split: if_splits) blast+
next
  case (times_out others f s k e s' c)
  then have s': "s' = open_fd s" by (auto split: if_splits)
  have "aget (owner (close_fd (next_fd s) s)) g = Some fd" if "aget (clients s) d = Some (g, fd)" for d g fd
    using close_other [OF times_out.prems that] fresh_fd_lock [OF times_out.prems that] by blast
  with times_out.prems s' show ?case
    unfolding lock_inv_def by (auto simp: open_fd_def close_fd_def distinct_filter_fst less_Suc_eq)
next
  case (leaves s c f fd)
  have "aget (owner (close_fd fd s)) g = Some fe" if "aget (clients s) d = Some (g, fe)" "d \<noteq> c" for d g fe
    using close_other [OF leaves.prems that(1)] that leaves unfolding lock_inv_def by metis
  with leaves.prems show ?case
    unfolding lock_inv_def by (auto simp: close_fd_def distinct_filter_fst split: if_splits)
qed

interpretation host_lock: mutex client_step lock_inv holds_lock
proof
  show "lock_inv s'" if "lock_inv s" "client_step s c s'" for s c s'
    using that client_step_inv by blast
  show "c = d" if "lock_inv s" "holds_lock s c r" "holds_lock s d r" for s c d r
    using that unfolding lock_inv_def holds_lock_def by (metis option.inject)
  show "holds_lock s' c r" if "lock_inv s" "holds_lock s c r" "client_step s d s'" "c \<noteq> d" for s c d r s'
    using that(3,2,4)
    by (cases rule: client_step.cases)
      (auto simp: holds_lock_def grant_def open_fd_def close_fd_def split: if_splits)
qed

text \<open>C13. However the processes of a host interleave their attempts, releases and deaths, no two of
  them hold the lock of one file at once; and from the moment a process has taken a lock, no
  steps of the others take it away or let another one in, until the holder's own step.\<close>

theorem mutual_exclusion:
  assumes "lock_inv s" and "host_lock.runs_to s cs s'"
  shows "(holds_lock s' c f \<longrightarrow> holds_lock s' d f \<longrightarrow> c = d) \<and>
    (holds_lock s c f \<longrightarrow> c \<notin> set cs \<longrightarrow> holds_lock s' c f \<and> (\<forall>d. holds_lock s' d f \<longrightarrow> d = c))"
  using host_lock.exclusive_run [OF assms] host_lock.undisturbed [OF assms(2,1)] by blast

definition example_sys :: lock_sys where
  "example_sys = \<lparr>owner = [], next_fd = 3, unopenable = [], unlock_fails = False, clients = []\<rparr>"

lemma example_sys_inv: "lock_inv example_sys"
  by (simp add: lock_inv_def example_sys_def)

lemma example_sys_run:
  "host_lock.runs_to example_sys [0, 1]
     \<lparr>owner = [(''/l/a.lock'', 3)], next_fd = 5, unopenable = [], unlock_fails = False,
       clients = [(0, ''/l/a.lock'', 3)]\<rparr>"
proof -
  let ?s1 = "\<lparr>owner = [(''/l/a.lock'', 3)], next_fd = 4, unopenable = [], unlock_fails = False,
       clients = [(0, ''/l/a.lock'', 3)]\<rparr> :: lock_sys"
  have 1: "client_step example_sys 0 ?s1"
    using client_step.takes [of example_sys 0 "\<lambda>_ s. s" "''/l/a.lock''" 0]
    by (simp add: example_sys_def open_fd_def lock_free_def grant_def)
  have 2: "client_step ?s1 1 (close_fd 4 (open_fd ?s1))"
    using client_step.times_out [of "\<lambda>_ s. s" "''/l/a.lock''" ?s1 0 LockTimeoutError "open_fd ?s1" 1]
    by (simp add: open_fd_def lock_free_def)
  show ?thesis
    using host_lock.one_more [OF 1 host_lock.one_more [OF 2 host_lock.done_run]]
    by (simp add: close_fd_def open_fd_def)
qed

theorem mutual_exclusion_witness:
  "\<exists>s' :: lock_sys. holds_lock s' 0 ''/l/a.lock'' \<and> \<not> holds_lock s' 1 ''/l/a.lock''"
proof -
  let ?s2 = "\<lparr>owner = [(''/l/a.lock'', 3)], next_fd = 5, unopenable = [], unlock_fails = False,
       clients = [(0, ''/l/a.lock'', 3)]\<rparr> :: lock_sys"
  have "holds_lock ?s2 0 ''/l/a.lock''" by (simp add: holds_lock_def)
  moreover have "holds_lock ?s2 0 f \<longrightarrow> holds_lock ?s2 1 f \<longrightarrow> (0::nat) = 1" for f
    using mutual_exclusion [OF example_sys_inv example_sys_run, of 0 f 1] by blast
  ultimately show ?thesis by auto
qed

section \<open>The lock of a resource\<close>

text \<open>The lock of a resource depends on where its path leads, not on how it is spelled: two
  paths of one resource take the same lock, and two resources share a lock only when the
  digests of their identities collide in the 48 characters that are kept.\<close>

theorem same_resource_same_lock:
  assumes "resolve L p = Some p'" and "resolve L q = Some q'"
  shows "(p' = q' \<longrightarrow> lock_name_for_resource D L kind p = lock_name_for_resource D L kind q) \<and>
    (lock_name_for_resource D L kind p = lock_name_for_resource D L kind q \<longrightarrow>
       path_str p' = path_str q' \<or>
       take 48 (D (utf8 (kind @ [chr 0] @ path_str p'))) = take 48 (D (utf8 (kind @ [chr 0] @ path_str q'))))"
  using assms by (auto simp: lock_name_for_resource_def canonical_resource_id_def resolved_path_def lock_digest_def)

theorem same_resource_same_lock_witness:
  "lock_name_for_resource id (\<lambda>p. if p = [''a''] then Some (True, [''b'']) else None) ''fs'' [''a'', ''f''] =
   lock_name_for_resource id (\<lambda>p. if p = [''a''] then Some (True, [''b'']) else None) ''fs'' [''b'', ''x'', ''..'', ''f'']"
proof -
  let ?L = "\<lambda>p. if p = [''a''] then Some (True, [''b'']) else None"
  have "resolve ?L [''a'', ''f''] = Some [''b'', ''f'']" by code_simp
  moreover have "resolve ?L [''b'', ''x'', ''..'', ''f''] = Some [''b'', ''f'']" by code_simp
  ultimately show ?thesis using same_resource_same_lock by blast
qed

text \<open>A lock is refused unless its file resolves outside every governed root, below a
  directory that resolves outside them too; without a locking primitive nothing is locked.\<close>

theorem lock_file_outside_roots:
  assumes "validate_lock F creatable lk = Inr p"
  shows "mech lk \<noteq> NoMechanism \<and>
    (\<exists>dir real. resolve (symlinks F) (lock_dir lk) = Some dir \<and> p = dir @ [lock_name lk @ ''.lock''] \<and>
       resolve (symlinks F) p = Some real \<and> \<not> inside_any dir (lock_roots lk) \<and> \<not> inside_any real (lock_roots lk)) \<and>
    CHR ''/'' \<notin> set (lock_name lk)"
  using assms by (auto simp: validate_lock_def bindR_Inr_iff resolved_path_Inr Let_def split: if_splits)

theorem lock_file_outside_roots_witness:
  "\<exists>real. \<not> inside_any real [[''g'']] \<and> resolve (\<lambda>_. None) [''l'', ''a.lock''] = Some real"
proof -
  let ?F = "\<lparr>symlinks = \<lambda>_. None, cwd = [], dirs = \<lambda>_. True, regular = \<lambda>_. False\<rparr>"
  have "validate_lock ?F (\<lambda>_. True) (new_lock Fcntl [''l''] ''a'' 3 [[''g'']]) = Inr [''l'', ''a.lock'']"
    by code_simp
  from lock_file_outside_roots [OF this] show ?thesis
    by (auto simp: new_lock_def)
qed

section \<open>A section under a lock\<close>

lemma acquire_Inr:
  assumes "acquire F creatable others n lk s = (Inr held, s')"
  obtains candidate fd where "validate_lock F creatable lk = Inr candidate" "fd = next_fd s"
    "held = lk\<lparr>lock_path := Some candidate, handle := Some fd\<rparr>"
    "poll_lock others (path_str candidate) fd n 0 (s\<lparr>next_fd := Suc fd\<rparr>) = (Inr (), s')"
  using assms by (auto simp: acquire_def elim!: bindM_InrE split: if_splits)

lemma close_fd_owner: "aget (owner (close_fd fd s)) f \<noteq> Some fd"
  by (auto simp: close_fd_def dest: map_of_SomeD)

lemma with_lock_eq:
  "with_lock F creatable others n lk body s =
    (case acquire F creatable others n lk s of
       (Inl e, s1) \<Rightarrow> (Inl e, s1)
     | (Inr held, s1) \<Rightarrow>
        (let (r, s2) = body s1 in
         (if r = Inl PowerLoss then r else if unlock_fails s2 \<and> handle held \<noteq> None then Inl LockError else r,
          case handle held of None \<Rightarrow> s2 | Some fd \<Rightarrow> close_fd fd s2)))"
  by (auto simp: with_lock_def bindM_def release_def Let_def split: prod.splits sum.splits option.splits)

text \<open>A section under a lock runs only when the lock was taken, and however it ends (normally, with
  any exception, or with the process) the lock is free again for others and the result is the
  section's own, except that a failing release is reported.\<close>

theorem lock_always_released:
  assumes "with_lock F creatable others n lk body s = (r, s')"
  shows "(\<exists>e. acquire F creatable others n lk s = (Inl e, s') \<and> r = Inl e) \<or>
    (\<exists>held fd s1 q s2. acquire F creatable others n lk s = (Inr held, s1) \<and> handle held = Some fd \<and>
       body s1 = (q, s2) \<and> s' = close_fd fd s2 \<and> (\<forall>f. aget (owner s') f \<noteq> Some fd) \<and>
       (r = q \<or> r = Inl LockError \<and> unlock_fails s2))"
proof (cases "acquire F creatable others n lk s")
  case (Pair a s1)
  show ?thesis
  proof (cases a)
    case (Inl e)
    with Pair assms show ?thesis by (simp add: with_lock_eq)
  next
    case (Inr held)
    with Pair have acq: "acquire F creatable others n lk s = (Inr held, s1)" by simp
    from acq obtain fd where fd: "handle held = Some fd" by (elim acquire_Inr) simp
    obtain q s2 where "body s1 = (q, s2)" by (cases "body s1")
    with acq fd assms show ?thesis
      by (auto simp: with_lock_eq close_fd_owner split: if_splits)
  qed
qed

definition example_lock :: resource_lock where
  "example_lock = new_lock Fcntl [''l''] ''a'' 3 [[''g'']]"

definition example_locks :: oslocks where
  "example_locks = \<lparr>owner = [], next_fd = 4, unopenable = [], unlock_fails = False\<rparr>"

definition example_fs :: fsview where
  "example_fs = \<lparr>symlinks = \<lambda>_. None, cwd = [], dirs = \<lambda>_. True, regular = \<lambda>_. False\<rparr>"

lemma example_acquire:
  obtains s1 where "acquire example_fs (\<lambda>_. True) (\<lambda>_ s. s) 2 example_lock example_locks =
    (Inr (example_lock\<lparr>lock_path := Some [''l'', ''a.lock''], handle := Some 4\<rparr>), s1)"
proof -
  have "fst (acquire example_fs (\<lambda>_. True) (\<lambda>_ s. s) 2 example_lock example_locks) =
    Inr (example_lock\<lparr>lock_path := Some [''l'', ''a.lock''], handle := Some 4\<rparr>)"
    by code_simp
  then show thesis using that by (metis prod.collapse)
qed

theorem lock_always_released_witness:
  "\<exists>r s'. with_lock example_fs (\<lambda>_. True) (\<lambda>_ s. s) 2 example_lock (raise ValueError :: (oslocks, unit) M)
      example_locks = (r, s') \<and> aget (owner s') ''/l/a.lock'' \<noteq> Some 4"
proof -
  obtain r s' where run: "with_lock example_fs (\<lambda>_. True) (\<lambda>_ s. s) 2 example_lock
      (raise ValueError :: (oslocks, unit) M) example_locks = (r, s')"
    by (rule prod.exhaust)
  obtain s1 where acq: "acquire example_fs (\<lambda>_. True) (\<lambda>_ s. s) 2 example_lock example_locks =
    (Inr (example_lock\<lparr>lock_path := Some [''l'', ''a.lock''], handle := Some 4\<rparr>), s1)"
    by (rule example_acquire)
  have "aget (owner s') ''/l/a.lock'' \<noteq> Some 4"
    using lock_always_released [OF run] unfolding acq by auto
  with run show ?thesis by blast
qed

text \<open>A lock is not reentrant: a process that asks for a lock it already holds, while nobody else
  acts, is told that the wait timed out, and keeps what it held.\<close>

theorem lock_not_reentrant:
  assumes "acquire F creatable (\<lambda>_ t. t) n lk s = (Inr held, s1)"
  shows "fst (acquire F creatable (\<lambda>_ t. t) m lk s1) = Inl LockTimeoutError \<and>
    owner (snd (acquire F creatable (\<lambda>_ t. t) m lk s1)) = owner s1"
proof -
  from assms obtain candidate fd where c: "validate_lock F creatable lk = Inr candidate" "fd = next_fd s"
    and o: "path_str candidate \<notin> set (unopenable s)"
    and p: "poll_lock (\<lambda>_ t. t) (path_str candidate) fd n 0 (s\<lparr>next_fd := Suc fd\<rparr>) = (Inr (), s1)"
    by (auto simp: acquire_def elim!: bindM_InrE split: if_splits)
  have quiet: "poll_lock (\<lambda>_ t. t) f g j k t = (Inr (), t') \<Longrightarrow> t' = grant f g t" for f g j k and t t' :: "'a oslocks_scheme"
    by (induction j arbitrary: k) (auto split: if_splits)
  have busy: "\<not> lock_free f g t \<Longrightarrow> poll_lock (\<lambda>_ t. t) f g j k t = (Inl LockTimeoutError, t)" for f g j k
    and t :: "'a oslocks_scheme"
    by (induction j arbitrary: k) auto
  from quiet [OF p] have s1: "s1 = grant (path_str candidate) fd (s\<lparr>next_fd := Suc fd\<rparr>)" .
  have "\<not> lock_free (path_str candidate) (next_fd s1) (s1\<lparr>next_fd := Suc (next_fd s1)\<rparr>)"
    by (simp add: s1 lock_free_def grant_def)
  note 1 = busy [OF this]
  have "path_str candidate \<notin> set (unopenable s1)" using o by (simp add: s1 grant_def)
  then show ?thesis by (simp add: acquire_def bindM_app c 1)
qed

theorem lock_not_reentrant_witness:
  "\<exists>s1. acquire example_fs (\<lambda>_. True) (\<lambda>_ s. s) 2 example_lock example_locks =
      (Inr (example_lock\<lparr>lock_path := Some [''l'', ''a.lock''], handle := Some 4\<rparr>), s1) \<and>
    fst (acquire example_fs (\<lambda>_. True) (\<lambda>_ s. s) 5 example_lock s1) = Inl LockTimeoutError"
proof -
  obtain s1 where acq: "acquire example_fs (\<lambda>_. True) (\<lambda>_ s. s) 2 example_lock example_locks =
    (Inr (example_lock\<lparr>lock_path := Some [''l'', ''a.lock''], handle := Some 4\<rparr>), s1)"
    by (rule example_acquire)
  from acq lock_not_reentrant [OF acq, of 5] show ?thesis by blast
qed

end
