(* ===== verification/Process.thy ===== *)
theory Process
  imports World Jsontext Registry
begin

text \<open>
  Child processes, as \<open>subprocess.run\<close> starts them, and the pieces of \<open>os.path\<close>
  the package applies to their arguments.

  What a program answers is not in the repository. It is a parameter, \<open>launcher\<close>: the
  outcome of a command may depend on every command started before it and on the files,
  and it may change the files. \<open>procs\<close> keeps the log of the commands started, so that a
  property can say which programs run, in which order and with which arguments. \<open>TimedOut\<close>
  and \<open>CannotStart\<close> carry the text of the exception, the former also what was read until then. \<open>platform\<close> adds the environment of
  the process and \<open>shutil.which\<close>.
\<close>

record command =
  argv :: "string list"
  directory :: "string option"
  time_limit :: "int option"
  environment :: "(string, string) alist option"

datatype run_outcome = Exited int bytes bytes | TimedOut string bytes bytes | CannotStart string

type_synonym launcher = "command list \<Rightarrow> command \<Rightarrow> world \<Rightarrow> run_outcome \<times> world"

record procs =
  surroundings :: world
  started :: "command list"

record platform =
  ambient :: "(string, string) alist"
  which :: "string \<Rightarrow> world \<Rightarrow> string option"
  launcher :: launcher

definition spawn :: "launcher \<Rightarrow> command \<Rightarrow> (procs, run_outcome) M" where
  "spawn L c = (\<lambda>s. case L (started s) c (surroundings s) of
     (out, w) \<Rightarrow> (Inr out, \<lparr>surroundings = w, started = started s @ [c]\<rparr>))"

text \<open>An empty argument vector and a null character are refused before anything is started.\<close>

definition start :: "platform \<Rightarrow> command \<Rightarrow> (procs, run_outcome) M" where
  "start P c =
     (if argv c = [] then raise IndexError
      else if \<exists>a \<in> set (argv c). chr 0 \<in> set a then raise ValueError
      else spawn (launcher P) c)"

text \<open>\<open>text=True\<close>: strict UTF-8 and universal newlines.\<close>

fun universal_newlines :: "string \<Rightarrow> string" where
  "universal_newlines [] = []"
| "universal_newlines [c] = (if code c = 13 then [chr 10] else [c])"
| "universal_newlines (c # d # s) =
     (if code c = 13 then
        (if code d = 10 then chr 10 # universal_newlines s else chr 10 # universal_newlines (d # s))
      else c # universal_newlines (d # s))"

definition read_text :: "bytes \<Rightarrow> string result" where
  "read_text b = (case utf8_decode b of None \<Rightarrow> Inl UnicodeDecodeError | Some t \<Rightarrow> Inr (universal_newlines t))"

definition texts :: "bytes \<Rightarrow> bytes \<Rightarrow> (string \<times> string) result" where
  "texts out err = bindR (read_text out) (\<lambda>u. bindR (read_text err) (\<lambda>v. Inr (u, v)))"

text \<open>Subscription \<open>v[k]\<close> needs an object.\<close>

definition as_obj :: "json \<Rightarrow> dict result" where
  "as_obj v = (case v of JObj d \<Rightarrow> Inr d | _ \<Rightarrow> Inl TypeError)"

lemma dget_Cons [simp]: "dget ((k, v) # d) k' = (if k' = k then v else dget d k')"
  by (simp add: dget_def)

section \<open>The log of commands\<close>

definition log_grows :: "procs \<Rightarrow> procs \<Rightarrow> bool" where
  "log_grows s s' \<longleftrightarrow> (\<exists>cs. started s' = started s @ cs)"

interpretation logging: evolution log_grows
  by unfold_locales (auto simp: log_grows_def)

lemma spawn_grows: "evolves log_grows (spawn L c)"
  by (auto simp: evolves_def spawn_def log_grows_def split: prod.splits)

lemma spawn_Inr:
  "spawn L c s = (r, s') \<Longrightarrow>
     \<exists>out w. r = Inr out \<and> L (started s) c (surroundings s) = (out, w) \<and>
       surroundings s' = w \<and> started s' = started s @ [c]"
  by (auto simp: spawn_def split: prod.splits)

lemma start_grows: "evolves log_grows (start P c)"
  unfolding start_def by (intro logging.combinators spawn_grows)

lemma start_Inr:
  "start P c s = (Inr out, s') \<Longrightarrow>
     argv c \<noteq> [] \<and> launcher P (started s) c (surroundings s) = (out, surroundings s') \<and>
     started s' = started s @ [c]"
  by (auto simp: start_def spawn_def split: if_splits prod.splits)

section \<open>Paths as text\<close>

text \<open>\<open>Path(s).is_file()\<close> and \<open>Path(s).read_bytes()\<close> through the links.\<close>

definition file_in :: "fsview \<Rightarrow> pypath \<Rightarrow> world \<Rightarrow> bool" where
  "file_in F p w = (case resolve_in F p of None \<Rightarrow> False | Some q \<Rightarrow> is_file (path_str q) w)"

definition read_in :: "fsview \<Rightarrow> pypath \<Rightarrow> world \<Rightarrow> bytes result" where
  "read_in F p w = (case resolve_in F p of None \<Rightarrow> Inl OSError | Some q \<Rightarrow> read_bytes (path_str q) w)"

text \<open>
  \<open>posixpath.expandvars\<close>: \<open>$name\<close> and \<open>${name}\<close>; a name the environment lacks stays as it is,
  and what is put in is not expanded again.
\<close>

definition is_name_char :: "char \<Rightarrow> bool" where
  "is_name_char c \<longleftrightarrow> is_digit c \<or> is_lower_az c \<or> is_upper_az c \<or> c = CHR ''_''"

definition variable :: "string \<Rightarrow> (string \<times> string \<times> string) option" where
  "variable s =
     (case s of
        [] \<Rightarrow> None
      | c # t \<Rightarrow>
          if c = CHR ''{'' then
            (let n = takeWhile (\<lambda>x. x \<noteq> CHR ''}'') t; r = dropWhile (\<lambda>x. x \<noteq> CHR ''}'') t
             in if r = [] then None else Some (c # n @ [hd r], n, tl r))
          else if is_name_char c then
            Some (takeWhile is_name_char s, takeWhile is_name_char s, dropWhile is_name_char s)
          else None)"

lemma variable_Some: "variable s = Some (t, n, r) \<Longrightarrow> s = t @ r \<and> t \<noteq> []"
proof (cases s)
  case (Cons c u)
  assume v: "variable s = Some (t, n, r)"
  show ?thesis
  proof (cases "c = CHR ''{''")
    case True
    let ?d = "dropWhile (\<lambda>x. x \<noteq> CHR ''}'') u"
    from v Cons True have "?d \<noteq> []" "t = c # takeWhile (\<lambda>x. x \<noteq> CHR ''}'') u @ [hd ?d]" "r = tl ?d"
      by (auto simp: variable_def Let_def split: if_splits)
    then have "t @ r = c # takeWhile (\<lambda>x. x \<noteq> CHR ''}'') u @ ?d" by simp
    then show ?thesis using Cons \<open>t = _\<close> by (simp only: takeWhile_dropWhile_id) simp
  next
    case False
    with v Cons show ?thesis by (auto simp: variable_def split: if_splits)
  qed
qed (simp add: variable_def)

function expandvars :: "(string, string) alist \<Rightarrow> string \<Rightarrow> string" where
  "expandvars env [] = []"
| "expandvars env (c # s) =
     (if c = CHR ''$'' then
        (case variable s of
           None \<Rightarrow> c # expandvars env s
         | Some (t, n, r) \<Rightarrow>
             (case aget env n of None \<Rightarrow> c # t | Some v \<Rightarrow> v) @ expandvars env r)
      else c # expandvars env s)"
  by pat_completeness auto
termination
proof (relation "measure (\<lambda>(env, s). length s)")
  fix c :: char and s t n r :: string and x y env
  assume "variable s = Some x" "(t, y) = x" "(n, r) = y"
  then have "s = t @ r" by (auto dest: variable_Some)
  then show "((env, r), env, c # s) \<in> measure (\<lambda>(env, s). length s)" by simp
qed simp_all

lemma expandvars_plain: "CHR ''$'' \<notin> set s \<Longrightarrow> expandvars env s = s"
  by (induction s) auto

text \<open>
  \<open>posixpath.normpath(posixpath.abspath(s))\<close>, lexically: two leading slashes, and no more,
  are kept. \<open>normcase\<close> is the identity on POSIX.
\<close>

fun collapse :: "string list \<Rightarrow> string list \<Rightarrow> string list" where
  "collapse acc [] = rev acc"
| "collapse acc (c # cs) =
     (if c = '''' \<or> c = ''.'' then collapse acc cs
      else if c = ''..'' then collapse (tl acc) cs
      else collapse (c # acc) cs)"

definition abspath :: "string \<Rightarrow> string \<Rightarrow> string" where
  "abspath here s =
     (let p = (if startswith s ''/'' then s else if endswith here ''/'' then here @ s else here @ ''/'' @ s);
          lead = (if startswith p ''//'' \<and> \<not> startswith p ''///'' then ''//'' else ''/'')
      in lead @ join ''/'' (collapse [] (split_on CHR ''/'' p)))"

text \<open>\<open>s[-n:]\<close> and the last line of a text that has one.\<close>

definition last_chars :: "nat \<Rightarrow> string \<Rightarrow> string" where
  "last_chars n s = drop (length s - n) s"

section \<open>Which exceptions an operation can raise\<close>

definition raises_only :: "exn set \<Rightarrow> ('s, 'a) M \<Rightarrow> bool" where
  "raises_only E m \<longleftrightarrow> (\<forall>s e s'. m s = (Inl e, s') \<longrightarrow> e \<in> E)"

lemma raises_ret [simp, intro!]: "raises_only E (ret x)"
  by (simp add: raises_only_def)

lemma raises_raise [intro!]: "e \<in> E \<Longrightarrow> raises_only E (raise e)"
  by (simp add: raises_only_def)

lemma raises_read: "(\<And>s e. f s = Inl e \<Longrightarrow> e \<in> E) \<Longrightarrow> raises_only E (readM f)"
  by (simp add: raises_only_def)

lemma raises_bind:
  assumes "raises_only E m" "\<And>x s s'. m s = (Inr x, s') \<Longrightarrow> raises_only E (f x)"
  shows "raises_only E (bindM m f)"
  using assms unfolding raises_only_def bindM_def
  by (fastforce split: prod.splits sum.splits)

lemma raises_mono: "raises_only E m \<Longrightarrow> E \<subseteq> E' \<Longrightarrow> raises_only E' m"
  by (auto simp: raises_only_def)

lemma raises_onlyD: "raises_only E m \<Longrightarrow> m s = (Inl e, s') \<Longrightarrow> e \<in> E"
  by (auto simp: raises_only_def)

lemma start_raises: "raises_only {IndexError, ValueError} (start P c)"
  by (auto simp: raises_only_def start_def spawn_def split: if_splits prod.splits)

lemma start_nonempty_raises: "argv c \<noteq> [] \<Longrightarrow> raises_only {ValueError} (start P c)"
  by (auto simp: raises_only_def start_def spawn_def split: if_splits prod.splits)

lemma texts_Inl: "texts so se = Inl e \<Longrightarrow> e = UnicodeDecodeError"
  by (auto simp: texts_def read_text_def split: option.splits)

end
