(* ===== verification/Executor.thy ===== *)
theory Executor
  imports Locks Store Process
begin

text \<open>
  \<open>src/jvc/execution/executor.py\<close>, the part that governs files: construction, recovery at
  startup, \<open>project_status\<close>, \<open>fs_write\<close> and \<open>fs_rollback\<close>.

  The executor's configuration is a record of its attributes. What its operations change is
  \<open>exec_state\<close>: the lock table, the files and the recovery journal (\<open>wd\<close>), the confirmation
  store (\<open>tr\<close>), the paths each project has staged and the log of the child processes.
  \<open>host\<close> holds what the operating system and the standard library supply: the links and the
  working directory, the hashes, the locking primitive, what other processes do while a lock is
  awaited, the programs, and the directory for temporary files.
\<close>

record executor =
  registry :: registry
  recovery_store :: recovery_store
  store_dir :: path
  confirmation_store :: path
  trusted_executables :: dict
  operator_secret :: "bytes option"
  declared_manifest :: dict
  lock_directory :: path
  governed_roots :: "path list"

record exec_state = oslocks +
  wd :: world
  tr :: trust
  staged :: "(string, string list) alist"
  launched :: "command list"

record host =
  fs :: fsview
  sha :: hash
  sha_lower :: hash
  hmac :: mac
  mechanism_of :: mechanism
  mkdir_ok :: "path \<Rightarrow> bool"
  others :: "nat \<Rightarrow> exec_state \<Rightarrow> exec_state"
  retries :: nat
  plat :: platform
  temp_dir :: path

definition in_world :: "(world, 'a) M \<Rightarrow> (exec_state, 'a) M" where
  "in_world m = (\<lambda>s. case m (wd s) of (r, w) \<Rightarrow> (r, s\<lparr>wd := w\<rparr>))"

definition in_trust :: "(trust, 'a) M \<Rightarrow> (exec_state, 'a) M" where
  "in_trust m = (\<lambda>s. case m (tr s) of (r, t) \<Rightarrow> (r, s\<lparr>tr := t\<rparr>))"

definition in_procs :: "(procs, 'a) M \<Rightarrow> (exec_state, 'a) M" where
  "in_procs m = (\<lambda>s. case m \<lparr>surroundings = wd s, started = launched s\<rparr> of
     (r, p) \<Rightarrow> (r, s\<lparr>wd := surroundings p, launched := started p\<rparr>))"

section \<open>Construction and recovery\<close>

definition route_roots :: "fsview \<Rightarrow> registry \<Rightarrow> path list" where
  "route_roots F g = map (\<lambda>r. abs_parts F (root_path r)) (list_routes g)"

text \<open>
  \<open>store_path\<close> is the root of the recovery store handed over or the default below the temporary
  directory. The two asserts return the resolved path, which the code does not keep.
\<close>

definition new_executor ::
    "fsview \<Rightarrow> registry \<Rightarrow> path \<Rightarrow> path option \<Rightarrow> dict \<Rightarrow> bytes option \<Rightarrow> dict \<Rightarrow> path \<Rightarrow> executor result" where
  "new_executor F g store_path conf trusted secret manifest lockd =
     (let roots = route_roots F g;
          conf_path = (case conf of None \<Rightarrow> store_path @ [''confirmations''] | Some c \<Rightarrow> c)
      in bindR (assert_trust_store_outside_roots (symlinks F) store_path roots) (\<lambda>_.
         bindR (assert_trust_store_outside_roots (symlinks F) conf_path roots) (\<lambda>_.
         bindR (mapR (resolved_path (symlinks F)) roots) (\<lambda>governed.
         Inr \<lparr>registry = g, recovery_store = \<lparr>root_dir = path_str store_path, failure_points = []\<rparr>,
              store_dir = store_path, confirmation_store = conf_path, trusted_executables = trusted,
              operator_secret = secret, declared_manifest = manifest, lock_directory = lockd,
              governed_roots = governed\<rparr>))))"

text \<open>\<open>recover_lock\<close> is the outcome of waiting for the lock of one target (\<open>_recover_lock\<close>).\<close>

definition recover_journal ::
    "host \<Rightarrow> executor \<Rightarrow> (string \<Rightarrow> (world, unit) M) \<Rightarrow> (world, summary) M" where
  "recover_journal h self recover_lock = recover (sha h) (recovery_store self) recover_lock"

definition failed_startup :: summary where
  "failed_startup = \<lparr>recovered = [], recovery_required = [''startup-recover-failed''], deferred = [],
     verified = 0, orphans = []\<rparr>"

text \<open>\<open>except Exception\<close> at construction: every exception of Python, but not the loss of power.\<close>

definition startup_recovery ::
    "host \<Rightarrow> executor \<Rightarrow> (string \<Rightarrow> (world, unit) M) \<Rightarrow> (world, summary) M" where
  "startup_recovery h self recover_lock = (\<lambda>w. case recover_journal h self recover_lock w of
      (Inl e, w') \<Rightarrow> if e = PowerLoss then (Inl e, w') else (Inr failed_startup, w')
    | (Inr s, w') \<Rightarrow> (Inr s, w'))"

section \<open>Preliminary checks\<close>

definition dir_in :: "fsview \<Rightarrow> pypath \<Rightarrow> world \<Rightarrow> bool" where
  "dir_in F p w = (case resolve_in F p of None \<Rightarrow> False | Some q \<Rightarrow> is_dir (path_str q) w)"

definition resolve_project :: "host \<Rightarrow> executor \<Rightarrow> string \<Rightarrow> world \<Rightarrow> route result" where
  "resolve_project h self pid w = (case get_route (registry self) pid of
      None \<Rightarrow> Inl ValueError
    | Some r \<Rightarrow> if dir_in (fs h) (root_path r) w then Inr r else Inl ValueError)"

definition route_root :: "host \<Rightarrow> route \<Rightarrow> path" where
  "route_root h r = abs_parts (fs h) (root_path r)"

definition outside_host_stores :: "host \<Rightarrow> executor \<Rightarrow> path \<Rightarrow> unit result" where
  "outside_host_stores h self target =
     (if \<exists>store \<in> set [confirmation_store self, store_dir self]. is_within_store (symlinks (fs h)) target store
      then Inl PermissionError else Inr ())"

definition target_lock :: "host \<Rightarrow> executor \<Rightarrow> path \<Rightarrow> int \<Rightarrow> resource_lock result" where
  "target_lock h self target t =
     bindR (lock_name_for_resource (sha_lower h) (symlinks (fs h)) ''fs'' target) (\<lambda>n.
     Inr (new_lock (mechanism_of h) (lock_directory self) n t (governed_roots self)))"

definition git_lock :: "host \<Rightarrow> executor \<Rightarrow> path \<Rightarrow> int \<Rightarrow> resource_lock result" where
  "git_lock h self groot t =
     bindR (lock_name_for_resource (sha_lower h) (symlinks (fs h)) ''git'' groot) (\<lambda>n.
     Inr (new_lock (mechanism_of h) (lock_directory self) n t (governed_roots self)))"

definition under_lock :: "host \<Rightarrow> resource_lock result \<Rightarrow> (exec_state, 'a) M \<Rightarrow> (exec_state, 'a) M" where
  "under_lock h lk body =
     bindM (readM (\<lambda>_. lk)) (\<lambda>lk. with_lock (fs h) (mkdir_ok h) (others h) (retries h) lk body)"

definition project_status :: "host \<Rightarrow> executor \<Rightarrow> string \<Rightarrow> world \<Rightarrow> dict result" where
  "project_status h self pid w = (case get_route (registry self) pid of
      None \<Rightarrow> Inr [(''registered'', JBool False), (''project_id'', JStr pid)]
    | Some r \<Rightarrow>
        (case resolve_in (fs h) (root_path r) of
           None \<Rightarrow> Inl RuntimeError
         | Some q \<Rightarrow> Inr
            [(''registered'', JBool True), (''project_id'', JStr pid), (''root'', JStr (path_str q)),
             (''status'', JStr (status r)), (''lifecycle'', JStr (lifecycle r)),
             (''capability_class'', JStr (capability_class r)),
             (''git_applicable'', JBool (dir_in (fs h) (join_path (root_path r) (mk_path ''.git'')) w))]))"

section \<open>The governed write\<close>

definition write_payload :: "hash \<Rightarrow> string \<Rightarrow> string \<Rightarrow> dict" where
  "write_payload H rel content =
     [(''path'', JStr rel), (''content_sha256'', JStr (H (utf8 content))),
      (''bytes'', JInt (int (length (utf8 content))))]"

definition given :: "string option \<Rightarrow> bool" where
  "given v \<longleftrightarrow> v \<noteq> None \<and> v \<noteq> Some ''''"

definition use_capability ::
    "host \<Rightarrow> executor \<Rightarrow> string \<Rightarrow> string \<Rightarrow> dict \<Rightarrow> string option \<Rightarrow> string option \<Rightarrow> string option \<Rightarrow>
     (exec_state, bool) M" where
  "use_capability h self pid rel payload expected cid token =
     (case operator_secret self of
        None \<Rightarrow> ret False
      | Some secret \<Rightarrow>
          if secret = [] \<or> \<not> given cid \<or> \<not> given token then ret False
          else in_trust (validate_and_consume_capability (sha h) (hmac h) (the cid) (the token) pid
                 ''FS_WRITE'' rel payload expected secret))"

text \<open>What the authorization step decides: go on (with or without privilege), or hand back a proposal.\<close>

datatype gate = Go bool | Propose_first dict

definition write_gate ::
    "host \<Rightarrow> executor \<Rightarrow> route \<Rightarrow> string \<Rightarrow> string \<Rightarrow> string \<Rightarrow> string option \<Rightarrow> string option \<Rightarrow> string option \<Rightarrow>
     (exec_state, gate) M" where
  "write_gate h self route pid rel content expected cid token =
     (let is_held = (lifecycle route = ''held''); is_control_target = control_plane rel;
          payload = write_payload (sha h) rel content
      in if \<not> is_held \<and> \<not> is_control_target then ret (Go False)
         else bindM (use_capability h self pid rel payload expected cid token) (\<lambda>authorized.
           if authorized then ret (Go True)
           else if is_control_target then raise PermissionError
           else bindM (in_trust (create_confirmation_request (sha h) pid ''FS_WRITE'' rel payload expected
                    ''HELD_ROUTE_GATE'' ''HELD route mutation requires trusted operator capability'' 300)) (\<lambda>d.
                ret (Propose_first d))))"

definition cas_check :: "hash \<Rightarrow> string \<Rightarrow> string option \<Rightarrow> world \<Rightarrow> bytes option result" where
  "cas_check H target expected w =
     (if is_file target w then
        bindR (read_bytes target w) (\<lambda>b.
        if \<not> given expected then Inl ValueError
        else if H b \<noteq> strip_ws (upper (the expected)) then Inl ValueError
        else Inr (Some b))
      else if given expected then Inl ValueError else Inr None)"

definition write_reply ::
    "hash \<Rightarrow> string \<Rightarrow> string \<Rightarrow> dict \<Rightarrow> bytes option \<Rightarrow> string \<Rightarrow> dict" where
  "write_reply H pid canonical_rel receipt pre post =
     [(''status'', JStr ''PASS''),
      (''op_class'', JStr (if pre \<noteq> None then ''FILE_EDIT'' else ''FILE_CREATE'')),
      (''project_id'', JStr pid), (''path'', JStr canonical_rel),
      (''receipt_id'', dget receipt ''receipt_id''),
      (''preimage_sha256'', opt_str (map_option H pre)),
      (''postimage_sha256'', JStr post), (''tx_state'', JStr ''VERIFIED'')]"

text \<open>The section under the lock of the target.\<close>

definition replace_target ::
    "hash \<Rightarrow> recovery_store \<Rightarrow> string \<Rightarrow> dict \<Rightarrow> string \<Rightarrow> (world, string) M" where
  "replace_target H store target receipt content =
     bindM (write_bytes target (utf8 content)) (\<lambda>_.
     bindM (failpoint store ''after_target_write'') (\<lambda>_.
     bindM (readM (sha256_file H target)) (\<lambda>post.
     bindM (note_target_replaced store (sget receipt ''receipt_id'') post) (\<lambda>_.
     bindM (record_postimage H store (sget receipt ''receipt_id'') post) (\<lambda>_.
     ret post)))))"

definition write_locked ::
    "hash \<Rightarrow> recovery_store \<Rightarrow> string \<Rightarrow> string \<Rightarrow> string \<Rightarrow> string \<Rightarrow> string option \<Rightarrow> (world, dict) M" where
  "write_locked H store pid target canonical_rel content expected =
     bindM (reconcile_target H store pid target) (\<lambda>unresolved.
     if snd unresolved \<noteq> [] then raise RecoveryRequiredError
     else bindM (readM (has_blocking_state pid target)) (\<lambda>blocker.
     if blocker \<noteq> None then raise RecoveryRequiredError
     else bindM (readM (cas_check H target expected)) (\<lambda>pre.
     bindM (save_preimage H store pid target pre) (\<lambda>receipt.
     bindM (replace_target H store target receipt content) (\<lambda>post.
     ret (write_reply H pid canonical_rel receipt pre post))))))"

definition ESCALATIONS :: "string list" where
  "ESCALATIONS = [''permit_held_mutation'', ''confirm'']"

definition fs_write ::
    "host \<Rightarrow> executor \<Rightarrow> string \<Rightarrow> string \<Rightarrow> string \<Rightarrow> string option \<Rightarrow> string option \<Rightarrow> string option \<Rightarrow> int \<Rightarrow>
     string list \<Rightarrow> (exec_state, dict) M" where
  "fs_write h self pid rel content expected cid token lock_timeout extra =
     (if \<exists>k \<in> set ESCALATIONS. k \<in> set extra then raise PermissionError
      else bindM (readM (\<lambda>s. resolve_project h self pid (wd s))) (\<lambda>route.
      bindM (write_gate h self route pid rel content expected cid token) (\<lambda>g.
      case g of
        Propose_first d \<Rightarrow> ret d
      | Go authorized \<Rightarrow>
          bindM (readM (\<lambda>_. assert_permitted_path (symlinks (fs h)) (route_root h route) rel authorized None None)) (\<lambda>(target, canonical_rel).
          bindM (readM (\<lambda>_. outside_host_stores h self target)) (\<lambda>_.
          under_lock h (target_lock h self target lock_timeout)
            (in_world (write_locked (sha h) (recovery_store self) pid (path_str target) canonical_rel content expected)))))))"

definition rollback_locked ::
    "hash \<Rightarrow> recovery_store \<Rightarrow> string \<Rightarrow> string \<Rightarrow> string \<Rightarrow> (world, dict) M" where
  "rollback_locked H store pid target post =
     bindM (readM corrupt_receipt_files) (\<lambda>corrupt.
     if corrupt \<noteq> [] then raise RecoveryRequiredError
     else rollback H store pid target post)"

definition fs_rollback ::
    "host \<Rightarrow> executor \<Rightarrow> string \<Rightarrow> string \<Rightarrow> string \<Rightarrow> int \<Rightarrow> (exec_state, dict) M" where
  "fs_rollback h self pid rel post lock_timeout =
     bindM (readM (\<lambda>s. resolve_project h self pid (wd s))) (\<lambda>route.
     bindM (readM (\<lambda>_. permitted (symlinks (fs h)) (route_root h route) rel)) (\<lambda>(target, canonical_rel).
     bindM (readM (\<lambda>_. outside_host_stores h self target)) (\<lambda>_.
     under_lock h (target_lock h self target lock_timeout)
       (in_world (rollback_locked (sha h) (recovery_store self) pid (path_str target) post)))))"

end
