(* ===== verification/Writes.thy ===== *)
theory Writes
  imports Executor Recovery
begin

text \<open>
  The properties of the governed write: what it changes and when, what is in the journal when it
  stops at any point, who wins when several writers expect the same preimage, and that a rollback
  undoes it.
\<close>

section \<open>Frames\<close>

lemma replace_target_advances: "evolves advances (replace_target H store t receipt content)"
  unfolding replace_target_def
  by (intro journal.combinators write_bytes_advances failpoint_advances note_target_replaced_advances
      record_postimage_advances)

lemma write_locked_advances: "evolves advances (write_locked H store pid t crel content expected)"
  unfolding write_locked_def
  by (intro journal.combinators reconcile_target_advances save_preimage_advances replace_target_advances)

text \<open>Files other than the target that exist keep their content.\<close>

definition spares :: "string \<Rightarrow> world \<Rightarrow> world \<Rightarrow> bool" where
  "spares t w w' \<longleftrightarrow> (\<forall>p v. p \<noteq> t \<longrightarrow> aget (disk w) p = Some v \<longrightarrow> aget (disk w') p = Some v)"

interpretation spare: evolution "spares t" for t
  by unfold_locales (auto simp: spares_def)

lemma keeps_spares: "evolves keeps_files m \<Longrightarrow> evolves (spares t) m"
  by (simp add: evolves_def keeps_files_def spares_def)

lemma but_spares: "evolves (frames (files_but t)) m \<Longrightarrow> evolves (spares t) m"
  unfolding evolves_def
proof
  fix w
  assume "\<forall>s. frames (files_but t) s (snd (m s))"
  then have "files_but t (snd (m w)) = files_but t w" by (simp add: frames_def)
  then have "aget (disk (snd (m w))) p = aget (disk w) p" if "p \<noteq> t" for p
    using that unfolding files_but_def by (metis fun_upd_other)
  then show "spares t w (snd (m w))" by (simp add: spares_def)
qed

lemmas section_frames = reconcile_target_frames_disk note_target_replaced_frames_disk
  record_postimage_frames_disk failpoint_frames

lemma replace_target_but: "evolves (frames (files_but t)) (replace_target H store t receipt content)"
  unfolding replace_target_def
  by (intro frame.combinators write_bytes_but evolves_disk_but section_frames)

lemma write_locked_spares: "evolves (spares t) (write_locked H store pid t crel content expected)"
  unfolding write_locked_def
  by (intro spare.combinators keeps_spares [OF save_preimage_keeps] but_spares [OF replace_target_but]
      keeps_spares [OF frames_keeps [OF reconcile_target_frames_disk]])

section \<open>A write that succeeds\<close>

lemma frames_run: "evolves (frames v) m \<Longrightarrow> m w = (r, w') \<Longrightarrow> v w' = v w"
  by (metis evolvesD frames_def)

lemma write_locked_Inr:
  assumes "write_locked H store pid t crel content expected w = (Inr reply, w')"
  obtains w1 pre receipt w2 post where
    "disk w1 = disk w" "advances w w1" "has_blocking_state pid t w1 = Inr None"
    "cas_check H t expected w1 = Inr pre"
    "save_preimage H store pid t pre w1 = (Inr receipt, w2)"
    "replace_target H store t receipt content w2 = (Inr post, w')"
    "reply = write_reply H pid crel receipt pre post"
proof -
  from assms obtain u w1 pre receipt w2 post where
    r: "reconcile_target H store pid t w = (Inr u, w1)" and
    "has_blocking_state pid t w1 = Inr None" "cas_check H t expected w1 = Inr pre"
    "save_preimage H store pid t pre w1 = (Inr receipt, w2)"
    "replace_target H store t receipt content w2 = (Inr post, w')"
    "reply = write_reply H pid crel receipt pre post"
    unfolding write_locked_def by (auto elim!: bindM_InrE split: if_splits)
  with that frames_run [OF reconcile_target_frames_disk r] evolvesD [OF reconcile_target_advances r]
  show thesis by blast
qed

lemma aset_swap:
  "k \<noteq> l \<Longrightarrow> k \<in> fst ` set d \<Longrightarrow> aset l u (aset k v d) = aset k v (aset l u d)"
  by (induction d) auto

lemma aset_twice: "aset k v (aset k u d) = aset k v d"
  by (induction d) auto

lemma set_post_twice: "set_post p st (set_post q st' d) = set_post p st d"
proof -
  let ?P = "''postimage_sha256''" and ?T = "''tx_state''"
  have "aset ?P (JStr p) (aset ?T (JStr st') (aset ?P (JStr q) d)) =
      aset ?T (JStr st') (aset ?P (JStr p) (aset ?P (JStr q) d))"
    by (rule aset_swap [symmetric]) (simp_all add: fst_set_aset)
  then show ?thesis by (simp add: set_post_def set_state_def aset_twice)
qed

lemma note_target_replaced_Inr:
  assumes "note_target_replaced store rid post w = (Inr u, w')" and "receipt_at (json_name rid) w = Some d"
  shows "receipt_at (json_name rid) w' = Some (set_post (upper post) ''APPLIED'' d)"
proof -
  have l: "load_doc (json_name rid) w = Inr (JObj d)" and v: "valid_receipt d"
    using assms(2) by (simp_all add: receipt_at_Some)
  from assms(1) l have "put_receipt store (json_name rid) (set_post (upper post) ''APPLIED'' d) w = (Inr (), w')"
    by (auto simp: note_target_replaced_def bindM_readM as_dict_def set_post_def split: if_splits)
  then show ?thesis by (rule put_receipt_at) (simp add: valid_set_post v KNOWN_STATES_def)
qed

lemma record_postimage_Inr:
  assumes "record_postimage H store rid post w = (Inr u, w')" and "receipt_at (json_name rid) w = Some d"
  shows "receipt_at (json_name rid) w' = Some (set_post (upper post) ''VERIFIED'' d) \<and>
    sha256_file H (sget d ''path'') w = Inr (upper post)"
proof -
  let ?n = "json_name rid"
  have l: "load_doc ?n w = Inr (JObj d)" and v: "valid_receipt d"
    using assms(2) by (simp_all add: receipt_at_Some)
  have p: "aget d ''path'' \<noteq> None"
    using valid_receipt_str [OF v, of "''path''"] by (auto simp: dget_def split: option.splits)
  have j: "aget (journal w) ?n \<noteq> None"
    using l by (auto simp: load_doc_def split: option.splits)
  obtain w1 where
    put: "put_receipt store ?n (set_post (upper post) ''APPLIED'' d) w = (Inr (), w1)" and
    s: "settle_postimage H store ?n (set_post (upper post) ''APPLIED'' d) (upper post) w1 = (Inr u, w')"
    using assms(1) l j
    by (auto simp: record_postimage_def bindM_readM as_dict_def Let_def set_post_def failpoint_def
        split: if_splits elim!: bindM_InrE)
  have p': "aget (set_post (upper post) ''APPLIED'' d) ''path'' \<noteq> None"
    using p by (simp add: set_post_def set_state_def)
  from s p' have h: "sha256_file H (sget d ''path'') w1 = Inr (upper post)" and
    put2: "put_receipt store ?n (set_post (upper post) ''VERIFIED'' d) w1 = (Inr u, w')"
    by (auto simp: settle_postimage_def bindM_readM split: if_splits elim!: bindM_InrE)
  have "sha256_file H (sget d ''path'') w = sha256_file H (sget d ''path'') w1"
    using put_receipt_Inr [OF put] by (simp add: sha256_file_def read_bytes_def)
  with h put_receipt_at [OF put2] show ?thesis
    by (simp add: valid_set_post v KNOWN_STATES_def)
qed

lemma replace_target_Inr:
  assumes "replace_target H store t receipt content w = (Inr post, w')"
    and "receipt_at (json_name (sget receipt ''receipt_id'')) w = Some receipt"
  shows "post = H (utf8 content) \<and> disk w' = aset t (Reg (utf8 content)) (disk w) \<and>
    receipt_at (json_name (sget receipt ''receipt_id'')) w' = Some (set_post (upper post) ''VERIFIED'' receipt) \<and>
    (sget receipt ''path'' = t \<longrightarrow> upper post = post)"
proof -
  let ?n = "json_name (sget receipt ''receipt_id'')"
  from assms(1) obtain u w1 w2 u3 w3 where
    wr: "write_bytes t (utf8 content) w = (Inr u, w1)" and
    sh: "sha256_file H t w1 = Inr post" and
    nt: "note_target_replaced store (sget receipt ''receipt_id'') post w1 = (Inr (), w2)" and
    rp: "record_postimage H store (sget receipt ''receipt_id'') post w2 = (Inr u3, w')"
    unfolding replace_target_def
    by (auto simp: failpoint_def bindM_readM split: if_splits sum.splits elim!: bindM_InrE)
  note d1 = write_bytes_Inr [OF wr]
  have post: "post = H (utf8 content)" using sh d1 by (simp add: sha256_file_def read_bytes_def)
  have "receipt_at ?n w1 = Some receipt"
    using assms(2) receipt_at_cong [of w1 w] d1 by simp
  note n2 = note_target_replaced_Inr [OF nt this]
  have d2: "disk w2 = disk w1" by (rule frames_run [OF note_target_replaced_frames_disk nt])
  have d3: "disk w' = disk w2" by (rule frames_run [OF record_postimage_frames_disk rp])
  note r = record_postimage_Inr [OF rp n2]
  have "upper post = post" if "sget receipt ''path'' = t"
    using r that sh d2 by (simp add: sha256_file_def read_bytes_def)
  with post r d1 d2 d3 show ?thesis by (simp add: set_post_twice)
qed

lemma cas_check_Inr:
  "cas_check H t expected w = Inr pre \<longleftrightarrow>
     (if is_file t w then \<exists>b. read_bytes t w = Inr b \<and> given expected \<and>
         H b = strip_ws (upper (the expected)) \<and> pre = Some b
      else \<not> given expected \<and> pre = None)"
  by (auto simp: cas_check_def bindR_Inr_iff)

lemma cas_check_disk: "disk w' = disk w \<Longrightarrow> cas_check H t expected w' = cas_check H t expected w"
  by (simp add: cas_check_def is_file_def read_bytes_def)

text \<open>The journal entry of a write: what it says of the preimage, and the backup that backs it.\<close>

definition undo_entry :: "hash \<Rightarrow> string \<Rightarrow> string \<Rightarrow> bytes option \<Rightarrow> dict \<Rightarrow> world \<Rightarrow> bool" where
  "undo_entry H pid t pre d w \<longleftrightarrow> concerns pid t d \<and> dget d ''original_operation'' = JStr ''FS_WRITE'' \<and>
     dget d ''preimage_exists'' = JBool (pre \<noteq> None) \<and>
     (\<forall>b. pre = Some b \<longrightarrow> dget d ''preimage_sha256'' = JStr (H b) \<and> is_str (dget d ''backup_file'') \<and>
        read_bytes (sget d ''backup_file'') w = Inr b)"

lemma saved_entry:
  assumes "save_preimage H store pid t pre w = (Inr r, w')" and "pid \<noteq> ''''" and "t \<noteq> ''''"
  shows "receipt_at (json_name (sget r ''receipt_id'')) w' = Some r" "undo_entry H pid t pre r w'"
    "tx_state r = ''PREPARED''" "sget r ''path'' = t"
    "pre = Some b \<Longrightarrow> \<not> path_exists (sget r ''backup_file'') w"
proof -
  note * = save_preimage_saved [OF assms]
  obtain rid w1 prev where "r = prepared_receipt H store rid pid t pre prev w1"
    using assms(1) by (elim save_preimage_Inr) blast
  then have op: "dget r ''original_operation'' = JStr ''FS_WRITE''" by simp
  have "pre \<noteq> None \<Longrightarrow> is_str (dget r ''backup_file'')"
    using \<open>r = _\<close> by (auto simp: opt_str_def)
  with * op show "receipt_at (json_name (sget r ''receipt_id'')) w' = Some r" "undo_entry H pid t pre r w'"
    "tx_state r = ''PREPARED''" by (auto simp: undo_entry_def)
  from * show "sget r ''path'' = t" by (simp add: concerns_def sget_def)
  from * show "pre = Some b \<Longrightarrow> \<not> path_exists (sget r ''backup_file'') w" by blast
qed

text \<open>The entry survives whatever moves the receipt on and spares the backup.\<close>

lemma undo_entry_moves:
  assumes "undo_entry H pid t pre d w" and "moves d d'"
    and "\<And>b. pre = Some b \<Longrightarrow> aget (disk w') (sget d ''backup_file'') = aget (disk w) (sget d ''backup_file'')"
  shows "undo_entry H pid t pre d' w'"
proof -
  have "dget d' k = dget d k" if "k \<in> set KEPT_FIELDS" for k
    using assms(2) that by (simp add: moves_def)
  then have k: "dget d' ''project_id'' = dget d ''project_id''" "dget d' ''path'' = dget d ''path''"
    "dget d' ''original_operation'' = dget d ''original_operation''"
    "dget d' ''preimage_exists'' = dget d ''preimage_exists''"
    "dget d' ''preimage_sha256'' = dget d ''preimage_sha256''"
    "dget d' ''backup_file'' = dget d ''backup_file''"
    by (simp_all add: KEPT_FIELDS_def)
  from assms(1,3) show ?thesis
    by (simp add: undo_entry_def concerns_def k sget_def read_bytes_def)
qed

lemma write_succeeds:
  assumes "write_locked H store pid t crel content expected w = (Inr reply, w')" and "pid \<noteq> ''''" and "t \<noteq> ''''"
  obtains pre d n where "cas_check H t expected w = Inr pre" "n = json_name (sget reply ''receipt_id'')"
    "receipt_at n w = None" "receipt_at n w' = Some d" "undo_entry H pid t pre d w'" "tx_state d = ''VERIFIED''"
    "dget d ''postimage_sha256'' = JStr (H (utf8 content))" "sget d ''receipt_id'' = sget reply ''receipt_id''"
    "reply = write_reply H pid crel d pre (H (utf8 content))" "aget (disk w') t = Some (Reg (utf8 content))"
    "upper (H (utf8 content)) = H (utf8 content)"
proof -
  from assms(1) obtain w1 pre receipt w2 post where
    d1: "disk w1 = disk w" and adv: "advances w w1" and cas: "cas_check H t expected w1 = Inr pre" and
    sv: "save_preimage H store pid t pre w1 = (Inr receipt, w2)" and
    rt: "replace_target H store t receipt content w2 = (Inr post, w')" and
    reply: "reply = write_reply H pid crel receipt pre post"
    by (rule write_locked_Inr)
  note s = saved_entry [OF sv assms(2,3)]
  note r = replace_target_Inr [OF rt s(1)]
  let ?n = "json_name (sget receipt ''receipt_id'')" and ?d = "set_post (upper post) ''VERIFIED'' receipt"
  have post: "post = H (utf8 content)" "upper post = post" using r s(4) by auto
  have mv: "moves receipt ?d"
    using s(3) by (intro moves_set_post tx_reach_verified) simp
  have pre: "is_file t w1" if "pre = Some b" for b
    using cas that by (auto simp: cas_check_Inr split: if_splits)
  have "aget (disk w') (sget receipt ''backup_file'') = aget (disk w2) (sget receipt ''backup_file'')" if "pre = Some b" for b
  proof -
    have "sget receipt ''backup_file'' \<noteq> t"
      using s(5) [OF that] pre [OF that] by (auto simp: path_exists_def is_file_def)
    with r show ?thesis by simp
  qed
  with undo_entry_moves [OF s(2) mv] have undo: "undo_entry H pid t pre ?d w'" by blast
  have "receipt_at ?n w1 = None"
    using save_preimage_saved [OF sv assms(2,3)] by blast
  then have fresh: "receipt_at ?n w = None"
    using adv unfolding advances_def by (metis option.distinct(1) option.exhaust)
  have id: "sget reply ''receipt_id'' = sget receipt ''receipt_id''"
    by (simp add: reply write_reply_def sget_def dget_def)
  show thesis
    by (rule that [of pre ?n ?d])
      (use cas_check_disk [OF d1] cas id fresh r undo post reply s in \<open>simp_all add: write_reply_def\<close>)
qed

text \<open>C1. A governed write that reports success held the target's expected preimage when it began
  (and no preimage was given for a missing file), the target now has exactly the new content, the
  receipt named in the reply is new, verified and carries the preimage's and the postimage's
  hash, the backup holds the preimage byte for byte, and every other file is as it was.\<close>

theorem governed_write_effect:
  assumes "write_locked H store pid t crel content expected w = (Inr reply, w')" and "pid \<noteq> ''''" and "t \<noteq> ''''"
  shows "\<exists>pre d. (if is_file t w then \<exists>b. read_bytes t w = Inr b \<and> given expected \<and>
        H b = strip_ws (upper (the expected)) \<and> pre = Some b else \<not> given expected \<and> pre = None) \<and>
     aget (disk w') t = Some (Reg (utf8 content)) \<and>
     receipt_at (json_name (sget reply ''receipt_id'')) w = None \<and>
     receipt_at (json_name (sget reply ''receipt_id'')) w' = Some d \<and> undo_entry H pid t pre d w' \<and>
     tx_state d = ''VERIFIED'' \<and> dget d ''postimage_sha256'' = JStr (H (utf8 content)) \<and>
     dget reply ''postimage_sha256'' = JStr (H (utf8 content)) \<and>
     dget reply ''preimage_sha256'' = opt_str (map_option H pre) \<and> spares t w w'"
proof -
  obtain pre d n where w: "cas_check H t expected w = Inr pre" "n = json_name (sget reply ''receipt_id'')"
    "receipt_at n w = None" "receipt_at n w' = Some d" "undo_entry H pid t pre d w'" "tx_state d = ''VERIFIED''"
    "dget d ''postimage_sha256'' = JStr (H (utf8 content))"
    "reply = write_reply H pid crel d pre (H (utf8 content))" "aget (disk w') t = Some (Reg (utf8 content))"
    using assms by (rule write_succeeds)
  have "dget reply ''postimage_sha256'' = JStr (H (utf8 content))"
    "dget reply ''preimage_sha256'' = opt_str (map_option H pre)"
    unfolding w(8) by (simp_all add: write_reply_def dget_def)
  with w evolvesD [OF write_locked_spares assms(1)] show ?thesis
    unfolding cas_check_Inr by blast
qed

section \<open>A write that stops anywhere\<close>

text \<open>
  The state of the target and the journal that every way of stopping leaves: the target as it was,
  or the new content with the entry that undoes it.
\<close>

definition stopped_safely :: "hash \<Rightarrow> string \<Rightarrow> string \<Rightarrow> string \<Rightarrow> world \<Rightarrow> world \<Rightarrow> bool" where
  "stopped_safely H pid t content w w' \<longleftrightarrow>
     aget (disk w') t = aget (disk w) t \<or>
     aget (disk w') t = Some (Reg (utf8 content)) \<and>
     (\<exists>n d pre. receipt_at n w' = Some d \<and> undo_entry H pid t pre d w' \<and>
        (if is_file t w then \<exists>b. read_bytes t w = Inr b \<and> pre = Some b else pre = None))"

lemma disk_at: "evolves (frames disk) m \<Longrightarrow> evolves (frames (\<lambda>w. aget (disk w) t)) m"
  by (simp add: evolves_def frames_def)

lemma save_preimage_target:
  assumes "\<And>rid. t \<noteq> bak_path store rid"
  shows "aget (disk (snd (save_preimage H store pid t' pre w))) t = aget (disk w) t"
proof -
  have bak: "evolves (frames (\<lambda>w. aget (disk w) t)) (save_backup H store rid pre)" for rid
  proof -
    have "evolves (frames (\<lambda>w. aget (disk w) t)) (write_bytes (bak_path store rid) b)" for b
      using assms unfolding write_bytes_def
      by (intro effect_evolves) (auto simp: frames_def frame.evolution_axioms)
    then show ?thesis unfolding save_backup_def by (intro frame.combinators)
  qed
  have "evolves (frames (\<lambda>w. aget (disk w) t)) (save_preimage H store pid t' pre)"
    unfolding save_preimage_def
    by (intro frame.combinators bak disk_at [OF new_receipt_id_frames_disk] disk_at [OF put_receipt_frames_disk]
        failpoint_frames)
  then show ?thesis by (simp add: evolves_def frames_def)
qed

lemma replace_target_stops:
  assumes "replace_target H store t receipt content w = (r, w')"
    and "receipt_at (json_name (sget receipt ''receipt_id'')) w = Some receipt"
    and "undo_entry H pid t pre receipt w" and "\<And>b. pre = Some b \<Longrightarrow> sget receipt ''backup_file'' \<noteq> t"
  shows "aget (disk w') t = aget (disk w) t \<or>
    aget (disk w') t = Some (Reg (utf8 content)) \<and>
    (\<exists>d. receipt_at (json_name (sget receipt ''receipt_id'')) w' = Some d \<and> undo_entry H pid t pre d w')"
proof (cases "write_bytes t (utf8 content) w")
  case (Pair q w1)
  show ?thesis
  proof (cases q)
    case (Inl e)
    with Pair assms(1) have "w' = w1" by (simp add: replace_target_def bindM_app)
    with write_bytes_Inl [OF Pair [unfolded Inl]] show ?thesis by simp
  next
    case (Inr u)
    note d1 = write_bytes_Inr [OF Pair [unfolded Inr]]
    let ?rest = "bindM (failpoint store ''after_target_write'') (\<lambda>_.
      bindM (readM (sha256_file H t)) (\<lambda>post.
      bindM (note_target_replaced store (sget receipt ''receipt_id'') post) (\<lambda>_.
      bindM (record_postimage H store (sget receipt ''receipt_id'') post) (\<lambda>_. ret post))))"
    from Pair Inr assms(1) have rest: "?rest w1 = (r, w')" by (simp add: replace_target_def bindM_app)
    have "evolves (frames disk) ?rest" by (intro frame.combinators section_frames)
    from frames_run [OF this rest] have d: "disk w' = aset t (Reg (utf8 content)) (disk w)" using d1 by simp
    have "evolves advances ?rest"
      by (intro journal.combinators failpoint_advances note_target_replaced_advances record_postimage_advances)
    from evolvesD [OF this rest] have "advances w1 w'" .
    moreover have "receipt_at (json_name (sget receipt ''receipt_id'')) w1 = Some receipt"
      using assms(2) receipt_at_cong [of w1 w] d1 by simp
    ultimately obtain d' where "receipt_at (json_name (sget receipt ''receipt_id'')) w' = Some d'" "moves receipt d'"
      unfolding advances_def by blast
    with undo_entry_moves [OF assms(3)] assms(4) d show ?thesis by auto
  qed
qed

text \<open>C2. Wherever a governed write stops (refused, failed, or with the power lost between any two
  effects), the target holds its old content or exactly the new one, never anything between; and
  if it holds the new one, the journal has a valid entry for it with the preimage's hash and a
  backup equal to the preimage, so that the write can be finished or undone; no other file that
  existed was touched.\<close>

theorem write_is_atomic_and_undoable:
  assumes "write_locked H store pid t crel content expected w = (r, w')" and "pid \<noteq> ''''" and "t \<noteq> ''''"
    and "\<And>rid. t \<noteq> bak_path store rid"
  shows "stopped_safely H pid t content w w' \<and> spares t w w'"
proof
  show "spares t w w'" using evolvesD [OF write_locked_spares assms(1)] .
  have same: "stopped_safely H pid t content w v" if "aget (disk v) t = aget (disk w) t" for v
    using that by (simp add: stopped_safely_def)
  obtain q w1 where rc: "reconcile_target H store pid t w = (q, w1)" by (cases "reconcile_target H store pid t w")
  have d1: "disk w1 = disk w" by (rule frames_run [OF reconcile_target_frames_disk rc])
  consider "w' = w1" | pre where "cas_check H t expected w1 = Inr pre"
      "bindM (save_preimage H store pid t pre) (\<lambda>receipt. bindM (replace_target H store t receipt content)
         (\<lambda>post. ret (write_reply H pid crel receipt pre post))) w1 = (r, w')"
    using assms(1) rc unfolding write_locked_def
    by (cases "has_blocking_state pid t w1"; cases "cas_check H t expected w1")
      (auto simp: bindM_app split: sum.splits if_splits)
  then show "stopped_safely H pid t content w w'"
  proof cases
    case 1
    with d1 show ?thesis by (simp add: same)
  next
    case (2 pre)
    obtain q2 w2 where sv: "save_preimage H store pid t pre w1 = (q2, w2)" by (cases "save_preimage H store pid t pre w1")
    have t2: "aget (disk w2) t = aget (disk w) t"
      using save_preimage_target [where t = t and store = store, OF assms(4)] sv d1 by (metis snd_conv)
    show ?thesis
    proof (cases q2)
      case (Inl e)
      with 2(2) sv have "w' = w2" by (simp add: bindM_app)
      with t2 show ?thesis by (simp add: same)
    next
      case (Inr receipt)
      note s = saved_entry [OF sv [unfolded Inr] assms(2,3)]
      have pre: "if is_file t w then \<exists>b. read_bytes t w = Inr b \<and> pre = Some b else pre = None"
        using 2(1) unfolding cas_check_disk [OF d1] cas_check_Inr by auto
      have bak: "sget receipt ''backup_file'' \<noteq> t" if "pre = Some b" for b
        using s(5) [OF that] pre that d1 by (auto simp: path_exists_def is_file_def split: if_splits)
      obtain q3 w3 where rt: "replace_target H store t receipt content w2 = (q3, w3)"
        by (cases "replace_target H store t receipt content w2")
      with 2(2) sv Inr have "w' = w3" by (auto simp: bindM_app split: sum.splits)
      consider "aget (disk w3) t = aget (disk w2) t"
        | d where "aget (disk w3) t = Some (Reg (utf8 content))"
          "receipt_at (json_name (sget receipt ''receipt_id'')) w3 = Some d" "undo_entry H pid t pre d w3"
        using replace_target_stops [OF rt s(1,2) bak] by blast
      then show ?thesis
      proof cases
        case 1
        with t2 \<open>w' = w3\<close> show ?thesis by (simp add: same)
      next
        case (2 d)
        with pre have "\<exists>n d pre. receipt_at n w3 = Some d \<and> undo_entry H pid t pre d w3 \<and>
            (if is_file t w then \<exists>b. read_bytes t w = Inr b \<and> pre = Some b else pre = None)"
          by blast
        with 2(1) \<open>w' = w3\<close> show ?thesis unfolding stopped_safely_def by blast
      qed
    qed
  qed
qed

section \<open>Several writers of one target\<close>

text \<open>The expected preimage can no longer be presented: the target is there, with other content.\<close>

definition lost :: "hash \<Rightarrow> string \<Rightarrow> string option \<Rightarrow> world \<Rightarrow> bool" where
  "lost H t expected w \<longleftrightarrow> is_file t w \<and>
     (given expected \<longrightarrow> (\<forall>b. read_bytes t w = Inr b \<longrightarrow> H b \<noteq> strip_ws (upper (the expected))))"

lemma lost_no_cas: "lost H t expected w \<Longrightarrow> cas_check H t expected w \<noteq> Inr pre"
  by (auto simp: lost_def cas_check_Inr split: if_splits)

lemma lost_disk: "aget (disk w') t = aget (disk w) t \<Longrightarrow> lost H t e w' = lost H t e w"
  by (simp add: lost_def is_file_def read_bytes_def)

lemma refused_cas:
  assumes "write_locked H store pid t crel content expected w = (r, w')"
    and "\<And>pre. cas_check H t expected w \<noteq> Inr pre"
  shows "(\<exists>e. r = Inl e) \<and> disk w' = disk w"
proof -
  obtain q w1 where rc: "reconcile_target H store pid t w = (q, w1)" by (cases "reconcile_target H store pid t w")
  have d1: "disk w1 = disk w" by (rule frames_run [OF reconcile_target_frames_disk rc])
  then have "\<exists>e. cas_check H t expected w1 = Inl e"
    using assms(2) cas_check_disk [OF d1] by (cases "cas_check H t expected w1") auto
  with assms(1) rc d1 show ?thesis
    unfolding write_locked_def
    by (cases "has_blocking_state pid t w1") (auto simp: bindM_app split: sum.splits if_splits)
qed

text \<open>
  A contender for the target writes something other than what it expects to find; a write that
  would not change the hash takes no part in the race.
\<close>

definition contend :: "hash \<Rightarrow> recovery_store \<Rightarrow> string \<Rightarrow> string option \<Rightarrow> string \<times> string \<times> string \<Rightarrow> (world, bool) M" where
  "contend H store t expected c = (case c of (pid, crel, content) \<Rightarrow>
     if given expected \<and> H (utf8 content) = strip_ws (upper (the expected)) then ret False
     else bindM (write_locked H store pid t crel content expected) (\<lambda>_. ret True))"

lemma contend_True:
  assumes "contend H store t e (pid, crel, content) w = (Inr True, w')"
  shows "\<not> lost H t e w \<and> lost H t e w' \<and> aget (disk w') t = Some (Reg (utf8 content))"
proof -
  from assms obtain reply where
    wr: "write_locked H store pid t crel content e w = (Inr reply, w')" and
    ne: "given e \<longrightarrow> H (utf8 content) \<noteq> strip_ws (upper (the e))"
    by (auto simp: contend_def split: if_splits elim!: bindM_InrE)
  from refused_cas [OF wr] lost_no_cas have "\<not> lost H t e w" by fastforce
  moreover have "aget (disk w') t = Some (Reg (utf8 content))"
  proof -
    from wr obtain receipt w2 post where rt: "replace_target H store t receipt content w2 = (Inr post, w')"
      by (rule write_locked_Inr)
    then obtain u w1 where wb: "write_bytes t (utf8 content) w2 = (Inr u, w1)" and
      rest: "bindM (failpoint store ''after_target_write'') (\<lambda>_.
      bindM (readM (sha256_file H t)) (\<lambda>post.
      bindM (note_target_replaced store (sget receipt ''receipt_id'') post) (\<lambda>_.
      bindM (record_postimage H store (sget receipt ''receipt_id'') post) (\<lambda>_. ret post)))) w1 = (Inr post, w')"
      unfolding replace_target_def by (rule bindM_InrE)
    have "disk w' = disk w1"
      using rest by (rule frames_run [where v = disk, rotated]) (intro frame.combinators section_frames)
    with write_bytes_Inr [OF wb] show ?thesis by simp
  qed
  moreover from this ne have "lost H t e w'" by (simp add: lost_def is_file_def read_bytes_def)
  ultimately show ?thesis by blast
qed

lemma contend_lost:
  assumes "lost H t e w" and "contend H store t e c w = (r, w')"
  shows "disk w' = disk w"
proof -
  obtain pid crel content where c: "c = (pid, crel, content)" by (cases c)
  show ?thesis
  proof (cases "write_locked H store pid t crel content e w")
    case (Pair q v)
    with refused_cas [OF Pair lost_no_cas [OF assms(1)]] assms(2) c show ?thesis
      by (auto simp: contend_def bindM_app split: if_splits sum.splits)
  qed
qed

interpretation race: single_use "contend H store t e" "\<lambda>_. Some ()" "\<lambda>w _. lost H t e w"
  for H store t e
proof
  show "\<exists>k. Some () = Some k \<and> \<not> lost H t e s \<and> lost H t e s'"
    if "contend H store t e c s = (Inr True, s')" for c s s'
    using that contend_True [of H store t e "fst c" "fst (snd c)" "snd (snd c)" s s'] by auto
  show "lost H t e s'" if "lost H t e s" "contend H store t e c s = (r, s')" for s s' r c
    using that contend_lost [OF that] lost_disk by metis
qed

definition holds_on :: "hash \<Rightarrow> string \<Rightarrow> string option \<Rightarrow> world \<Rightarrow> world \<Rightarrow> bool" where
  "holds_on H t e w w' \<longleftrightarrow> (lost H t e w \<longrightarrow> disk w' = disk w)"

interpretation holding: evolution "holds_on H t e" for H t e
proof
  show "holds_on H t e w w" for w by (simp add: holds_on_def)
  show "holds_on H t e u w" if "holds_on H t e u v" "holds_on H t e v w" for u v w
    using that lost_disk [of v t u H e] by (auto simp: holds_on_def)
qed


section \<open>Undoing a write\<close>

text \<open>No transaction of the target is under way.\<close>

definition quiet_target :: "string \<Rightarrow> string \<Rightarrow> world \<Rightarrow> bool" where
  "quiet_target pid t w \<longleftrightarrow>
     (\<forall>n d. receipt_at n w = Some d \<longrightarrow> concerns pid t d \<longrightarrow> tx_state d \<notin> set INCOMPLETE_STATES)"

lemma supersede_quiet:
  assumes "quiet_target pid t w"
  shows "snd (supersede_pending H store pid t w) = w"
proof -
  have one: "snd (supersede_one H store pid t cur acc n w) = w" for cur acc n
    using assms
    by (cases "read_validated n w")
      (auto simp: supersede_one_def bindM_readM read_validated_Inr quiet_target_def Let_def split: sum.split)
  have "snd (foldM (supersede_one H store pid t cur) acc ns w) = w" for cur acc ns
  proof (induction ns arbitrary: acc)
    case (Cons n ns)
    with one [of cur acc n] show ?case
      by (cases "supersede_one H store pid t cur acc n w") (auto simp: bindM_app split: sum.split)
  qed simp
  then show ?thesis by (simp add: supersede_pending_def bindM_readM)
qed

lemma quiet_rollback_Inr:
  assumes "rollback H store pid t post w = (Inr reply, w')" and "quiet_target pid t w"
  obtains b0 src w3 rb_id rb where "read_bytes t w = Inr b0" "H b0 = strip_ws (upper post)"
    "find_latest_receipt pid t (H b0) w = Inr (Some src)" "disk w3 = disk w"
    "apply_rollback H store t rb_id (H b0) src rb w3 = (Inr reply, w')"
proof -
  from assms(1) obtain b0 sup w1 src rb_id w2 rb w3 where
    1: "read_bytes t w = Inr b0" "H b0 = strip_ws (upper post)"
    and s: "supersede_pending H store pid t w = (Inr sup, w1)"
    and f: "find_latest_receipt pid t (H b0) w1 = Inr (Some src)"
    and n: "new_receipt_id store pid ''rollback'' w1 = (Inr rb_id, w2)"
    and u: "put_receipt store (json_name rb_id) rb w2 = (Inr (), w3)"
    and a: "apply_rollback H store t rb_id (H b0) src rb w3 = (Inr reply, w')"
    unfolding rollback_def
    by (auto simp: bindM_readM sha256_file_def bindR_Inr_iff split: sum.splits if_splits option.splits
        elim!: bindM_InrE)
  have "w1 = w" using supersede_quiet [OF assms(2), of H store] s by simp
  moreover have "disk w3 = disk w1"
    using frames_run [OF new_receipt_id_frames_disk n] put_receipt_Inr [OF u] by simp
  ultimately show thesis using 1 f a that by simp
qed

text \<open>The receipt of a write is the one a rollback finds, when nothing points back at it.\<close>

lemma rollback_finds:
  assumes "find_latest_receipt pid t post w = Inr (Some src)"
    and "n \<in> set (glob_journal (''recovery-'' @ pid @ ''-'') ''.json'' w)" and "receipt_at n w = Some d"
    and "restorable pid t (strip_ws (upper post)) d"
    and "\<And>m c. receipt_at m w = Some c \<Longrightarrow> sget c ''prev_receipt_id'' \<noteq> sget d ''receipt_id''"
  shows "src = d"
proof -
  from assms(1) obtain rs eff am where
    rs: "collect (\<lambda>n. load_validated n w) (glob_journal (''recovery-'' @ pid @ ''-'') ''.json'' w) = Inr rs"
    and refs: "chain_references pid t w = Inr (eff, am)"
    and hd: "filter (\<lambda>c. sget c ''receipt_id'' \<notin> set eff)
        (filter (restorable pid t (strip_ws (upper post))) (map snd rs)) = [src]"
    by (elim find_latest_receipt_Some) (auto simp: pick_head_Some)
  have "d \<in> set (map snd rs)"
    using assms(2,3) collect_Inr [OF rs] by (force simp: load_validated_Inr)
  moreover have "sget d ''receipt_id'' \<notin> set eff"
    using assms(5) unfolding chain_references_iff [OF refs] standing_successor_def by blast
  ultimately have "d \<in> set (filter (\<lambda>c. sget c ''receipt_id'' \<notin> set eff)
        (filter (restorable pid t (strip_ws (upper post))) (map snd rs)))"
    using assms(4) by simp
  then show ?thesis unfolding hd by simp
qed

text \<open>C4. A rollback undoes a governed write: when the receipt of the write is in the listed journal,
  no receipt points back at it and nothing of the target is under way, a successful rollback of
  the written hash leaves the target exactly as it was before the write, absent included, and
  every other file as the write left it.\<close>

theorem rollback_undoes_write:
  assumes "write_locked H store pid t crel content expected w = (Inr reply, w1)" and "pid \<noteq> ''''" and "t \<noteq> ''''"
    and "rollback H store pid t (H (utf8 content)) w1 = (Inr rb, w2)"
    and "json_name (sget reply ''receipt_id'') \<in> set (glob_journal (''recovery-'' @ pid @ ''-'') ''.json'' w1)"
    and "\<And>m c. receipt_at m w1 = Some c \<Longrightarrow> sget c ''prev_receipt_id'' \<noteq> sget reply ''receipt_id''"
    and "quiet_target pid t w1" and "\<not> is_dir t w"
  shows "aget (disk w2) t = aget (disk w) t \<and> files_but t w2 = files_but t w1"
proof
  obtain pre d n where cas: "cas_check H t expected w = Inr pre" and n: "n = json_name (sget reply ''receipt_id'')"
    and at: "receipt_at n w1 = Some d" and un: "undo_entry H pid t pre d w1" and st: "tx_state d = ''VERIFIED''"
    and post: "dget d ''postimage_sha256'' = JStr (H (utf8 content))" and id: "sget d ''receipt_id'' = sget reply ''receipt_id''"
    and tw: "aget (disk w1) t = Some (Reg (utf8 content))"
    using assms(1-3) by (rule write_succeeds)
  obtain b0 src w3 rb_id r where b0: "read_bytes t w1 = Inr b0" "H b0 = strip_ws (upper (H (utf8 content)))"
    and f: "find_latest_receipt pid t (H b0) w1 = Inr (Some src)" and d3: "disk w3 = disk w1"
    and a: "apply_rollback H store t rb_id (H b0) src r w3 = (Inr rb, w2)"
    using assms(4,7) by (rule quiet_rollback_Inr)
  have "b0 = utf8 content" using b0(1) tw by (simp add: read_bytes_def)
  with b0(2) have hash: "strip_ws (upper (H b0)) = H (utf8 content)" by simp
  have "restorable pid t (strip_ws (upper (H b0))) d"
    using un post st unfolding hash by (simp add: restorable_def undo_entry_def)
  with f assms(5) at n id assms(6) have src: "src = d"
    by (intro rollback_finds [of pid t "H b0" w1 src n d]) auto
  have v: "valid_receipt d" using at by (simp add: receipt_at_Some)
  note ap = apply_rollback_Inr(1) [OF a [unfolded src] v]
  show "aget (disk w2) t = aget (disk w) t"
  proof (cases pre)
    case None
    with cas have "\<not> is_file t w" by (auto simp: cas_check_Inr split: if_splits)
    with assms(8) have "aget (disk w) t = None"
      by (auto simp: is_file_def is_dir_def split: option.splits node.splits)
    moreover have "\<not> truthy (dget d ''preimage_exists'')" using un None by (simp add: undo_entry_def)
    ultimately show ?thesis using ap by (simp add: path_exists_def)
  next
    case (Some b)
    then have rb: "read_bytes t w = Inr b" using cas by (auto simp: cas_check_Inr split: if_splits)
    have "truthy (dget d ''preimage_exists'')" and bk: "read_bytes (sget d ''backup_file'') w1 = Inr b"
      using un Some by (simp_all add: undo_entry_def)
    then obtain b' where b': "read_bytes (sget_default d ''backup_file'') w3 = Inr b'" "read_bytes t w2 = Inr b'"
      using ap by auto
    have "aget d ''backup_file'' \<noteq> None"
      using un Some by (cases "aget d ''backup_file''") (auto simp: undo_entry_def dget_def)
    then have "sget_default d ''backup_file'' = sget d ''backup_file''"
      by (auto simp: sget_default_def)
    with b' bk d3 rb show ?thesis by (simp add: read_bytes_def split: option.splits node.splits)
  qed
  show "files_but t w2 = files_but t w1"
    by (rule frames_run [OF rollback_frame assms(4)])
qed

section \<open>A damaged journal\<close>

text \<open>Reconciling a target rewrites valid receipts only: every other journal file stays as it is.\<close>

definition leaves_damage :: "world \<Rightarrow> world \<Rightarrow> bool" where
  "leaves_damage w w' \<longleftrightarrow> (\<forall>n. receipt_at n w = None \<longrightarrow> aget (journal w') n = aget (journal w) n)"

lemma receipt_at_journal: "aget (journal w') n = aget (journal w) n \<Longrightarrow> receipt_at n w' = receipt_at n w"
  by (simp add: receipt_at_def load_doc_def)

interpretation damage: evolution leaves_damage
proof
  show "leaves_damage w w" for w by (simp add: leaves_damage_def)
  show "leaves_damage u w" if "leaves_damage u v" "leaves_damage v w" for u v w
    using that receipt_at_journal unfolding leaves_damage_def by metis
qed

lemma put_leaves_damage:
  assumes "receipt_at n w \<noteq> None"
  shows "leaves_damage w (snd (put_receipt self n d w))"
  by (cases rule: put_receipt_cases [of self n d w]) (use assms in \<open>auto simp: leaves_damage_def\<close>)

lemma close_source_damage: "evolves leaves_damage (close_source self src)"
  unfolding evolves_def
proof
  fix w
  show "leaves_damage w (snd (close_source self src w))"
  proof (cases "load_validated (json_name src) w")
    case (Inr d)
    then have "receipt_at (json_name src) w \<noteq> None" by (simp add: load_validated_Inr)
    with Inr put_leaves_damage show ?thesis
      by (auto simp: close_source_def bindM_readM damage.R_refl)
  qed (auto simp: close_source_def bindM_readM damage.R_refl)
qed

lemma conclude_damage: "receipt_at n w \<noteq> None \<Longrightarrow> leaves_damage w (snd (conclude self n d st out w))"
  unfolding conclude_def by (intro damage.bindM_at put_leaves_damage) (simp_all add: damage.R_refl)

lemma finalize_damage: "receipt_at n w \<noteq> None \<Longrightarrow> leaves_damage w (snd (finalize_rollback self n d src w))"
  unfolding finalize_rollback_def
  by (intro damage.bindM_at put_leaves_damage) (auto intro: evolves_at [OF close_source_damage])

lemma reconcile_one_damage:
  assumes "receipt_at n w \<noteq> None"
  shows "leaves_damage w (snd (reconcile_one H self n d st w))"
proof -
  have fin: "leaves_damage w (snd (bindM (finalize_rollback self n d src) (\<lambda>_. ret Verified) w))" for src
    by (rule damage.bindM_at, rule finalize_damage [OF assms]) (simp add: damage.R_refl)
  show ?thesis
    using conclude_damage [OF assms] fin
    by (cases "observe H (sget d ''path'') w")
      (auto simp: reconcile_one_def reconcile_rollback_def bindM_readM Let_def)
qed

lemma reconcile_target_damage: "evolves leaves_damage (reconcile_target H self pid t)"
proof -
  have "leaves_damage w (snd (reconcile_target_one H self pid t acc n w))" for acc n w
  proof (cases "read_validated n w")
    case (Inr d)
    then have "receipt_at n w \<noteq> None" by (simp add: read_validated_Inr)
    note 1 = reconcile_one_damage [OF this, of H self d]
    have "leaves_damage w (snd (bindM (reconcile_one H self n d (tx_state d)) (\<lambda>out.
        ret (if out = Required then (fst acc, snd acc @ [sget d ''receipt_id''])
             else (fst acc @ [sget d ''receipt_id''], snd acc))) w))"
      by (rule damage.bindM_at, rule 1) (simp add: damage.R_refl)
    with Inr show ?thesis by (auto simp: reconcile_target_one_def bindM_readM damage.R_refl)
  qed (auto simp: reconcile_target_one_def bindM_readM damage.R_refl)
  then have "evolves leaves_damage (reconcile_target_one H self pid t acc n)" for acc n
    by (simp add: evolves_def)
  then show ?thesis unfolding reconcile_target_def by (intro damage.combinators)
qed

lemma corrupt_of_Inr: "corrupt_of f ns = Inr cs \<Longrightarrow> n \<in> set cs \<longleftrightarrow> n \<in> set ns \<and> (\<exists>e. f n = Inl e)"
proof (induction ns arbitrary: cs)
  case (Cons m ns)
  then show ?case
    by (cases "f m") (auto simp: bindR_Inr_iff split: if_splits)
qed simp

lemma damage_stays:
  assumes "leaves_damage w w'" and "corrupt_receipt_files w = Inr (c # cs)"
  shows "corrupt_receipt_files w' \<noteq> Inr []"
proof
  assume none: "corrupt_receipt_files w' = Inr []"
  from assms(2) have c: "c \<in> set (iter_receipt_files w)" "\<exists>e. load_validated c w = Inl e"
    unfolding corrupt_receipt_files_def by (auto dest: corrupt_of_Inr [where n = c])
  then have "receipt_at c w = None" by (metis load_validated_Inr not_None_eq sum.distinct(1))
  with assms(1) have same: "aget (journal w') c = aget (journal w) c" by (simp add: leaves_damage_def)
  have "c \<in> fst ` set (journal w)" using c(1) by (auto simp: iter_receipt_files_def glob_journal_def)
  then have "c \<in> fst ` set (journal w')" using same by (metis map_of_eq_None_iff)
  then have "c \<in> set (iter_receipt_files w')"
    using c(1) by (auto simp: iter_receipt_files_def glob_journal_def)
  moreover have "load_validated c w' = load_validated c w" using same by (simp add: load_validated_def load_doc_def)
  ultimately show False
    using corrupt_of_Inr [OF none [unfolded corrupt_receipt_files_def], of c] c(2) by auto
qed

text \<open>C26. A journal with a receipt file that cannot be read or validated stops every governed write
  and every rollback before any file is touched.\<close>

theorem damaged_journal_blocks:
  assumes "corrupt_receipt_files w = Inr (c # cs)"
  shows "(\<exists>e w'. write_locked H store pid t crel content expected w = (Inl e, w') \<and> disk w' = disk w) \<and>
    rollback_locked H store pid t post w = (Inl RecoveryRequiredError, w)"
proof
  obtain q w1 where rc: "reconcile_target H store pid t w = (q, w1)" by (cases "reconcile_target H store pid t w")
  have d1: "disk w1 = disk w" by (rule frames_run [OF reconcile_target_frames_disk rc])
  have "corrupt_receipt_files w1 \<noteq> Inr []"
    by (rule damage_stays [OF evolvesD [OF reconcile_target_damage rc] assms])
  then have "has_blocking_state pid t w1 \<noteq> Inr None"
    by (cases "corrupt_receipt_files w1") (auto simp: has_blocking_state_def split: list.splits)
  with rc d1 show "\<exists>e w'. write_locked H store pid t crel content expected w = (Inl e, w') \<and> disk w' = disk w"
    by (cases "has_blocking_state pid t w1") (auto simp: write_locked_def bindM_app split: sum.split)
  show "rollback_locked H store pid t post w = (Inl RecoveryRequiredError, w)"
    by (simp add: rollback_locked_def bindM_readM assms)
qed

section \<open>The gates before the section\<close>

text \<open>The caller presents a capability the confirmation store accepts for exactly this write.\<close>

definition capable ::
    "host \<Rightarrow> executor \<Rightarrow> string \<Rightarrow> string \<Rightarrow> string \<Rightarrow> string option \<Rightarrow> string option \<Rightarrow> string option \<Rightarrow>
     exec_state \<Rightarrow> bool" where
  "capable h self pid rel content expected cid token s \<longleftrightarrow>
     (\<exists>secret c tok t'. operator_secret self = Some secret \<and> cid = Some c \<and> token = Some tok \<and>
        validate_and_consume_capability (sha h) (hmac h) c tok pid ''FS_WRITE'' rel
          (write_payload (sha h) rel content) expected secret (tr s) = (Inr True, t'))"

lemma in_trust_wd [simp]: "in_trust m s = (r, s') \<Longrightarrow> wd s' = wd s"
  by (auto simp: in_trust_def split: prod.splits)

lemma use_capability_True:
  assumes "use_capability h self pid rel (write_payload (sha h) rel content) expected cid token s = (Inr True, s')"
  shows "capable h self pid rel content expected cid token s"
proof -
  from assms obtain secret where sec: "operator_secret self = Some secret"
    by (auto simp: use_capability_def split: option.splits)
  with assms obtain c tok where c: "cid = Some c" "token = Some tok"
    by (auto simp: use_capability_def given_def split: if_splits)
  with assms sec have "in_trust (validate_and_consume_capability (sha h) (hmac h) c tok pid ''FS_WRITE'' rel
      (write_payload (sha h) rel content) expected secret) s = (Inr True, s')"
    by (auto simp: use_capability_def split: if_splits)
  then show ?thesis
    using sec c unfolding capable_def in_trust_def by (auto split: prod.splits)
qed

lemma use_capability_wd: "use_capability h self pid rel payload expected cid token s = (r, s') \<Longrightarrow> wd s' = wd s"
  by (auto simp: use_capability_def split: option.splits if_splits)

lemma create_request_reply:
  "create_confirmation_request H pid operation target payload preimage cls reason ttl t = (Inr reply, t') \<Longrightarrow>
     dget reply ''status'' = JStr ''REQUIRES_CONFIRMATION'' \<and> dget reply ''confirmation_class'' = JStr cls"
  by (auto simp: create_confirmation_request_def Let_def dget_def split: if_splits)

lemma propose_cases:
  assumes "bindM (in_trust (create_confirmation_request H pid operation target payload preimage cls reason ttl))
    (\<lambda>d. ret (Propose_first d)) s = (r, s')"
  shows "wd s' = wd s \<and> ((\<exists>e. r = Inl e) \<or> (\<exists>d. r = Inr (Propose_first d) \<and>
    dget d ''status'' = JStr ''REQUIRES_CONFIRMATION'' \<and> dget d ''confirmation_class'' = JStr cls))"
proof (cases "create_confirmation_request H pid operation target payload preimage cls reason ttl (tr s)")
  case (Pair q t')
  show ?thesis
  proof (cases q)
    case (Inl e)
    with Pair assms show ?thesis by (auto simp: bindM_app in_trust_def)
  next
    case (Inr d)
    with create_request_reply Pair have "dget d ''status'' = JStr ''REQUIRES_CONFIRMATION'' \<and>
      dget d ''confirmation_class'' = JStr cls" by blast
    with Pair Inr assms show ?thesis by (auto simp: bindM_app in_trust_def)
  qed
qed

lemma write_gate_cases:
  assumes "write_gate h self route pid rel content expected cid token s = (r, s')"
  shows "wd s' = wd s \<and>
    (r = Inr (Go False) \<longrightarrow> lifecycle route \<noteq> ''held'' \<and> \<not> control_plane rel) \<and>
    (r = Inr (Go True) \<longrightarrow> capable h self pid rel content expected cid token s) \<and>
    (\<forall>d. r = Inr (Propose_first d) \<longrightarrow> \<not> control_plane rel \<and> dget d ''status'' = JStr ''REQUIRES_CONFIRMATION'' \<and>
       dget d ''confirmation_class'' = JStr ''HELD_ROUTE_GATE'')"
proof (cases "lifecycle route \<noteq> ''held'' \<and> \<not> control_plane rel")
  case True
  with assms show ?thesis by (auto simp: write_gate_def Let_def)
next
  case False
  obtain a s1 where u: "use_capability h self pid rel (write_payload (sha h) rel content) expected cid token s = (a, s1)"
    by (cases "use_capability h self pid rel (write_payload (sha h) rel content) expected cid token s")
  note wd1 = use_capability_wd [OF u]
  show ?thesis
  proof (cases a)
    case (Inl e)
    with False assms u wd1 show ?thesis by (auto simp: write_gate_def Let_def bindM_app)
  next
    case (Inr b)
    show ?thesis
    proof (cases "b \<or> control_plane rel")
      case True
      with False assms u Inr wd1 show ?thesis
        by (auto simp: write_gate_def Let_def bindM_app use_capability_True split: if_splits)
    next
      case False': False
      with False assms u Inr have "bindM (in_trust (create_confirmation_request (sha h) pid ''FS_WRITE'' rel
          (write_payload (sha h) rel content) expected ''HELD_ROUTE_GATE''
          ''HELD route mutation requires trusted operator capability'' 300)) (\<lambda>d. ret (Propose_first d)) s1 = (r, s')"
        by (simp add: write_gate_def Let_def bindM_app)
      from propose_cases [OF this] False' wd1 show ?thesis by auto
    qed
  qed
qed

text \<open>C8. A write to a held project, or to a path spelled as control plane, that comes without an
  accepted capability changes no file and no receipt; it is refused, or, for a held project and
  an ordinary path, answered with a proposal for the operator.\<close>

theorem privileged_write_needs_capability:
  assumes "fs_write h self pid rel content expected cid token lock_timeout extra s = (r, s')"
    and "get_route (registry self) pid = Some route"
    and "lifecycle route = ''held'' \<or> control_plane rel"
    and "\<not> capable h self pid rel content expected cid token s"
  shows "wd s' = wd s \<and> ((\<exists>e. r = Inl e) \<or>
    (\<exists>reply. r = Inr reply \<and> \<not> control_plane rel \<and> dget reply ''status'' = JStr ''REQUIRES_CONFIRMATION'' \<and>
       dget reply ''confirmation_class'' = JStr ''HELD_ROUTE_GATE''))"
proof (cases "(\<exists>k \<in> set ESCALATIONS. k \<in> set extra) \<or> resolve_project h self pid (wd s) \<noteq> Inr route")
  case True
  with assms(1,2) show ?thesis
    by (auto simp: fs_write_def bindM_readM resolve_project_def split: if_splits)
next
  case False
  obtain g s1 where g: "write_gate h self route pid rel content expected cid token s = (g, s1)"
    by (cases "write_gate h self route pid rel content expected cid token s")
  note c = write_gate_cases [OF g]
  show ?thesis
  proof (cases g)
    case (Inl e)
    with False assms(1) g c show ?thesis by (auto simp: fs_write_def bindM_app)
  next
    case (Inr q)
    show ?thesis
    proof (cases q)
      case (Go b)
      with c Inr assms(3,4) show ?thesis by (cases b) auto
    next
      case (Propose_first d)
      with False assms(1) g c Inr show ?thesis by (auto simp: fs_write_def bindM_app)
    qed
  qed
qed

section \<open>Where a write can go\<close>

text \<open>A section under a lock, when no other process acts while the lock is awaited.\<close>

lemma quiet_poll:
  "(\<And>k t. oth k t = t) \<Longrightarrow> poll_lock oth f fd n k s = (r, s') \<Longrightarrow> s' = s \<or> s' = grant f fd s"
  by (induction n arbitrary: k) (auto split: if_splits)

lemma quiet_acquire_wd:
  assumes "\<And>k t. oth k t = t" and "acquire F creatable oth n lk (s :: exec_state) = (r, s')"
  shows "wd s' = wd s \<and> tr s' = tr s \<and> staged s' = staged s"
proof (cases "validate_lock F creatable lk")
  case (Inl e)
  with assms(2) show ?thesis by (simp add: acquire_def bindM_app)
next
  case (Inr candidate)
  show ?thesis
  proof (cases "path_str candidate \<in> set (unopenable s)")
    case True
    with Inr assms(2) show ?thesis by (simp add: acquire_def bindM_app)
  next
    case False
    obtain q v where p: "poll_lock oth (path_str candidate) (next_fd s) n 0 (s\<lparr>next_fd := Suc (next_fd s)\<rparr>) = (q, v)"
      by (rule prod.exhaust)
    with Inr False assms(2) have "s' = v" by (auto simp: acquire_def bindM_app split: sum.splits)
    with quiet_poll [OF assms(1) p] show ?thesis by (auto simp: grant_def)
  qed
qed

lemma under_lock_cases:
  assumes "under_lock h lk body s = (r, s')" and "\<And>k t. others h k t = t"
  shows "(wd s' = wd s \<and> (\<exists>e. r = Inl e)) \<or>
    (\<exists>s1 q s2. wd s1 = wd s \<and> tr s1 = tr s \<and> staged s1 = staged s \<and> body s1 = (q, s2) \<and>
       wd s' = wd s2 \<and> tr s' = tr s2 \<and> staged s' = staged s2 \<and> (r = q \<or> r = Inl LockError))"
proof (cases lk)
  case (Inl e)
  with assms(1) show ?thesis by (auto simp: under_lock_def bindM_app)
next
  case (Inr l)
  obtain a s1 where acq: "acquire (fs h) (mkdir_ok h) (others h) (retries h) l s = (a, s1)"
    by (cases "acquire (fs h) (mkdir_ok h) (others h) (retries h) l s")
  note same = quiet_acquire_wd [OF assms(2) acq]
  obtain q s2 where b: "body s1 = (q, s2)" by (cases "body s1")
  from assms(1) Inr have "with_lock (fs h) (mkdir_ok h) (others h) (retries h) l body s = (r, s')"
    by (simp add: under_lock_def bindM_app)
  with acq b same show ?thesis
    by (cases a) (auto simp: with_lock_eq close_fd_def split: option.splits if_splits)
qed

lemma in_world_section:
  "in_world m s = (q, s2) \<Longrightarrow> m (wd s) = (q, wd s2)"
  by (auto simp: in_world_def split: prod.splits)

lemma fs_write_cases:
  assumes "fs_write h self pid rel content expected cid token lock_timeout extra s = (r, s')"
    and "\<And>k t. others h k t = t"
  shows "wd s' = wd s \<or> (\<exists>route priv target crel q. resolve_project h self pid (wd s) = Inr route \<and>
     assert_permitted_path (symlinks (fs h)) (route_root h route) rel priv None None = Inr (target, crel) \<and>
     outside_host_stores h self target = Inr () \<and>
     (priv \<longrightarrow> capable h self pid rel content expected cid token s) \<and>
     (priv \<or> lifecycle route \<noteq> ''held'') \<and>
     write_locked (sha h) (recovery_store self) pid (path_str target) crel content expected (wd s) = (q, wd s') \<and>
     (r = q \<or> r = Inl LockError))"
proof (cases "(\<exists>k \<in> set ESCALATIONS. k \<in> set extra) \<or> (\<exists>e. resolve_project h self pid (wd s) = Inl e)")
  case True
  with assms(1) have "wd s' = wd s" by (auto simp: fs_write_def bindM_readM split: if_splits)
  then show ?thesis ..
next
  case False
  then obtain route where route: "resolve_project h self pid (wd s) = Inr route"
    by (cases "resolve_project h self pid (wd s)") auto
  obtain g s1 where g: "write_gate h self route pid rel content expected cid token s = (g, s1)"
    by (cases "write_gate h self route pid rel content expected cid token s")
  note c = write_gate_cases [OF g]
  let ?rest = "\<lambda>b. bindM (readM (\<lambda>_. assert_permitted_path (symlinks (fs h)) (route_root h route) rel b None None)) (\<lambda>(target, canonical_rel).
          bindM (readM (\<lambda>_. outside_host_stores h self target)) (\<lambda>_.
          under_lock h (target_lock h self target lock_timeout)
            (in_world (write_locked (sha h) (recovery_store self) pid (path_str target) canonical_rel content expected))))"
  show ?thesis
  proof (cases "\<exists>b. g = Inr (Go b)")
    case False': False
    with assms(1) False route g c show ?thesis
      by (cases g) (auto simp: fs_write_def bindM_app split: gate.splits)
  next
    case True
    then obtain b where b: "g = Inr (Go b)" by blast
    with assms(1) False route g have rest: "?rest b s1 = (r, s')" by (simp add: fs_write_def bindM_app)
    show ?thesis
    proof (cases "assert_permitted_path (symlinks (fs h)) (route_root h route) rel b None None")
      case (Inl e)
      with rest c show ?thesis by (simp add: bindM_app)
    next
      case (Inr tc)
      obtain target crel where tc: "tc = (target, crel)" by (cases tc)
      show ?thesis
      proof (cases "outside_host_stores h self target")
        case (Inl e)
        with rest Inr tc c show ?thesis by (simp add: bindM_app)
      next
        case out: (Inr u)
        with rest Inr tc have "under_lock h (target_lock h self target lock_timeout)
            (in_world (write_locked (sha h) (recovery_store self) pid (path_str target) crel content expected)) s1 = (r, s')"
          by (simp add: bindM_app)
        from under_lock_cases [OF this assms(2)]
        consider "wd s' = wd s1" | s2 q s3 where "wd s2 = wd s1"
            "in_world (write_locked (sha h) (recovery_store self) pid (path_str target) crel content expected) s2 = (q, s3)"
            "wd s' = wd s3" "r = q \<or> r = Inl LockError"
          by blast
        then show ?thesis
        proof cases
          case 1
          with c show ?thesis by simp
        next
          case (2 s2 q s3)
          from in_world_section [OF 2(2)] 2(1,3) c have "write_locked (sha h) (recovery_store self) pid
              (path_str target) crel content expected (wd s) = (q, wd s')" by simp
          with route Inr tc out c b 2(4) show ?thesis by (cases b) auto
        qed
      qed
    qed
  qed
qed

text \<open>C9. While nobody else acts, a governed write that changes any file works on one target: a path
  physically inside the root of a registered project, not a secret, not control plane and not in
  a held project unless an accepted capability came with it, and outside the stores of the host;
  every other file that existed keeps its content.\<close>

theorem governed_write_confined:
  assumes "fs_write h self pid rel content expected cid token lock_timeout extra s = (r, s')"
    and "\<forall>k t. others h k t = t" and "wd s' \<noteq> wd s"
  shows "\<exists>route base target crel. get_route (registry self) pid = Some route \<and>
     resolve (symlinks (fs h)) (route_root h route) = Some base \<and> is_prefix_list base target \<and>
     canonical_target (symlinks (fs h)) (route_root h route) rel = Inr (target, crel) \<and>
     physical (symlinks (fs h)) target \<and> \<not> is_secret_path crel \<and>
     (control_plane crel \<or> lifecycle route = ''held'' \<longrightarrow> capable h self pid rel content expected cid token s) \<and>
     \<not> is_within_store (symlinks (fs h)) target (confirmation_store self) \<and>
     \<not> is_within_store (symlinks (fs h)) target (store_dir self) \<and> spares (path_str target) (wd s) (wd s')"
proof -
  from fs_write_cases [OF assms(1)] assms(2,3) obtain route priv target crel q where
    route: "resolve_project h self pid (wd s) = Inr route" and
    perm: "assert_permitted_path (symlinks (fs h)) (route_root h route) rel priv None None = Inr (target, crel)" and
    out: "outside_host_stores h self target = Inr ()" and
    cap: "priv \<longrightarrow> capable h self pid rel content expected cid token s" "priv \<or> lifecycle route \<noteq> ''held''" and
    wr: "write_locked (sha h) (recovery_store self) pid (path_str target) crel content expected (wd s) = (q, wd s')"
    by auto
  have "get_route (registry self) pid = Some route"
    using route by (auto simp: resolve_project_def split: option.splits if_splits)
  moreover from perm have can: "canonical_target (symlinks (fs h)) (route_root h route) rel = Inr (target, crel)"
    and "\<not> is_secret_path crel" and "priv \<or> \<not> control_plane crel"
    by (simp_all add: assert_permitted_Inr)
  moreover from canonical_target_Inr [OF can] obtain base sub where
    "resolve (symlinks (fs h)) (route_root h route) = Some base" "target = base @ sub" "physical (symlinks (fs h)) target"
    by blast
  moreover have "\<not> is_within_store (symlinks (fs h)) target (confirmation_store self)"
    "\<not> is_within_store (symlinks (fs h)) target (store_dir self)"
    using out by (auto simp: outside_host_stores_def split: if_splits)
  moreover have "spares (path_str target) (wd s) (wd s')"
    using evolvesD [OF write_locked_spares wr] .
  ultimately show ?thesis
    using cap by (intro exI [of _ route] exI [of _ base] exI [of _ target] exI [of _ crel]) auto
qed

section \<open>Witnesses\<close>

text \<open>One project with one file; upper case stands for the hash.\<close>

definition small_world :: world where
  "small_world = \<lparr>disk = [(''/p'', Dir), (''/p/a'', Reg ''x'')], journal = [], denied = [], now = 0, now_ns = 0,
     stamp = ''t'', draws = nat_digits, drawn = 0, budget = None\<rparr>"

definition small_write :: "(world, dict) M" where
  "small_write = write_locked upper example_store ''p'' ''/p/a'' ''a'' ''y'' (Some ''X'')"

lemma small_write_ok:
  obtains reply w' where "small_write small_world = (Inr reply, w')"
proof -
  have "is_ok (fst (small_write small_world))" by code_simp
  then show thesis using that by (metis is_ok.elims(2) prod.collapse)
qed

theorem governed_write_effect_witness:
  "\<exists>reply w' d. small_write small_world = (Inr reply, w') \<and> aget (disk w') ''/p/a'' = Some (Reg (utf8 ''y'')) \<and>
     receipt_at (json_name (sget reply ''receipt_id'')) w' = Some d \<and> tx_state d = ''VERIFIED'' \<and>
     undo_entry upper ''p'' ''/p/a'' (Some ''x'') d w'"
proof -
  obtain reply w' where run: "small_write small_world = (Inr reply, w')" by (rule small_write_ok)
  have there: "is_file ''/p/a'' small_world" "read_bytes ''/p/a'' small_world = Inr ''x''" by code_simp+
  show ?thesis
    using governed_write_effect [OF run [unfolded small_write_def]] run there by auto
qed

theorem write_is_atomic_and_undoable_witness:
  "\<exists>w'. small_write (small_world\<lparr>budget := Some 3\<rparr>) = (Inl PowerLoss, w') \<and>
     aget (disk w') ''/p/a'' = Some (Reg ''y'') \<and>
     stopped_safely upper ''p'' ''/p/a'' ''y'' (small_world\<lparr>budget := Some 3\<rparr>) w'"
proof -
  let ?w = "small_world\<lparr>budget := Some 3\<rparr>"
  have 1: "fst (small_write ?w) = Inl PowerLoss" by code_simp
  have 2: "aget (disk (snd (small_write ?w))) ''/p/a'' = Some (Reg ''y'')" by code_simp
  obtain w' where run: "small_write ?w = (Inl PowerLoss, w')" using 1 by (metis prod.collapse)
  have "stopped_safely upper ''p'' ''/p/a'' ''y'' ?w w' \<and> spares ''/p/a'' ?w w'"
    using run [unfolded small_write_def]
    by (rule write_is_atomic_and_undoable) (simp_all add: bak_path_def example_store_def)
  with run 2 show ?thesis by auto
qed


theorem rollback_undoes_write_witness:
  "\<exists>rb w2. rollback upper example_store ''p'' ''/p/a'' ''Y'' (snd (small_write small_world)) = (Inr rb, w2) \<and>
     aget (disk w2) ''/p/a'' = Some (Reg ''x'')"
proof -
  obtain reply w1 where run: "small_write small_world = (Inr reply, w1)" by (rule small_write_ok)
  have "fst (small_write small_world) = Inr (write_reply upper ''p'' ''a''
      [(''receipt_id'', JStr ''recovery-p-0'')] (Some ''x'') ''Y'')"
    by code_simp
  with run have id: "sget reply ''receipt_id'' = ''recovery-p-0''"
    by (simp add: write_reply_def sget_def dget_def)
  have "map (\<lambda>p. (fst p, jdoc (snd p))) (journal (snd (small_write small_world))) =
      [(''recovery-p-0.json'', Doc (JObj (set_post ''Y'' ''VERIFIED'' (prepared_receipt upper example_store
         ''recovery-p-0'' ''p'' ''/p/a'' (Some ''x'') None small_world))))]"
    by code_simp
  with run have j: "receipt_at n w1 = Some d \<Longrightarrow> d = set_post ''Y'' ''VERIFIED'' (prepared_receipt upper example_store
         ''recovery-p-0'' ''p'' ''/p/a'' (Some ''x'') None small_world)" for n d
    by (auto simp: receipt_at_Some load_doc_def split: option.splits rdoc.splits if_splits)
  have prev: "sget d ''prev_receipt_id'' \<noteq> ''recovery-p-0''" if "receipt_at n w1 = Some d" for n d
    unfolding j [OF that] by (simp add: sget_def opt_str_def py_str_def prepared_receipt_def dget_def set_post_def set_state_def)
  have quiet: "quiet_target ''p'' ''/p/a'' w1"
    by (auto simp: quiet_target_def dest!: j)
  have g: "json_name ''recovery-p-0'' \<in> set (glob_journal (''recovery-'' @ ''p'' @ ''-'') ''.json'' (snd (small_write small_world)))"
    by code_simp
  have "is_ok (fst (rollback upper example_store ''p'' ''/p/a'' ''Y'' (snd (small_write small_world))))"
    by code_simp
  then obtain rb w2 where rb: "rollback upper example_store ''p'' ''/p/a'' ''Y'' w1 = (Inr rb, w2)"
    using run by (metis is_ok.elims(2) prod.collapse snd_conv)
  have "upper (utf8 ''y'') = ''Y''" by code_simp
  then have "aget (disk w2) ''/p/a'' = aget (disk small_world) ''/p/a'' \<and> files_but ''/p/a'' w2 = files_but ''/p/a'' w1"
    using rb g run id prev quiet
    by (intro rollback_undoes_write [OF run [unfolded small_write_def], of rb]) (simp_all add: is_dir_def small_world_def)
  with rb run show ?thesis by (simp add: small_world_def)
qed

theorem damaged_journal_blocks_witness:
  "rollback_locked upper example_store ''p'' ''/p/a'' ''X''
     (small_world\<lparr>journal := [(''recovery-p-9.json'', \<lparr>jdoc = NotJson, jmtime = 0\<rparr>)]\<rparr>) =
   (Inl RecoveryRequiredError, small_world\<lparr>journal := [(''recovery-p-9.json'', \<lparr>jdoc = NotJson, jmtime = 0\<rparr>)]\<rparr>)"
proof -
  have "corrupt_receipt_files (small_world\<lparr>journal := [(''recovery-p-9.json'', \<lparr>jdoc = NotJson, jmtime = 0\<rparr>)]\<rparr>)
    = Inr [''recovery-p-9.json'']" by code_simp
  from damaged_journal_blocks [OF this] show ?thesis by blast
qed

text \<open>A host without links, an executor that governs \<open>/p\<close>, and a project that is held.\<close>

definition example_host :: host where
  "example_host = \<lparr>fs = \<lparr>symlinks = \<lambda>_. None, cwd = [], dirs = \<lambda>_. True, regular = \<lambda>_. False\<rparr>,
     sha = upper, sha_lower = hexlify, hmac = example_mac, mechanism_of = Fcntl, mkdir_ok = (\<lambda>_. True),
     others = (\<lambda>_ s. s), retries = 0,
     plat = \<lparr>ambient = [], which = (\<lambda>_ _. None), launcher = (\<lambda>_ _ w. (Exited 0 [] [], w))\<rparr>, temp_dir = [''tmp'']\<rparr>"

definition example_route :: "string \<Rightarrow> route" where
  "example_route st = \<lparr>project_id = ''p'', aliases = [''p''], root_path = \<lparr>anchored = True, parts = [''p'']\<rparr>,
     startup = REQUIRED_STARTUP, handoff = ''HANDOFF.md'', status = st\<rparr>"

definition example_executor :: "string \<Rightarrow> executor" where
  "example_executor st = \<lparr>registry = make_registry [example_route st], recovery_store = example_store,
     store_dir = [''s''], confirmation_store = [''s'', ''confirmations''], trusted_executables = [],
     operator_secret = None, declared_manifest = [], lock_directory = [''l''], governed_roots = [[''p'']]\<rparr>"

definition example_state :: exec_state where
  "example_state = \<lparr>owner = [], next_fd = 4, unopenable = [], unlock_fails = False, wd = small_world,
     tr = example_trust, staged = [], launched = []\<rparr>"

theorem privileged_write_needs_capability_witness:
  "wd (snd (fs_write example_host (example_executor ''held'') ''p'' ''a'' ''y'' (Some ''X'') None None 30 [] example_state))
     = small_world \<and>
   wd (snd (fs_write example_host (example_executor ''active'') ''p'' ''.git/config'' ''y'' None None None 30 [] example_state))
     = small_world"
proof -
  have none: "\<not> capable example_host (example_executor st) pid rel content e c k s" for st pid rel content e c k s
    by (simp add: capable_def example_executor_def)
  have route: "get_route (registry (example_executor st)) ''p'' = Some (example_route st)" for st
    by (simp add: example_executor_def get_route_make example_route_def)
  have held: "lifecycle (example_route ''held'') = ''held''" and ctl: "control_plane ''.git/config''" by code_simp+
  have 1: "wd (snd (fs_write example_host (example_executor ''held'') ''p'' ''a'' ''y'' (Some ''X'') None None 30 []
      example_state)) = wd example_state"
    by (rule privileged_write_needs_capability [OF surjective_pairing route disjI1 [OF held] none, THEN conjunct1])
  have 2: "wd (snd (fs_write example_host (example_executor ''active'') ''p'' ''.git/config'' ''y'' None None None 30 []
      example_state)) = wd example_state"
    by (rule privileged_write_needs_capability [OF surjective_pairing route disjI2 [OF ctl] none, THEN conjunct1])
  have "wd example_state = small_world" by (simp add: example_state_def)
  with 1 2 show ?thesis by simp
qed

theorem governed_write_confined_witness:
  "\<exists>target crel. canonical_target (symlinks (fs example_host)) [''p''] ''a'' = Inr (target, crel) \<and>
     \<not> is_within_store (symlinks (fs example_host)) target [''s''] \<and>
     spares (path_str target) (wd example_state)
       (wd (snd (fs_write example_host (example_executor ''active'') ''p'' ''a'' ''y'' (Some ''X'') None None 30 [] example_state)))"
proof -
  let ?run = "fs_write example_host (example_executor ''active'') ''p'' ''a'' ''y'' (Some ''X'') None None 30 [] example_state"
  have "aget (disk (wd (snd ?run))) ''/p/a'' = Some (Reg ''y'')" by code_simp
  then have ne: "wd (snd ?run) \<noteq> wd example_state"
    by (auto simp: example_state_def small_world_def)
  have quiet: "\<forall>k t. others example_host k t = t" by (simp add: example_host_def)
  from governed_write_confined [OF surjective_pairing quiet ne] obtain route target crel where
    "get_route (registry (example_executor ''active'')) ''p'' = Some route"
    "canonical_target (symlinks (fs example_host)) (route_root example_host route) ''a'' = Inr (target, crel)"
    "\<not> is_within_store (symlinks (fs example_host)) target (store_dir (example_executor ''active''))"
    "spares (path_str target) (wd example_state) (wd (snd ?run))"
    by blast
  then show ?thesis
    by (auto simp: example_executor_def get_route_make example_route_def route_root_def abs_parts_def)
qed

section \<open>The spelling of a control-plane path\<close>

text \<open>
  The gate judges the spelling of the caller, the boundary check the resolved path: a detour
  through another directory is no control-plane spelling, so in a held project it is answered
  with a proposal of the weaker class, while the resolved target is control plane.
\<close>

lemma detour_passes_gate:
  "\<not> control_plane ''docs/../.git/config'' \<and>
   canonical_target (\<lambda>_. None) [''p''] ''docs/../.git/config'' = Inr ([''p'', ''.git'', ''config''], ''.git/config'') \<and>
   control_plane ''.git/config'' \<and>
   assert_permitted_path (\<lambda>_. None) [''p''] ''docs/../.git/config'' True None None =
     Inr ([''p'', ''.git'', ''config''], ''.git/config'') \<and>
   map_sum id (\<lambda>d. dget d ''confirmation_class'')
     (fst (fs_write (example_host) (example_executor ''held'') ''p'' ''docs/../.git/config'' ''y'' None None None 30 []
        example_state)) = Inr (JStr ''HELD_ROUTE_GATE'')"
  by code_simp

end
