(* ===== verification/Contracts.thy ===== *)
theory Contracts
  imports Process
begin

text \<open>
  \<open>src/jvc/contracts.py\<close>: the execution contract in a project's \<open>AGENTS.md\<close>, its
  validation, the resolution of the runtime, the declared checks and the persistence report.

  A contract is the dictionary \<open>json.loads\<close> returns; what the validation accepts is stated by
  \<open>sound_contract\<close>. Set membership of a list or an object is Python's \<open>TypeError\<close>.
\<close>

section \<open>The contract\<close>

definition START_MARKER :: string where
  "START_MARKER = ''<!-- ICM_EXECUTION_START -->''"

definition END_MARKER :: string where
  "END_MARKER = ''<!-- ICM_EXECUTION_END -->''"

definition REQUIRED_PERSISTED_FILES :: "string list" where
  "REQUIRED_PERSISTED_FILES = [''AGENTS.md'', ''CONTEXT.md'', ''HANDOFF.md'']"

definition ALLOWED_PERSISTENCE :: "string list" where
  "ALLOWED_PERSISTENCE = [''git'', ''onedrive'', ''local'']"

definition ALLOWED_PRIVACY :: "string list" where
  "ALLOWED_PRIVACY = [''standard'', ''private-content'', ''restricted-tooling'']"

definition ALLOWED_PERMISSION_CLASSES :: "string list" where
  "ALLOWED_PERMISSION_CLASSES = [''read-test'', ''private-structure-only'', ''docs-only'']"

record execution_contract =
  schema_version :: int
  contract_project :: string
  contract_cwd :: string
  persistence :: string
  privacy :: string
  permission_class :: string
  runtime :: json
  preflight :: json
  verify :: json
  write_policy :: string

definition to_dict :: "execution_contract \<Rightarrow> dict" where
  "to_dict c =
     [(''schema_version'', JInt (schema_version c)), (''project_id'', JStr (contract_project c)),
      (''cwd'', JStr (contract_cwd c)), (''persistence'', JStr (persistence c)),
      (''privacy'', JStr (privacy c)), (''permission_class'', JStr (permission_class c)),
      (''runtime'', runtime c), (''preflight'', preflight c), (''verify'', verify c),
      (''write_policy'', JStr (write_policy c))]"

section \<open>Validation\<close>

text \<open>\<open>v in {...}\<close>.\<close>

definition member :: "json \<Rightarrow> string list \<Rightarrow> bool result" where
  "member v allowed = (if hashable v then Inr (v \<in> set (map JStr allowed)) else Inl TypeError)"

definition complain :: "bool \<Rightarrow> string \<Rightarrow> string list" where
  "complain ok msg = (if ok then [] else [msg])"

definition is_text_list :: "(string \<Rightarrow> bool) \<Rightarrow> json \<Rightarrow> bool" where
  "is_text_list ok v =
     (case v of JArr xs \<Rightarrow> xs \<noteq> [] \<and> list_all (\<lambda>x. case x of JStr s \<Rightarrow> ok s | _ \<Rightarrow> False) xs | _ \<Rightarrow> False)"

definition project_errors :: "dict \<Rightarrow> string option \<Rightarrow> string list" where
  "project_errors c pid = (case pid of
      Some p \<Rightarrow> complain (dget c ''project_id'' = JStr p) (''project_id must be '' @ repr_str p)
    | None \<Rightarrow> complain (nonempty_str (dget c ''project_id'')) ''project_id must be a non-empty string'')"

definition cwd_errors :: "fsview \<Rightarrow> platform \<Rightarrow> dict \<Rightarrow> string option \<Rightarrow> string list" where
  "cwd_errors F P c r = (case r of
      Some r \<Rightarrow>
        (let here = path_str (cwd F);
             declared = abspath here (expandvars (ambient P) (py_str (get_default c ''cwd'' (JStr ''''))));
             actual = abspath here r
         in complain (declared = actual)
              (''cwd ('' @ declared @ '') must equal the registered absolute project root ('' @ actual @ '')''))
    | None \<Rightarrow> complain (nonempty_str (dget c ''cwd'')) ''cwd must be a non-empty string'')"

definition runtime_errors :: "dict \<Rightarrow> string list result" where
  "runtime_errors c = (case dget c ''runtime'' of
      JObj r \<Rightarrow>
        bindR (member (dget r ''kind'') [''python'', ''none'']) (\<lambda>known.
        if \<not> known then Inr [''runtime.kind must be python or none'']
        else if dget r ''kind'' = JStr ''python'' then Inr
          (complain (case dget r ''candidates'' of
               JArr cs \<Rightarrow> cs \<noteq> [] \<and> list_all (is_text_list (\<lambda>s. s \<noteq> [])) cs | _ \<Rightarrow> False)
             ''python runtime.candidates must be non-empty argument arrays'' @
           complain (is_text_list (\<lambda>s. True) (dget r ''probe_argv''))
             ''python runtime.probe_argv must be a non-empty argument array'')
        else Inr [])
    | _ \<Rightarrow> Inr [''runtime.kind must be python or none''])"

definition check_errors_of :: "dict \<Rightarrow> string \<Rightarrow> string list" where
  "check_errors_of c name = (case aget c name of
      None \<Rightarrow> [name @ '' must be declared in contract'']
    | Some JNull \<Rightarrow> []
    | Some (JObj d) \<Rightarrow>
        complain (is_text_list (\<lambda>s. s \<noteq> []) (dget d ''argv'')) (name @ ''.argv must be a non-empty argument array'') @
        complain (type_is_int (dget d ''timeout_seconds'') \<and> 1 \<le> int_of (dget d ''timeout_seconds''))
          (name @ ''.timeout_seconds must be a positive integer'') @
        complain (dget d ''expected_exit'' = JInt 0) (name @ ''.expected_exit must be 0'') @
        complain (is_str (dget d ''expected_contains'')) (name @ ''.expected_contains must be a string'')
    | Some _ \<Rightarrow> [name @ '' must be an object or null''])"

definition validate_contract ::
    "fsview \<Rightarrow> platform \<Rightarrow> json \<Rightarrow> string option \<Rightarrow> string option \<Rightarrow> string list result" where
  "validate_contract F P v pid r = (case v of
      JObj c \<Rightarrow>
        bindR (member (dget c ''persistence'') ALLOWED_PERSISTENCE) (\<lambda>pers.
        bindR (member (dget c ''privacy'') ALLOWED_PRIVACY) (\<lambda>priv.
        bindR (member (dget c ''permission_class'') ALLOWED_PERMISSION_CLASSES) (\<lambda>perm.
        bindR (runtime_errors c) (\<lambda>run.
        Inr (complain (dget c ''schema_version'' = JInt 1) ''schema_version must be 1'' @
             project_errors c pid @ cwd_errors F P c r @
             complain pers ''persistence must be git, onedrive, or local'' @
             complain priv ''privacy must be standard, private-content, or restricted-tooling'' @
             complain perm ''permission_class is unsupported'' @
             complain (is_str (dget c ''write_policy'') \<and> strip_ws (py_str (dget c ''write_policy'')) \<noteq> [])
               ''write_policy must be a non-empty string'' @
             run @ check_errors_of c ''preflight'' @ check_errors_of c ''verify'')))))
    | _ \<Rightarrow> Inr [''contract must be a dict''])"

section \<open>Loading\<close>

text \<open>The three characters \<open>utf-8-sig\<close> drops from the front.\<close>

definition drop_bom :: "bytes \<Rightarrow> bytes" where
  "drop_bom b = (if is_prefix_list [chr 239, chr 187, chr 191] b then drop 3 b else b)"

definition unfence :: "string \<Rightarrow> string" where
  "unfence body =
     (let tick = replicate 3 (CHR 0x60) in
      if startswith body (tick @ ''json'') \<and> endswith body tick
      then strip_ws (drop 7 (take (length body - 3) body))
      else if startswith body tick \<and> endswith body tick
      then strip_ws (drop 3 (take (length body - 3) body))
      else body)"

text \<open>\<open>text.split(START, 1)[1].split(END, 1)[0].strip()\<close>, without the code fence.\<close>

definition contract_body :: "string \<Rightarrow> string" where
  "contract_body text =
     (case split_once START_MARKER text of
        None \<Rightarrow> ''''
      | Some (_, after) \<Rightarrow>
          unfence (strip_ws (case split_once END_MARKER after of None \<Rightarrow> after | Some (b, _) \<Rightarrow> b)))"

definition contract_of :: "dict \<Rightarrow> execution_contract" where
  "contract_of v =
     \<lparr>schema_version = int_of (dget v ''schema_version''), contract_project = py_str (dget v ''project_id''),
      contract_cwd = py_str (dget v ''cwd''), persistence = py_str (dget v ''persistence''),
      privacy = py_str (dget v ''privacy''), permission_class = py_str (dget v ''permission_class''),
      runtime = dget v ''runtime'', preflight = dget v ''preflight'', verify = dget v ''verify'',
      write_policy = py_str (dget v ''write_policy'')\<rparr>"

definition parse_contract :: "fsview \<Rightarrow> platform \<Rightarrow> string \<Rightarrow> execution_contract result" where
  "parse_contract F P text =
     (if count_sub START_MARKER text \<noteq> 1 \<or> count_sub END_MARKER text \<noteq> 1 then Inl ContractError
      else case loads (contract_body text) of
        None \<Rightarrow> Inl ContractError
      | Some (JObj v) \<Rightarrow>
          bindR (validate_contract F P (JObj v) None None) (\<lambda>es.
          if es \<noteq> [] then Inl ContractError else Inr (contract_of v))
      | Some _ \<Rightarrow> Inl ContractError)"

definition load_contract :: "fsview \<Rightarrow> platform \<Rightarrow> pypath \<Rightarrow> world \<Rightarrow> execution_contract result" where
  "load_contract F P agents_file w =
     (case read_in F agents_file w of
        Inl e \<Rightarrow> Inl ContractError
      | Inr b \<Rightarrow> bindR (read_text (drop_bom b)) (parse_contract F P))"

section \<open>Applicability and satisfaction\<close>

definition runtime_kind :: "dict \<Rightarrow> json" where
  "runtime_kind c = (case dget c ''runtime'' of JObj r \<Rightarrow> dget r ''kind'' | _ \<Rightarrow> JNull)"

definition check_applicability :: "dict \<Rightarrow> string \<Rightarrow> string result" where
  "check_applicability c name =
     (let excused = bindR (member (dget c ''permission_class'') [''docs-only'', ''private-structure-only'']) (\<lambda>perm.
            Inr (if perm \<or> runtime_kind c = JStr ''none'' then ''NOT_APPLICABLE'' else ''MISSING''))
      in case aget c name of
        None \<Rightarrow> Inr ''MISSING''
      | Some JNull \<Rightarrow> excused
      | Some (JObj d) \<Rightarrow> if dget d ''applicable'' = JBool False then excused else Inr ''CONFIGURED''
      | Some _ \<Rightarrow> Inr ''MISSING'')"

text \<open>\<open>v not in {None, "none"}\<close>.\<close>

definition no_failure :: "json \<Rightarrow> bool result" where
  "no_failure v = (if hashable v then Inr (v = JNull \<or> v = JStr ''none'') else Inl TypeError)"

definition is_verification_satisfied :: "json \<Rightarrow> bool \<Rightarrow> string option \<Rightarrow> bool result" where
  "is_verification_satisfied result allow_na expected_name = (case result of
      JObj r \<Rightarrow>
        if expected_name \<noteq> None \<and> dget r ''name'' \<noteq> JStr (the expected_name) then Inr False
        else if \<not> nonempty_str (dget r ''name'') then Inr False
        else if dget r ''status'' = JStr ''PASS'' then
          if dget r ''executed'' \<noteq> JBool True then Inr False
          else if dget r ''applicable'' \<noteq> JBool True then Inr False
          else if dget r ''returncode'' \<noteq> JInt 0 then Inr False
          else no_failure (dget r ''failure_kind'')
        else if allow_na \<and> dget r ''status'' = JStr ''NOT_APPLICABLE'' \<and>
            dget r ''applicable'' = JBool False \<and> dget r ''executed'' = JBool False
        then no_failure (dget r ''failure_kind'')
        else Inr False
    | _ \<Rightarrow> Inr False)"

section \<open>The runtime\<close>

definition expand :: "platform \<Rightarrow> string \<Rightarrow> json \<Rightarrow> string result" where
  "expand P r v = (case v of
      JStr s \<Rightarrow> Inr (expandvars (ambient P) (replace_sub ''{project_root}'' r s))
    | _ \<Rightarrow> Inl AttributeError)"

definition expand_all :: "platform \<Rightarrow> string \<Rightarrow> json \<Rightarrow> string list result" where
  "expand_all P r v = bindR (iterate v) (mapR (expand P r))"

definition run_in :: "platform \<Rightarrow> string \<Rightarrow> string list \<Rightarrow> int option \<Rightarrow> (string, string) alist option \<Rightarrow> (procs, run_outcome) M" where
  "run_in P r as t env = start P \<lparr>argv = as, directory = Some r, time_limit = t, environment = env\<rparr>"

text \<open>The candidates in order, until one passes the probe; \<open>attempts\<close> records the others.\<close>

definition no_runtime :: "dict list \<Rightarrow> dict" where
  "no_runtime attempts =
     [(''status'', JStr ''FAIL''), (''kind'', JStr ''python''), (''argv'', JArr []),
      (''detail'', JStr ''no candidate passed the capability probe''), (''attempts'', JArr (map JObj attempts))]"

definition attempt :: "string list \<Rightarrow> string \<Rightarrow> dict \<Rightarrow> dict" where
  "attempt candidate st extra = [(''candidate'', JArr (map JStr candidate)), (''status'', JStr st)] @ extra"

definition probe_verdict ::
    "string list \<Rightarrow> string list \<Rightarrow> dict list \<Rightarrow> run_outcome \<Rightarrow> (dict + dict) result" where
  "probe_verdict candidate as attempts out = (case out of
      TimedOut m so se \<Rightarrow> Inr (Inl (attempt candidate ''probe_error'' [(''detail'', JStr m)]))
    | CannotStart m \<Rightarrow> Inr (Inl (attempt candidate ''probe_error'' [(''detail'', JStr m)]))
    | Exited rc so se \<Rightarrow>
        bindR (texts so se) (\<lambda>(u, v).
        if rc = 0 then
          (let shown = (if strip_ws u \<noteq> [] then strip_ws u else hd as) in
           Inr (Inr [(''status'', JStr ''PASS''), (''kind'', JStr ''python''), (''argv'', JArr (map JStr as)),
             (''detail'', JStr (last (splitlines shown))), (''attempts'', JArr (map JObj attempts))]))
        else
          (let shown = (if strip_ws v \<noteq> [] then strip_ws v else strip_ws u) in
           Inr (Inl (attempt candidate ''probe_failed'' [(''detail'', JStr (last_chars 500 shown))])))))"

definition try_candidate ::
    "fsview \<Rightarrow> platform \<Rightarrow> string \<Rightarrow> (string, string) alist option \<Rightarrow> dict \<Rightarrow> dict list \<Rightarrow> json \<Rightarrow>
     (procs, dict + dict) M" where
  "try_candidate F P r env rt attempts raw =
     bindM (readM (\<lambda>_. expand_all P r raw)) (\<lambda>candidate.
     case candidate of
       [] \<Rightarrow> raise IndexError
     | executable # rest \<Rightarrow>
         bindM (readM (\<lambda>s. Inr (if file_in F (mk_path executable) (surroundings s) then Some executable
                                else which P executable (surroundings s)))) (\<lambda>resolved.
         case resolved of
           None \<Rightarrow> ret (Inl (attempt candidate ''not_found'' []))
         | Some exe \<Rightarrow>
             bindM (readM (\<lambda>_. bindR (item_get rt ''probe_argv'') (expand_all P r))) (\<lambda>args.
             bindM (run_in P r (exe # rest @ args) (Some 30) env) (\<lambda>out.
             readM (\<lambda>_. probe_verdict candidate (exe # rest) attempts out)))))"

fun try_candidates ::
    "fsview \<Rightarrow> platform \<Rightarrow> string \<Rightarrow> (string, string) alist option \<Rightarrow> dict \<Rightarrow> dict list \<Rightarrow> json list \<Rightarrow>
     (procs, dict) M" where
  "try_candidates F P r env rt attempts [] = ret (no_runtime attempts)"
| "try_candidates F P r env rt attempts (raw # raws) =
     bindM (try_candidate F P r env rt attempts raw) (\<lambda>res. case res of
       Inr found \<Rightarrow> ret found
     | Inl failed \<Rightarrow> try_candidates F P r env rt (attempts @ [failed]) raws)"

definition resolve_runtime ::
    "fsview \<Rightarrow> platform \<Rightarrow> dict \<Rightarrow> string \<Rightarrow> (string, string) alist option \<Rightarrow> (procs, dict) M" where
  "resolve_runtime F P c r env =
     bindM (readM (\<lambda>_. bindR (item_get c ''runtime'') as_obj)) (\<lambda>rt.
     bindM (readM (\<lambda>_. item_get rt ''kind'')) (\<lambda>kind.
     if kind = JStr ''none'' then
       ret [(''status'', JStr ''PASS''), (''kind'', JStr ''none''), (''argv'', JArr []),
            (''detail'', JStr ''no application runtime required'')]
     else
       bindM (readM (\<lambda>_. bindR (item_get rt ''candidates'') iterate)) (try_candidates F P r env rt [])))"

section \<open>Running a declared check\<close>

fun command_argv :: "platform \<Rightarrow> dict \<Rightarrow> string \<Rightarrow> json list \<Rightarrow> string list result" where
  "command_argv P rt r [] = Inr []"
| "command_argv P rt r (arg # args) =
     bindR (if arg = JStr ''{runtime}'' then bindR (bindR (item_get rt ''argv'') iterate) (mapR (text_of TypeError))
            else bindR (expand P r arg) (\<lambda>s. Inr [s])) (\<lambda>front.
     bindR (command_argv P rt r args) (\<lambda>rest. Inr (front @ rest)))"

definition skipped :: "string \<Rightarrow> string \<Rightarrow> bool \<Rightarrow> string \<Rightarrow> string \<Rightarrow> dict" where
  "skipped st name applicable detail kind =
     [(''status'', JStr st), (''name'', JStr name), (''executed'', JBool False), (''applicable'', JBool applicable),
      (''skipped'', JBool True), (''detail'', JStr detail), (''failure_kind'', JStr kind)]"

definition broken :: "string \<Rightarrow> string list \<Rightarrow> string \<Rightarrow> dict" where
  "broken name as detail =
     [(''status'', JStr ''FAIL''), (''name'', JStr name), (''executed'', JBool False), (''applicable'', JBool True),
      (''argv'', JArr (map JStr as)), (''detail'', JStr detail), (''failure_kind'', JStr ''infrastructure'')]"

text \<open>\<open>"\n".join(part for part in (stdout.strip(), stderr.strip()) if part)\<close>.\<close>

definition combined_output :: "string \<Rightarrow> string \<Rightarrow> string" where
  "combined_output u v = join [chr 10] (filter (\<lambda>p. p \<noteq> []) [strip_ws u, strip_ws v])"

definition judge :: "dict \<Rightarrow> string \<Rightarrow> string list \<Rightarrow> int \<Rightarrow> string \<Rightarrow> string \<Rightarrow> dict result" where
  "judge check name as rc u v =
     (let combined = combined_output u v in
      bindR (item_get check ''expected_contains'') (\<lambda>needle.
      bindR (item_get check ''expected_exit'') (\<lambda>expected.
      bindR (if \<not> py_eq (JInt rc) expected then Inr False
             else if \<not> truthy needle then Inr True
             else bindR (text_of TypeError needle) (\<lambda>n. Inr (contains n combined))) (\<lambda>passed.
      Inr [(''status'', JStr (if passed then ''PASS'' else ''FAIL'')), (''name'', JStr name),
           (''executed'', JBool True), (''applicable'', JBool True), (''argv'', JArr (map JStr as)),
           (''returncode'', JInt rc), (''detail'', JStr (last_chars 2000 combined)),
           (''failure_kind'', JStr (if passed then ''none'' else ''behavioral''))]))))"

definition run_configured ::
    "platform \<Rightarrow> dict \<Rightarrow> string \<Rightarrow> dict \<Rightarrow> string \<Rightarrow> (string, string) alist option \<Rightarrow> (procs, dict) M" where
  "run_configured P check name rt r env =
     bindM (readM (\<lambda>_. bindR (bindR (item_get check ''argv'') iterate) (command_argv P rt r))) (\<lambda>as.
     bindM (readM (\<lambda>_. item_get check ''timeout_seconds'')) (\<lambda>t.
     bindM (run_in P r as (Some (int_of t)) env) (\<lambda>out.
     case out of
       TimedOut m so se \<Rightarrow> ret (broken name as (''timeout after '' @ py_str t @ ''s: '' @ m))
     | CannotStart m \<Rightarrow> ret (broken name as (''infrastructure error: '' @ m))
     | Exited rc so se \<Rightarrow>
         bindM (readM (\<lambda>_. texts so se)) (\<lambda>(u, v). readM (\<lambda>_. judge check name as rc u v)))))"

definition run_check ::
    "platform \<Rightarrow> dict \<Rightarrow> string \<Rightarrow> dict \<Rightarrow> string \<Rightarrow> (string, string) alist option \<Rightarrow> (procs, dict) M" where
  "run_check P c name rt r env =
     bindM (readM (\<lambda>_. check_applicability c name)) (\<lambda>applicability.
     if applicability = ''NOT_APPLICABLE'' then
       ret (skipped ''NOT_APPLICABLE'' name False (name @ '' explicitly not applicable by contract'') ''none'')
     else if applicability = ''MISSING'' then
       ret (skipped ''MISSING'' name True (''required check '' @ repr_str name @ '' is not configured or missing'') ''configuration'')
     else
       bindM (readM (\<lambda>_. bindR (item_get c name) as_obj)) (\<lambda>check.
       if dget rt ''status'' \<noteq> JStr ''PASS'' then
         ret (skipped ''FAIL'' name True ''runtime unresolved'' ''infrastructure'')
       else run_configured P check name rt r env))"

section \<open>The persistence report\<close>

text \<open>A child process without a time limit; what cannot be started raises.\<close>

definition run_plain :: "platform \<Rightarrow> string list \<Rightarrow> (procs, int \<times> string \<times> string) M" where
  "run_plain P as =
     bindM (start P \<lparr>argv = as, directory = None, time_limit = None, environment = None\<rparr>) (\<lambda>out.
     case out of
       Exited rc so se \<Rightarrow> bindM (readM (\<lambda>_. texts so se)) (\<lambda>(u, v). ret (rc, u, v))
     | _ \<Rightarrow> raise OSError)"

definition present :: "fsview \<Rightarrow> pypath \<Rightarrow> world \<Rightarrow> string \<Rightarrow> bool" where
  "present F r w rel = file_in F (join_path r (mk_path rel)) w"

definition persistence_report ::
    "fsview \<Rightarrow> platform \<Rightarrow> (bytes \<Rightarrow> string) \<Rightarrow> dict \<Rightarrow> pypath \<Rightarrow> (procs, dict) M" where
  "persistence_report F P sha c r =
     bindM (readM (\<lambda>s. Inr (filter (\<lambda>f. \<not> present F r (surroundings s) f) REQUIRED_PERSISTED_FILES))) (\<lambda>missing.
     bindM (readM (\<lambda>s. mapR (\<lambda>f. bindR (read_in F (join_path r (mk_path f)) (surroundings s)) (\<lambda>b. Inr (f, JStr (sha b))))
              (filter (present F r (surroundings s)) REQUIRED_PERSISTED_FILES))) (\<lambda>hashes.
     bindM (readM (\<lambda>_. item_get c ''persistence'')) (\<lambda>mode.
     bindM (if mode = JStr ''git'' then
              bindM (foldM (\<lambda>acc f. bindM (run_plain P [''git'', ''-C'', str_path r, ''ls-files'', ''--error-unmatch'', ''--'', f])
                       (\<lambda>(rc, u, v). ret (if rc \<noteq> 0 then acc @ [f] else acc))) [] REQUIRED_PERSISTED_FILES) (\<lambda>untracked.
              bindM (run_plain P [''git'', ''-C'', str_path r, ''rev-parse'', ''--show-toplevel'']) (\<lambda>(rc, u, v).
              ret (untracked,
                if rc = 0 then '''' else if strip_ws v \<noteq> [] then strip_ws v else ''Git repository unavailable'')))
            else ret ([], '''')) (\<lambda>(untracked, git_error).
     let passed = (missing = [] \<and> untracked = [] \<and> git_error = '''') in
     ret [(''status'', JStr (if passed then ''PASS'' else ''FAIL'')), (''mode'', mode),
          (''missing'', JArr (map JStr missing)), (''untracked'', JArr (map JStr untracked)),
          (''sha256'', JObj hashes),
          (''detail'', JStr (if git_error \<noteq> '''' then git_error
             else if passed then ''required onboarding files persist'' else ''persistence requirements failed''))]))))"

section \<open>A satisfied verification was run\<close>

lemma member_Inr: "member v allowed = Inr b \<Longrightarrow> b = (v \<in> set (map JStr allowed))"
  by (auto simp: member_def split: if_splits)

lemma satisfied_pass:
  assumes "is_verification_satisfied (JObj res) na (Some n) = Inr True"
  shows "dget res ''name'' = JStr n \<and> n \<noteq> [] \<and>
    (dget res ''status'' = JStr ''PASS'' \<and> dget res ''executed'' = JBool True \<and> dget res ''returncode'' = JInt 0 \<or>
     na \<and> dget res ''status'' = JStr ''NOT_APPLICABLE'' \<and> dget res ''executed'' = JBool False)"
  using assms by (auto simp: is_verification_satisfied_def nonempty_str_def split: if_splits)

lemma judge_Inr:
  assumes "judge check name as rc u v = Inr res"
  shows "dget res ''name'' = JStr name" "dget res ''executed'' = JBool True" "dget res ''returncode'' = JInt rc"
    and "dget res ''status'' = JStr ''PASS'' \<Longrightarrow>
      \<exists>needle. aget check ''expected_contains'' = Some needle \<and>
        (truthy needle \<longrightarrow> (\<exists>m. needle = JStr m \<and> contains m (combined_output u v)))"
    and "dget res ''status'' = JStr ''PASS'' \<Longrightarrow> \<exists>x. aget check ''expected_exit'' = Some x \<and> py_eq (JInt rc) x"
    and "dget res ''status'' = JStr ''PASS'' \<or> dget res ''status'' = JStr ''FAIL''"
  using assms
  by (auto simp: judge_def Let_def bindR_Inr_iff item_get_def text_of_def
      split: option.splits if_splits json.splits)

text \<open>What \<open>run_configured\<close> did when it returns.\<close>

lemma run_configured_Inr:
  assumes "run_configured P check name rt r env s = (Inr res, s')"
  obtains as t out where
    "bindR (bindR (item_get check ''argv'') iterate) (command_argv P rt r) = Inr as"
    "item_get check ''timeout_seconds'' = Inr t"
    "started s' = started s @ [\<lparr>argv = as, directory = Some r, time_limit = Some (int_of t), environment = env\<rparr>]"
    "launcher P (started s) (last (started s')) (surroundings s) = (out, surroundings s')"
    "(\<exists>rc so se u v. out = Exited rc so se \<and> texts so se = Inr (u, v) \<and> judge check name as rc u v = Inr res) \<or>
     (\<exists>m. res = broken name as m)"
proof -
  from assms obtain as t out where as: "bindR (bindR (item_get check ''argv'') iterate) (command_argv P rt r) = Inr as"
    and t: "item_get check ''timeout_seconds'' = Inr t"
    and run: "start P \<lparr>argv = as, directory = Some r, time_limit = Some (int_of t), environment = env\<rparr> s = (Inr out, s')"
    and verdict: "(\<exists>rc so se u v. out = Exited rc so se \<and> texts so se = Inr (u, v) \<and> judge check name as rc u v = Inr res) \<or>
      (\<exists>m. res = broken name as m)"
    unfolding run_configured_def run_in_def
    by (elim bindM_InrE) (fastforce split: run_outcome.splits elim!: bindM_InrE)
  from start_Inr [OF run] that [OF as t _ _ verdict] show thesis by simp
qed

lemma run_check_Inr:
  assumes "run_check P c name rt r env s = (Inr res, s')"
  shows "(s' = s \<and> dget res ''name'' = JStr name \<and> dget res ''executed'' = JBool False \<and>
          (dget res ''status'' = JStr ''NOT_APPLICABLE'' \<and> check_applicability c name = Inr ''NOT_APPLICABLE'' \<or>
           dget res ''status'' = JStr ''MISSING'' \<or> dget res ''status'' = JStr ''FAIL'')) \<or>
    (\<exists>check. aget c name = Some (JObj check) \<and> dget rt ''status'' = JStr ''PASS'' \<and>
       run_configured P check name rt r env s = (Inr res, s'))"
  using assms unfolding run_check_def
  by (elim bindM_InrE)
    (auto simp: bindR_Inr_iff item_get_def as_obj_def skipped_def split: if_splits option.splits json.splits elim!: bindM_InrE)

lemma broken_fields [simp]:
  "dget (broken name as m) ''name'' = JStr name" "dget (broken name as m) ''status'' = JStr ''FAIL''"
  by (simp_all add: broken_def)

lemma command_started:
  assumes "run_configured P check name rt r env s = (Inr res, s')"
    and "dget res ''name'' = JStr n" "dget res ''status'' = JStr ''PASS''" "dget res ''returncode'' = JInt 0"
  shows "n = name \<and> (\<exists>as so se u v.
     bindR (bindR (item_get check ''argv'') iterate) (command_argv P rt r) = Inr as \<and>
     (\<exists>t. started s' = started s @ [\<lparr>argv = as, directory = Some r, time_limit = Some t, environment = env\<rparr>]) \<and>
     launcher P (started s) (last (started s')) (surroundings s) = (Exited 0 so se, surroundings s') \<and>
     texts so se = Inr (u, v) \<and>
     (\<exists>needle. aget check ''expected_contains'' = Some needle \<and>
        (truthy needle \<longrightarrow> (\<exists>m. needle = JStr m \<and> contains m (combined_output u v)))))"
  using assms(1)
proof (rule run_configured_Inr)
  fix as t out
  assume as: "bindR (bindR (item_get check ''argv'') iterate) (command_argv P rt r) = Inr as"
    and st: "started s' = started s @ [\<lparr>argv = as, directory = Some r, time_limit = Some (int_of t), environment = env\<rparr>]"
    and run: "launcher P (started s) (last (started s')) (surroundings s) = (out, surroundings s')"
    and "(\<exists>rc so se u v. out = Exited rc so se \<and> texts so se = Inr (u, v) \<and> judge check name as rc u v = Inr res) \<or>
      (\<exists>m. res = broken name as m)"
  then consider rc so se u v where "out = Exited rc so se" "texts so se = Inr (u, v)" "judge check name as rc u v = Inr res"
    | m where "res = broken name as m" by blast
  then show ?thesis
  proof cases
    case 1
    from judge_Inr [OF 1(3)] assms(2-4) have "n = name" "rc = 0"
      "\<exists>needle. aget check ''expected_contains'' = Some needle \<and>
        (truthy needle \<longrightarrow> (\<exists>m. needle = JStr m \<and> contains m (combined_output u v)))" by auto
    with as st run 1(1,2) show ?thesis by blast
  next
    case 2
    with assms(3) show ?thesis by simp
  qed
qed

text \<open>C14. A declared check counts as verified (\<open>is_verification_satisfied\<close> on what
  \<open>run_check\<close> returned) only if exactly the contract's command was started in the project
  root, ended with exit code 0 and printed the expected text, or, where a check that does not apply
  is allowed, the contract itself declares it not applicable and nothing was started. No other outcome
  (missing check, unresolved runtime, time-out, failure to start) is ever taken for a success.\<close>

theorem verified_means_run:
  assumes "run_check P c name rt r env s = (Inr res, s')"
    and "is_verification_satisfied (JObj res) na (Some n) = Inr True"
  shows "n = name \<and>
    (na \<and> s' = s \<and> check_applicability c name = Inr ''NOT_APPLICABLE'' \<or>
     (\<exists>check as so se u v. aget c name = Some (JObj check) \<and> dget rt ''status'' = JStr ''PASS'' \<and>
        bindR (bindR (item_get check ''argv'') iterate) (command_argv P rt r) = Inr as \<and>
        (\<exists>t. started s' = started s @ [\<lparr>argv = as, directory = Some r, time_limit = Some t, environment = env\<rparr>]) \<and>
        launcher P (started s) (last (started s')) (surroundings s) = (Exited 0 so se, surroundings s') \<and>
        texts so se = Inr (u, v) \<and>
        (\<exists>needle. aget check ''expected_contains'' = Some needle \<and>
           (truthy needle \<longrightarrow> (\<exists>m. needle = JStr m \<and> contains m (combined_output u v))))))"
proof -
  note sat = satisfied_pass [OF assms(2)]
  from run_check_Inr [OF assms(1)] consider
      (still) "s' = s" "dget res ''name'' = JStr name" "dget res ''executed'' = JBool False"
        "dget res ''status'' = JStr ''NOT_APPLICABLE'' \<and> check_applicability c name = Inr ''NOT_APPLICABLE'' \<or>
         dget res ''status'' = JStr ''MISSING'' \<or> dget res ''status'' = JStr ''FAIL''"
    | (ran) check where "aget c name = Some (JObj check)" "dget rt ''status'' = JStr ''PASS''"
        "run_configured P check name rt r env s = (Inr res, s')" by blast
  then show ?thesis
  proof cases
    case still
    with sat show ?thesis by auto
  next
    case ran
    from ran(3) have "dget res ''status'' = JStr ''PASS'' \<or> dget res ''status'' = JStr ''FAIL''"
      by (rule run_configured_Inr) (auto dest: judge_Inr(6))
    with sat have "dget res ''name'' = JStr n" "dget res ''status'' = JStr ''PASS''" "dget res ''returncode'' = JInt 0"
      by auto
    note run = command_started [OF ran(3) this]
    show ?thesis
      by (intro conjI disjI2 exI [where x = check] run [THEN conjunct1])
        (use ran(1,2) run [THEN conjunct2] in simp)
  qed
qed

section \<open>A loaded contract can be carried out\<close>

lemma complain_Nil [simp]: "complain ok msg = [] \<longleftrightarrow> ok"
  by (simp add: complain_def)

lemma list_all_texts: "list_all (\<lambda>x. case x of JStr s \<Rightarrow> ok s | _ \<Rightarrow> False) xs \<Longrightarrow> \<exists>as. xs = map JStr as \<and> (\<forall>a \<in> set as. ok a)"
proof (induction xs)
  case (Cons x xs)
  then obtain as where "xs = map JStr as" "\<forall>a \<in> set as. ok a" by auto
  moreover from Cons.prems obtain s where "x = JStr s" "ok s" by (cases x) auto
  ultimately have "x # xs = map JStr (s # as) \<and> (\<forall>a \<in> set (s # as). ok a)" by simp
  then show ?case by (rule exI)
qed simp

lemma is_text_listD: "is_text_list ok v \<Longrightarrow> \<exists>as. v = JArr (map JStr as) \<and> as \<noteq> [] \<and> (\<forall>a \<in> set as. ok a)"
  by (cases v) (auto simp: is_text_list_def dest!: list_all_texts)

definition sound_check :: "json \<Rightarrow> bool" where
  "sound_check v \<longleftrightarrow> v = JNull \<or>
     (\<exists>d as t m. v = JObj d \<and> aget d ''argv'' = Some (JArr (map JStr as)) \<and> as \<noteq> [] \<and>
        aget d ''timeout_seconds'' = Some (JInt t) \<and> 1 \<le> t \<and> aget d ''expected_exit'' = Some (JInt 0) \<and>
        aget d ''expected_contains'' = Some (JStr m))"

definition sound_runtime :: "json \<Rightarrow> bool" where
  "sound_runtime v \<longleftrightarrow> (\<exists>r. v = JObj r \<and>
     (aget r ''kind'' = Some (JStr ''none'') \<or>
      aget r ''kind'' = Some (JStr ''python'') \<and>
      (\<exists>cs ps. aget r ''candidates'' = Some (JArr (map (\<lambda>a. JArr (map JStr a)) cs)) \<and> cs \<noteq> [] \<and> [] \<notin> set cs \<and>
         aget r ''probe_argv'' = Some (JArr (map JStr ps)))))"

lemma dget_eqD: "dget d k = v \<Longrightarrow> v \<noteq> JNull \<Longrightarrow> aget d k = Some v"
  by (auto simp: dget_def split: option.splits)

lemma check_errors_of_Nil: "check_errors_of c name = [] \<Longrightarrow> \<exists>v. aget c name = Some v \<and> sound_check v"
proof -
  assume no: "check_errors_of c name = []"
  then consider "aget c name = Some JNull" | d where "aget c name = Some (JObj d)"
    by (auto simp: check_errors_of_def split: option.splits json.splits)
  then show ?thesis
  proof cases
    case 2
    with no have "is_text_list (\<lambda>s. s \<noteq> []) (dget d ''argv'')" "type_is_int (dget d ''timeout_seconds'')"
      "1 \<le> int_of (dget d ''timeout_seconds'')" "dget d ''expected_exit'' = JInt 0" "is_str (dget d ''expected_contains'')"
      by (auto simp: check_errors_of_def)
    from this(2,3) obtain t where t: "dget d ''timeout_seconds'' = JInt t" "1 \<le> t"
      by (auto elim!: type_is_int.elims)
    from \<open>is_str _\<close> obtain m where m: "dget d ''expected_contains'' = JStr m"
      by (auto elim!: is_str.elims)
    from is_text_listD [OF \<open>is_text_list _ _\<close>] obtain as where "dget d ''argv'' = JArr (map JStr as)" "as \<noteq> []"
      by blast
    with t m \<open>dget d ''expected_exit'' = _\<close> have "sound_check (JObj d)"
      unfolding sound_check_def by (simp add: dget_eqD) blast
    with 2 show ?thesis by simp
  qed (auto simp: sound_check_def)
qed

lemma candidate_lists:
  "list_all (is_text_list (\<lambda>s. s \<noteq> [])) cs \<Longrightarrow> \<exists>css. cs = map (\<lambda>a. JArr (map JStr a)) css \<and> [] \<notin> set css"
proof (induction cs)
  case (Cons v cs)
  then obtain css where "cs = map (\<lambda>a. JArr (map JStr a)) css" "[] \<notin> set css" by auto
  moreover from Cons.prems obtain as where "v = JArr (map JStr as)" "as \<noteq> []" by (auto dest!: is_text_listD)
  ultimately have "v # cs = map (\<lambda>a. JArr (map JStr a)) (as # css) \<and> [] \<notin> set (as # css)" by auto
  then show ?case by (rule exI)
qed simp

lemma runtime_errors_Nil: "runtime_errors c = Inr [] \<Longrightarrow> sound_runtime (dget c ''runtime'')"
proof -
  assume no: "runtime_errors c = Inr []"
  then obtain r where r: "dget c ''runtime'' = JObj r" by (auto simp: runtime_errors_def split: json.splits)
  with no consider "dget r ''kind'' = JStr ''none''" | "dget r ''kind'' = JStr ''python''"
    by (auto simp: runtime_errors_def bindR_Inr_iff split: if_splits dest!: member_Inr)
  then show ?thesis
  proof cases
    case 1
    with r show ?thesis by (simp add: sound_runtime_def dget_eqD)
  next
    case 2
    with no r obtain cs where cs: "dget r ''candidates'' = JArr cs" "cs \<noteq> []" "list_all (is_text_list (\<lambda>s. s \<noteq> [])) cs"
      and "is_text_list (\<lambda>s. True) (dget r ''probe_argv'')"
      by (auto simp: runtime_errors_def member_def split: json.splits)
    then obtain ps where "dget r ''probe_argv'' = JArr (map JStr ps)" by (auto dest!: is_text_listD)
    moreover from candidate_lists [OF cs(3)] obtain css where "cs = map (\<lambda>a. JArr (map JStr a)) css" "[] \<notin> set css" by blast
    ultimately show ?thesis using 2 r cs(1,2) unfolding sound_runtime_def by (simp add: dget_eqD) blast
  qed
qed

text \<open>What the validation of a contract establishes.\<close>

definition sound_contract :: "dict \<Rightarrow> bool" where
  "sound_contract c \<longleftrightarrow>
     (\<exists>p. dget c ''permission_class'' = JStr p) \<and> sound_runtime (dget c ''runtime'') \<and>
     (\<forall>name \<in> {''preflight'', ''verify''}. sound_check (dget c name))"

lemma validated_sound:
  assumes "validate_contract F P (JObj c) pid r = Inr []"
  shows "sound_contract c"
proof -
  from assms have "runtime_errors c = Inr []" "check_errors_of c ''preflight'' = []" "check_errors_of c ''verify'' = []"
    "member (dget c ''permission_class'') ALLOWED_PERMISSION_CLASSES = Inr True"
    by (auto simp: validate_contract_def bindR_Inr_iff)
  moreover from this(4) obtain p where "dget c ''permission_class'' = JStr p" by (auto dest!: member_Inr)
  ultimately show ?thesis
    unfolding sound_contract_def
    by (auto simp: dget_def dest!: check_errors_of_Nil) (auto simp: dget_def dest!: runtime_errors_Nil)
qed

lemma sound_to_dict: "sound_contract v \<Longrightarrow> sound_contract (to_dict (contract_of v))"
  by (auto simp: sound_contract_def to_dict_def contract_of_def)

lemma parsed_sound: "parse_contract F P text = Inr c \<Longrightarrow> sound_contract (to_dict c)"
  by (auto simp: parse_contract_def bindR_Inr_iff split: if_splits option.splits json.splits
      intro!: sound_to_dict dest: validated_sound)

lemma expand_texts: "mapR (expand P r) (map JStr as) = Inr (map (\<lambda>s. expandvars (ambient P) (replace_sub ''{project_root}'' r s)) as)"
  by (induction as) (simp_all add: expand_def)

lemma expand_all_texts [simp]:
  "expand_all P r (JArr (map JStr as)) = Inr (map (\<lambda>s. expandvars (ambient P) (replace_sub ''{project_root}'' r s)) as)"
  by (simp add: expand_all_def iterate_def expand_texts)

lemma text_of_texts [simp]: "mapR (text_of e) (map JStr as) = Inr as"
  by (induction as) (simp_all add: text_of_def)

lemma command_argv_texts:
  "aget rt ''argv'' = Some (JArr (map JStr xs)) \<Longrightarrow> \<exists>as. command_argv P rt r (map JStr args) = Inr as"
  by (induction args) (auto simp: item_get_def iterate_def expand_def)

lemma probe_verdict_Inl: "probe_verdict candidate as attempts out = Inl e \<Longrightarrow> e = UnicodeDecodeError"
  by (cases out) (auto simp: probe_verdict_def Let_def bindR_Inr_iff elim!: bindR.elims dest: texts_Inl split: if_splits)

definition text_argv :: "dict \<Rightarrow> bool" where
  "text_argv rt \<longleftrightarrow> (\<exists>as. aget rt ''argv'' = Some (JArr (map JStr as)))"

lemma probe_verdict_found:
  "probe_verdict candidate as attempts out = Inr (Inr rt) \<Longrightarrow> text_argv rt"
  by (cases out) (auto simp: probe_verdict_def text_argv_def Let_def bindR_Inr_iff split: if_splits)

abbreviation undecodable :: "exn set" where
  "undecodable \<equiv> {UnicodeDecodeError, ValueError}"

lemma try_candidate_raises:
  assumes "a \<noteq> []" "aget rt ''probe_argv'' = Some (JArr (map JStr ps))"
  shows "raises_only undecodable (try_candidate F P r env rt attempts (JArr (map JStr a)))"
  unfolding try_candidate_def run_in_def
  by (rule raises_bind, rule raises_read)
    (use assms in \<open>auto simp: item_get_def split: list.splits option.splits intro!: raises_bind raises_read
      raises_mono [OF start_nonempty_raises] dest: probe_verdict_Inl\<close>)

lemma try_candidate_found:
  assumes "try_candidate F P r env rt attempts raw s = (Inr (Inr found), s')"
  shows "text_argv found"
  using assms unfolding try_candidate_def
  by (elim bindM_InrE) (auto split: list.splits option.splits elim!: bindM_InrE dest!: probe_verdict_found)

lemma try_candidates_raises:
  assumes "aget rt ''probe_argv'' = Some (JArr (map JStr ps))"
  shows "[] \<notin> set cs \<Longrightarrow> raises_only undecodable (try_candidates F P r env rt attempts (map (\<lambda>a. JArr (map JStr a)) cs))"
proof (induction cs arbitrary: attempts)
  case (Cons a cs)
  then have "a \<noteq> []" "[] \<notin> set cs" by auto
  with Cons.IH show ?case
    by (auto split: sum.splits intro!: raises_bind try_candidate_raises assms)
qed auto

lemma try_candidates_found:
  "try_candidates F P r env rt attempts raws s = (Inr found, s') \<Longrightarrow> text_argv found"
proof (induction raws arbitrary: attempts s)
  case Nil
  then show ?case by (auto simp: no_runtime_def text_argv_def intro: exI [where x = "[]"])
next
  case (Cons raw raws)
  then show ?case
    by (auto elim!: bindM_InrE split: sum.splits dest: try_candidate_found)
qed

lemma resolve_runtime_raises:
  assumes "sound_runtime (dget c ''runtime'')"
  shows "raises_only undecodable (resolve_runtime F P c r env)"
proof -
  from assms obtain rt where "dget c ''runtime'' = JObj rt" and
    rt: "aget rt ''kind'' = Some (JStr ''none'') \<or>
      aget rt ''kind'' = Some (JStr ''python'') \<and>
      (\<exists>cs ps. aget rt ''candidates'' = Some (JArr (map (\<lambda>a. JArr (map JStr a)) cs)) \<and> cs \<noteq> [] \<and> [] \<notin> set cs \<and>
         aget rt ''probe_argv'' = Some (JArr (map JStr ps)))" unfolding sound_runtime_def by blast
  then have "item_get c ''runtime'' = Inr (JObj rt)" by (simp add: item_get_def dget_def split: option.splits)
  with rt show ?thesis unfolding resolve_runtime_def
    by (auto simp: item_get_def as_obj_def iterate_def
        intro!: raises_bind raises_read try_candidates_raises simp del: try_candidates.simps)
qed

lemma resolve_runtime_argv:
  assumes "resolve_runtime F P c r env s = (Inr rt, s')"
  shows "text_argv rt"
  using assms unfolding resolve_runtime_def
  by (auto elim!: bindM_InrE split: if_splits dest!: try_candidates_found simp del: try_candidates.simps
      simp: text_argv_def intro: exI [where x = "[]"])

lemma check_applicability_Inr: "dget c ''permission_class'' = JStr p \<Longrightarrow> \<exists>a. check_applicability c name = Inr a"
  by (auto simp: check_applicability_def member_def Let_def split: option.splits json.splits)

lemma check_applicability_configured:
  "check_applicability c name = Inr a \<Longrightarrow> a \<noteq> ''NOT_APPLICABLE'' \<Longrightarrow> a \<noteq> ''MISSING'' \<Longrightarrow>
     \<exists>d. aget c name = Some (JObj d)"
  by (auto simp: check_applicability_def member_def Let_def split: option.splits json.splits if_splits)

lemma run_check_raises:
  assumes c: "sound_contract c" and name: "name = ''preflight'' \<or> name = ''verify''"
    and rt: "text_argv rt"
  shows "raises_only (insert IndexError undecodable) (run_check P c name rt r env)"
proof -
  have conf: "raises_only (insert IndexError undecodable) (run_configured P d name rt r env)"
    if d: "aget c name = Some (JObj d)" for d
  proof -
    from c name d obtain as t m where "aget d ''argv'' = Some (JArr (map JStr as))"
      "aget d ''timeout_seconds'' = Some (JInt t)" "aget d ''expected_exit'' = Some (JInt 0)"
      "aget d ''expected_contains'' = Some (JStr m)"
      unfolding sound_contract_def by (auto simp: sound_check_def dget_def)
    moreover from rt obtain as' where "command_argv P rt r (map JStr as) = Inr as'"
      unfolding text_argv_def by (auto dest: command_argv_texts)
    ultimately show ?thesis unfolding run_configured_def run_in_def
      by (auto simp: item_get_def iterate_def judge_def text_of_def Let_def
          intro!: raises_bind raises_read raises_mono [OF start_raises] dest: texts_Inl split: run_outcome.splits if_splits)
  qed
  from c obtain p where "dget c ''permission_class'' = JStr p" unfolding sound_contract_def by blast
  from check_applicability_Inr [OF this] obtain a where a: "check_applicability c name = Inr a" by blast
  show ?thesis
  proof (cases "a = ''NOT_APPLICABLE'' \<or> a = ''MISSING''")
    case True
    with a show ?thesis unfolding run_check_def by (auto intro!: raises_bind raises_read)
  next
    case False
    with a check_applicability_configured obtain d where "aget c name = Some (JObj d)" by blast
    with a conf show ?thesis unfolding run_check_def
      by (auto simp: item_get_def as_obj_def intro!: raises_bind raises_read)
  qed
qed


section \<open>Example\<close>

text \<open>A number sign stands for the double quote.\<close>

definition example_contract_text :: string where
  "example_contract_text = ''# Agents '' @ START_MARKER @ map (\<lambda>c. if c = CHR ''#'' then CHR 0x22 else c)
     ''{#schema_version#: 1, #project_id#: #p#, #cwd#: #/p#, #persistence#: #local#, #privacy#: #standard#,
        #permission_class#: #read-test#, #runtime#: {#kind#: #none#}, #preflight#: null,
        #verify#: {#argv#: [#{runtime}#], #timeout_seconds#: 5, #expected_exit#: 0, #expected_contains#: ##},
        #write_policy#: #any#}'' @ END_MARKER"

definition example_platform :: platform where
  "example_platform = \<lparr>ambient = [(''HOME'', ''/h'')], which = (\<lambda>_ _. None),
     launcher = (\<lambda>_ _ w. (Exited 0 ''all ok'' [], w))\<rparr>"

definition example_dir :: fsview where
  "example_dir = \<lparr>symlinks = (\<lambda>_. None), cwd = [], dirs = (\<lambda>_. False), regular = (\<lambda>_. False)\<rparr>"

definition example_procs :: procs where
  "example_procs = \<lparr>surroundings = \<lparr>disk = [], journal = [], denied = [], now = 0, now_ns = 0, stamp = [],
     draws = (\<lambda>_. []), drawn = 0, budget = None\<rparr>, started = []\<rparr>"

definition example_check :: dict where
  "example_check = [(''argv'', JArr [JStr ''{runtime}'', JStr ''-m'', JStr ''pytest'']), (''timeout_seconds'', JInt 5),
     (''expected_exit'', JInt 0), (''expected_contains'', JStr ''ok'')]"

definition example_contract :: dict where
  "example_contract = [(''permission_class'', JStr ''read-test''), (''verify'', JObj example_check)]"

definition example_runtime :: dict where
  "example_runtime = [(''status'', JStr ''PASS''), (''argv'', JArr [JStr ''/usr/bin/python''])]"

lemma example_run:
  "(case run_check example_platform example_contract ''verify'' example_runtime ''/p'' None example_procs of
      (Inl e, s') \<Rightarrow> False
    | (Inr res, s') \<Rightarrow> is_verification_satisfied (JObj res) False (Some ''verify'') = Inr True)"
  by code_simp

theorem verified_means_run_witness:
  "\<exists>res s' as. run_check example_platform example_contract ''verify'' example_runtime ''/p'' None example_procs = (Inr res, s') \<and>
     started s' = started example_procs @ [\<lparr>argv = as, directory = Some ''/p'', time_limit = Some 5, environment = None\<rparr>]"
proof -
  from example_run obtain res s' where
    run: "run_check example_platform example_contract ''verify'' example_runtime ''/p'' None example_procs = (Inr res, s')"
    and sat: "is_verification_satisfied (JObj res) False (Some ''verify'') = Inr True"
    by (auto split: prod.splits sum.splits)
  from verified_means_run [OF run sat] obtain as t where
    "started s' = started example_procs @ [\<lparr>argv = as, directory = Some ''/p'', time_limit = Some t, environment = None\<rparr>]"
    by auto
  moreover have "t = 5"
  proof -
    have "map time_limit (started (snd (run_check example_platform example_contract ''verify'' example_runtime ''/p'' None
        example_procs))) = [Some 5]" by code_simp
    with run calculation show ?thesis by (simp add: example_procs_def)
  qed
  ultimately show ?thesis using run by blast
qed

lemma example_contract_run:
  "(case parse_contract example_dir example_platform example_contract_text of
      Inl e \<Rightarrow> False
    | Inr c \<Rightarrow> fst (bindM (resolve_runtime example_dir example_platform (to_dict c) ''/p'' None)
        (\<lambda>rt. run_check example_platform (to_dict c) ''verify'' rt ''/p'' None) example_procs) = Inl IndexError)"
  by code_simp


end
