(* ===== verification/Routing.thy ===== *)
theory Routing
  imports Contracts "HOL-Library.Sublist" "HOL-Library.Product_Lexorder"
begin

text \<open>
  \<open>src/jvc/routing.py\<close>: normalisation of queries and aliases, the alias search, and the routing
  of a query to the registered projects. \<open>explain\<close> is the text of an exception (\<open>str(exc)\<close>).
\<close>

section \<open>Aliases in a query\<close>

definition non_word :: "char \<Rightarrow> bool" where
  "non_word c \<longleftrightarrow> \<not> is_word c"

definition joiner :: "char \<Rightarrow> bool" where
  "joiner c \<longleftrightarrow> c \<in> set ''+/&''"

definition MULTI_MARKERS :: rexp where
  "MULTI_MARKERS = Alt
     (delimited non_word
       (alts (map liti [''and'', ''both'', ''with'', ''between'', ''compare'', ''connect'', ''across''])))
     (Cat (Star any) (Cat (Cls joiner) (Star any)))"

text \<open>Every character that is no lower-case letter or digit becomes a blank.\<close>

definition blank_out :: "string \<Rightarrow> string" where
  "blank_out s = map (\<lambda>c. if id_char c then c else CHR '' '') s"

definition normalize :: "string \<Rightarrow> string" where
  "normalize value = join '' '' (split_ws (blank_out (lower value)))"

definition alias_present :: "string \<Rightarrow> string \<Rightarrow> bool" where
  "alias_present query alias =
     (let normalized_alias = normalize alias in
      if normalized_alias = [] then False
      else fullmatch (delimited is_space (lit normalized_alias)) query)"

section \<open>Routing\<close>

definition execution_of :: "execution_contract \<Rightarrow> dict result" where
  "execution_of contract =
     (let c = to_dict contract in
      bindR (as_obj (dget c ''runtime'')) (\<lambda>rt.
      bindR (item_get rt ''kind'') (\<lambda>kind.
      bindR (item_get rt ''candidates'') (\<lambda>candidates.
      Inr [(''cwd'', dget c ''cwd''), (''persistence'', dget c ''persistence''), (''privacy'', dget c ''privacy''),
           (''permission_class'', dget c ''permission_class''), (''runtime_kind'', kind),
           (''runtime_candidates'', candidates), (''preflight'', dget c ''preflight''),
           (''verify'', dget c ''verify''), (''write_policy'', dget c ''write_policy'')]))))"

definition route_payload ::
    "fsview \<Rightarrow> platform \<Rightarrow> (exn \<Rightarrow> string) \<Rightarrow> world \<Rightarrow> route \<Rightarrow> string list \<Rightarrow> dict result" where
  "route_payload F P explain w r matched =
     bindR (case bindR (load_contract F P (join_path (root_path r) (mk_path ''AGENTS.md'')) w) execution_of of
              Inr d \<Rightarrow> Inr d
            | Inl e \<Rightarrow> if is_a e OSError \<or> is_a e KeyError \<or> is_a e ContractError
                then Inr [(''status'', JStr ''INVALID''), (''detail'', JStr (explain e))] else Inl e)
       (\<lambda>execution.
     Inr [(''project_id'', JStr (project_id r)), (''root'', JStr (str_path (root_path r))), (''status'', JStr (status r)),
          (''matched_aliases'', JArr (map JStr (sort_key (\<lambda>v. (- int (length (normalize v)), v)) matched))),
          (''startup'', JArr (map (\<lambda>rel. JStr (str_path (join_path (root_path r) (mk_path rel)))) (startup r))),
          (''handoff'', JStr (handoff r)), (''execution'', JObj execution)])"

definition matched_aliases :: "string \<Rightarrow> route \<Rightarrow> string list" where
  "matched_aliases normalized_query r =
     filter (alias_present normalized_query)
       (aliases r @ (if project_id r \<in> set (aliases r) then [] else [project_id r]))"

definition reply :: "string \<Rightarrow> string \<Rightarrow> dict list \<Rightarrow> string \<Rightarrow> dict" where
  "reply st query payloads message =
     [(''status'', JStr st), (''query'', JStr query), (''routes'', JArr (map JObj payloads)), (''message'', JStr message)]"

definition resolve_query ::
    "fsview \<Rightarrow> platform \<Rightarrow> (exn \<Rightarrow> string) \<Rightarrow> world \<Rightarrow> string \<Rightarrow> route list \<Rightarrow> dict result" where
  "resolve_query F P explain w query routes =
     (let q = normalize query;
          matches = filter (\<lambda>r. matched_aliases q r \<noteq> []) routes
      in if matches = [] then
           Inr (reply ''UNKNOWN'' query [] ''No registered project alias matched; load no project context.'')
         else bindR (mapR (\<lambda>r. route_payload F P explain w r (matched_aliases q r)) matches) (\<lambda>payloads.
           if length payloads = 1 then
             Inr (reply ''ROUTED'' query payloads
               ''Read the returned root trio in order, then follow HANDOFF.md to the current stage. Load no unrelated context.'')
           else if fullmatch MULTI_MARKERS query then
             Inr (reply ''MULTI_ROUTE'' query payloads ''Keep project contexts, authorities, and outputs separate.'')
           else
             Inr (reply ''AMBIGUOUS'' query payloads
               ''Multiple projects matched without explicit multi-project intent; load no project context.'')))"

section \<open>The report as text\<close>

definition route_lines :: "dict \<Rightarrow> string list" where
  "route_lines r =
     (let execution = (case get_default r ''execution'' (JObj []) of JObj d \<Rightarrow> d | _ \<Rightarrow> []);
          steps = (case get_default r ''startup'' (JArr []) of JArr xs \<Rightarrow> xs | _ \<Rightarrow> [])
      in [''project_id: '' @ py_str (dget r ''project_id''), ''root: '' @ py_str (dget r ''root''),
          ''privacy_status: '' @ py_str (dget r ''status''), ''startup:''] @
         map (\<lambda>(i, p). ''  '' @ nat_digits i @ ''. '' @ py_str p) (enumerate 1 steps) @
         [''runtime: '' @ py_str (get_default execution ''runtime_kind'' (JStr ''INVALID'')),
          ''preflight: '' @ py_str (dget execution ''preflight''),
          ''write_policy: '' @ py_str (get_default execution ''write_policy'' (dget execution ''detail''))])"

definition format_human :: "dict \<Rightarrow> string" where
  "format_human report =
     (let routes = (case get_default report ''routes'' (JArr []) of JArr xs \<Rightarrow> xs | _ \<Rightarrow> [])
      in join [chr 10]
           ([py_str (dget report ''status'') @ '': '' @ py_str (dget report ''query'')] @
            concat (map (\<lambda>v. case v of JObj r \<Rightarrow> route_lines r | _ \<Rightarrow> []) routes) @
            [py_str (get_default report ''message'' (JStr ''''))]))"

section \<open>Whole tokens\<close>

text \<open>The words of a text, and what the alias search means for them.\<close>

definition words :: "string \<Rightarrow> string list" where
  "words s = split_ws (blank_out (lower s))"

lemma tokens_acc_append:
  "u = [] \<or> p (last u) \<Longrightarrow> tokens_acc p acc (u @ x) = (if u = [] then tokens_acc p acc x else tokens_acc p acc u @ tokens_acc p [] x)"
proof (induction u arbitrary: acc)
  case (Cons c u)
  then show ?case by (cases "u = []") auto
qed simp

lemma split_ws_before: "u = [] \<or> is_space (last u) \<Longrightarrow> split_ws (u @ x) = split_ws u @ split_ws x"
  by (auto simp: split_ws_def tokens_acc_append)

lemma split_ws_after: "v = [] \<or> is_space (hd v) \<Longrightarrow> split_ws (w @ v) = split_ws w @ split_ws v"
proof (cases v)
  case (Cons c v')
  assume "v = [] \<or> is_space (hd v)"
  with Cons have c: "is_space c" by simp
  then have "split_ws ((w @ [c]) @ v') = split_ws (w @ [c]) @ split_ws v'" by (intro split_ws_before) simp
  moreover have "tokens_acc is_space acc (w @ [c]) = tokens_acc is_space acc w" for acc
    using c by (induction w arbitrary: acc) auto
  moreover have "split_ws v = split_ws v'" using c Cons by (simp add: split_ws_def)
  ultimately show ?thesis using Cons by (simp add: split_ws_def)
qed (simp add: split_ws_def)

lemma words_props: "w \<in> set (words s) \<Longrightarrow> w \<noteq> [] \<and> (\<forall>x \<in> set w. \<not> is_space x)"
  unfolding words_def by (rule split_ws_props)

lemma split_ws_words [simp]: "split_ws (join '' '' (words s)) = words s"
  by (rule split_ws_join) (use words_props in blast)

lemma normalize_words: "normalize s = join '' '' (words s)"
  by (simp add: normalize_def words_def)

lemma join_Nil_iff: "(\<And>w. w \<in> set ws \<Longrightarrow> w \<noteq> []) \<Longrightarrow> join sep ws = [] \<longleftrightarrow> ws = []"
  by (cases ws rule: list.exhaust [case_names Nil Cons]; cases "tl ws") auto

lemma normalize_Nil_iff: "normalize s = [] \<longleftrightarrow> words s = []"
  unfolding normalize_words by (rule join_Nil_iff) (use words_props in blast)

lemma join_append:
  "xs \<noteq> [] \<Longrightarrow> ys \<noteq> [] \<Longrightarrow> join sep (xs @ ys) = join sep xs @ sep @ join sep ys"
  by (induction sep xs rule: join.induct) (auto simp: join_Cons)

lemma join_sublist:
  assumes "w \<noteq> []"
  shows "\<exists>u v. join '' '' (p @ w @ q) = u @ join '' '' w @ v \<and> (u = [] \<or> is_space (last u)) \<and> (v = [] \<or> is_space (hd v))"
proof -
  define u where "u = (if p = [] then [] else join '' '' p @ '' '')"
  define v where "v = (if q = [] then [] else '' '' @ join '' '' q)"
  have "join '' '' (p @ w @ q) = u @ join '' '' w @ v"
    using assms by (simp add: u_def v_def join_append)
  moreover have "u = [] \<or> is_space (last u)" "v = [] \<or> is_space (hd v)"
    by (auto simp: u_def v_def)
  ultimately show ?thesis by blast
qed

lemma alias_present_words:
  "alias_present (normalize q) a \<longleftrightarrow> words a \<noteq> [] \<and> sublist (words a) (words q)"
proof -
  have "(\<exists>u v. join '' '' (words q) = u @ join '' '' (words a) @ v \<and> (u = [] \<or> is_space (last u)) \<and> (v = [] \<or> is_space (hd v)))
      \<longleftrightarrow> sublist (words a) (words q)" (is "?match \<longleftrightarrow> _") if a: "words a \<noteq> []"
  proof
    assume ?match
    then obtain u v where uv: "join '' '' (words q) = u @ join '' '' (words a) @ v"
      and u: "u = [] \<or> is_space (last u)" and v: "v = [] \<or> is_space (hd v)" by blast
    have "words q = split_ws (u @ join '' '' (words a) @ v)"
      using uv by (metis split_ws_words)
    also have "\<dots> = split_ws u @ words a @ split_ws v"
      by (simp add: split_ws_before [OF u] split_ws_after [OF v])
    finally show "sublist (words a) (words q)" by simp
  next
    assume "sublist (words a) (words q)"
    then obtain p r where "words q = p @ words a @ r" by (auto simp: sublist_def)
    with join_sublist [OF a, of p r] show ?match by simp
  qed
  then show ?thesis
    by (auto simp: alias_present_def Let_def normalize_Nil_iff fullmatch_iff lang_delimited normalize_words [symmetric])
qed

section \<open>What a query is routed to\<close>

text \<open>The projects a query names: those with an alias, or an identifier, whose words stand in the
  query one after the other.\<close>

definition named :: "string \<Rightarrow> route \<Rightarrow> bool" where
  "named query r \<longleftrightarrow> (\<exists>a \<in> insert (project_id r) (set (aliases r)). words a \<noteq> [] \<and> sublist (words a) (words query))"

lemma matched_aliases_iff: "matched_aliases (normalize query) r \<noteq> [] \<longleftrightarrow> named query r"
  by (auto simp: matched_aliases_def named_def filter_empty_conv alias_present_words)

lemma route_payload_Inr:
  "route_payload F P explain w r m = Inr d \<Longrightarrow>
     dget d ''project_id'' = JStr (project_id r) \<and> dget d ''root'' = JStr (str_path (root_path r))"
  by (auto simp: route_payload_def bindR_Inr_iff)

lemma payloads_ids:
  "mapR (\<lambda>r. route_payload F P explain w r (m r)) rs = Inr ds \<Longrightarrow>
     map (\<lambda>d. dget d ''project_id'') ds = map (\<lambda>r. JStr (project_id r)) rs"
  by (induction rs arbitrary: ds) (auto simp: bindR_Inr_iff dest: route_payload_Inr)

definition routing_status :: "string \<Rightarrow> route list \<Rightarrow> string" where
  "routing_status query routes =
     (case length (filter (named query) routes) of
        0 \<Rightarrow> ''UNKNOWN'' | Suc 0 \<Rightarrow> ''ROUTED''
      | _ \<Rightarrow> if fullmatch MULTI_MARKERS query then ''MULTI_ROUTE'' else ''AMBIGUOUS'')"

lemma resolve_query_report:
  assumes "resolve_query F P explain w query routes = Inr d"
  shows "dget d ''status'' = JStr (routing_status query routes) \<and>
    (\<exists>payloads. dget d ''routes'' = JArr (map JObj payloads) \<and>
       map (\<lambda>p. dget p ''project_id'') payloads = map (\<lambda>r. JStr (project_id r)) (filter (named query) routes))"
proof -
  let ?ms = "filter (named query) routes"
  have ms: "filter (\<lambda>r. matched_aliases (normalize query) r \<noteq> []) routes = ?ms"
    by (simp add: matched_aliases_iff)
  show ?thesis
  proof (cases "?ms = []")
    case True
    with assms ms show ?thesis
      by (auto simp: resolve_query_def reply_def routing_status_def)
  next
    case False
    with assms ms obtain payloads where
      ps: "mapR (\<lambda>r. route_payload F P explain w r (matched_aliases (normalize query) r)) ?ms = Inr payloads"
      by (auto simp: resolve_query_def Let_def bindR_Inr_iff)
    from payloads_ids [OF ps] have ids: "map (\<lambda>p. dget p ''project_id'') payloads = map (\<lambda>r. JStr (project_id r)) ?ms" .
    then have len: "length payloads = length ?ms" by (metis length_map)
    from assms ms False ps have "dget d ''routes'' = JArr (map JObj payloads)"
      and "dget d ''status'' = JStr (if length payloads = 1 then ''ROUTED''
             else if fullmatch MULTI_MARKERS query then ''MULTI_ROUTE'' else ''AMBIGUOUS'')"
      by (auto simp: resolve_query_def reply_def Let_def split: if_splits)
    with ids len False show ?thesis
      by (auto simp: routing_status_def split: nat.splits)
  qed
qed

text \<open>C19. Routing is decided by whole words alone: the projects in the report are exactly the
  registered ones with an alias (or their identifier) whose words occur in the query as a contiguous
  run of its words, in registry order, and letter case, punctuation and spacing have no part in it; one
  such project is \<open>ROUTED\<close>, none \<open>UNKNOWN\<close>, and several are \<open>MULTI_ROUTE\<close> or
  \<open>AMBIGUOUS\<close> according to the markers in the query.\<close>

theorem query_routes_exactly:
  assumes "resolve_query F P explain w query routes = Inr d"
  shows "dget d ''status'' = JStr (routing_status query routes) \<and>
    (\<exists>payloads. dget d ''routes'' = JArr (map JObj payloads) \<and>
       map (\<lambda>p. dget p ''project_id'') payloads = map (\<lambda>r. JStr (project_id r)) (filter (named query) routes))"
  by (rule resolve_query_report [OF assms])

definition example_routes :: "route list" where
  "example_routes =
     [\<lparr>project_id = ''data'', aliases = [''data lake''], root_path = mk_path ''/d'', startup = [], handoff = [], status = ''active''\<rparr>,
      \<lparr>project_id = ''web-app'', aliases = [], root_path = mk_path ''/w'', startup = [], handoff = [], status = ''active''\<rparr>]"

lemma example_query_runs:
  obtains d where
    "resolve_query example_dir example_platform (\<lambda>_. ''missing'') (surroundings example_procs) ''Open the WEB_app!'' example_routes = Inr d"
proof -
  have "(case resolve_query example_dir example_platform (\<lambda>_. ''missing'') (surroundings example_procs) ''Open the WEB_app!'' example_routes
      of Inl e \<Rightarrow> False | Inr d \<Rightarrow> True)" by code_simp
  then show thesis using that by (auto split: sum.splits)
qed

theorem query_routes_exactly_witness:
  "\<exists>d. resolve_query example_dir example_platform (\<lambda>_. ''missing'') (surroundings example_procs) ''Open the WEB_app!'' example_routes = Inr d \<and>
     dget d ''status'' = JStr ''ROUTED''"
proof -
  obtain d where
    d: "resolve_query example_dir example_platform (\<lambda>_. ''missing'') (surroundings example_procs) ''Open the WEB_app!'' example_routes = Inr d"
    by (rule example_query_runs)
  have "filter (\<lambda>r. matched_aliases (normalize ''Open the WEB_app!'') r \<noteq> []) example_routes = [example_routes ! 1]"
    by code_simp
  then have "routing_status ''Open the WEB_app!'' example_routes = ''ROUTED''"
    by (simp add: routing_status_def matched_aliases_iff)
  with query_routes_exactly [OF d] d show ?thesis by simp
qed

text \<open>A valid contract with no runtime names no candidates, and its route is reported as \<open>INVALID\<close>.\<close>

lemma no_runtime_is_invalid:
  assumes "dget (to_dict c) ''runtime'' = JObj [(''kind'', JStr ''none'')]"
  shows "execution_of c = Inl KeyError"
  using assms by (simp add: execution_of_def as_obj_def item_get_def Let_def)

end
