(* ===== verification/Schema.thy ===== *)
theory Schema
  imports Routing
begin

text \<open>
  The types of the documents: the published schema of an execution contract
  (\<open>schemas/icm-execution-contract.schema.json\<close>) against \<open>validate_contract\<close>, and the shape of the
  report \<open>resolve_query\<close> gives. An integer of the schema is a number written as one.
\<close>

section \<open>The published schema\<close>

text \<open>\<open>required\<close> together with \<open>additionalProperties: false\<close>.\<close>

definition fields :: "string list \<Rightarrow> dict \<Rightarrow> bool" where
  "fields ks d \<longleftrightarrow> set (map fst d) = set ks"

definition array_of :: "(json \<Rightarrow> bool) \<Rightarrow> json \<Rightarrow> bool" where
  "array_of p v = (case v of JArr xs \<Rightarrow> list_all p xs | _ \<Rightarrow> False)"

definition enum :: "string list \<Rightarrow> json \<Rightarrow> bool" where
  "enum ss v \<longleftrightarrow> v \<in> JStr ` set ss"

definition schema_check :: "json \<Rightarrow> bool" where
  "schema_check v = (case v of
      JNull \<Rightarrow> True
    | JObj d \<Rightarrow> fields [''argv'', ''timeout_seconds'', ''expected_exit'', ''expected_contains''] d \<and>
        array_of nonempty_str (dget d ''argv'') \<and> dget d ''argv'' \<noteq> JArr [] \<and>
        type_is_int (dget d ''timeout_seconds'') \<and> 1 \<le> int_of (dget d ''timeout_seconds'') \<and>
        dget d ''expected_exit'' = JInt 0 \<and> is_str (dget d ''expected_contains'')
    | _ \<Rightarrow> False)"

definition schema_runtime :: "json \<Rightarrow> bool" where
  "schema_runtime v = (case v of
      JObj r \<Rightarrow> fields [''kind'', ''candidates'', ''probe_argv''] r \<and> enum [''python'', ''none''] (dget r ''kind'') \<and>
        array_of (array_of is_str) (dget r ''candidates'') \<and> array_of is_str (dget r ''probe_argv'')
    | _ \<Rightarrow> False)"

definition CONTRACT_FIELDS :: "string list" where
  "CONTRACT_FIELDS = [''schema_version'', ''project_id'', ''cwd'', ''persistence'', ''privacy'', ''permission_class'',
     ''runtime'', ''preflight'', ''verify'', ''write_policy'']"

definition schema_contract :: "json \<Rightarrow> bool" where
  "schema_contract v = (case v of
      JObj c \<Rightarrow> fields CONTRACT_FIELDS c \<and> dget c ''schema_version'' = JInt 1 \<and>
        is_str (dget c ''project_id'') \<and> fullmatch PROJECT_ID_RE (py_str (dget c ''project_id'')) \<and>
        nonempty_str (dget c ''cwd'') \<and> enum ALLOWED_PERSISTENCE (dget c ''persistence'') \<and>
        enum ALLOWED_PRIVACY (dget c ''privacy'') \<and> enum ALLOWED_PERMISSION_CLASSES (dget c ''permission_class'') \<and>
        schema_runtime (dget c ''runtime'') \<and> schema_check (dget c ''preflight'') \<and> schema_check (dget c ''verify'') \<and>
        nonempty_str (dget c ''write_policy'')
    | _ \<Rightarrow> False)"

section \<open>What the code accepts\<close>

definition core_check :: "json \<Rightarrow> bool" where
  "core_check v = (case v of
      JNull \<Rightarrow> True
    | JObj d \<Rightarrow> array_of nonempty_str (dget d ''argv'') \<and> dget d ''argv'' \<noteq> JArr [] \<and>
        type_is_int (dget d ''timeout_seconds'') \<and> 1 \<le> int_of (dget d ''timeout_seconds'') \<and>
        dget d ''expected_exit'' = JInt 0 \<and> is_str (dget d ''expected_contains'')
    | _ \<Rightarrow> False)"

text \<open>A Python runtime can be started: there is a candidate, none is empty, and there is a probe.\<close>

definition startable :: "dict \<Rightarrow> bool" where
  "startable r \<longleftrightarrow> dget r ''candidates'' \<noteq> JArr [] \<and>
     array_of (\<lambda>v. array_of nonempty_str v \<and> v \<noteq> JArr []) (dget r ''candidates'') \<and>
     array_of is_str (dget r ''probe_argv'') \<and> dget r ''probe_argv'' \<noteq> JArr []"

definition core_runtime :: "json \<Rightarrow> bool" where
  "core_runtime v = (case v of
      JObj r \<Rightarrow> dget r ''kind'' = JStr ''none'' \<or> dget r ''kind'' = JStr ''python'' \<and> startable r
    | _ \<Rightarrow> False)"

definition nonblank :: "json \<Rightarrow> bool" where
  "nonblank v \<longleftrightarrow> is_str v \<and> strip_ws (py_str v) \<noteq> []"

definition core_contract :: "json \<Rightarrow> bool" where
  "core_contract v = (case v of
      JObj c \<Rightarrow> dget c ''schema_version'' = JInt 1 \<and> nonempty_str (dget c ''project_id'') \<and> nonempty_str (dget c ''cwd'') \<and>
        enum ALLOWED_PERSISTENCE (dget c ''persistence'') \<and> enum ALLOWED_PRIVACY (dget c ''privacy'') \<and>
        enum ALLOWED_PERMISSION_CLASSES (dget c ''permission_class'') \<and> core_runtime (dget c ''runtime'') \<and>
        aget c ''preflight'' \<noteq> None \<and> core_check (dget c ''preflight'') \<and>
        aget c ''verify'' \<noteq> None \<and> core_check (dget c ''verify'') \<and> nonblank (dget c ''write_policy'')
    | _ \<Rightarrow> False)"

text \<open>What the schema leaves open and the code asks for.\<close>

definition runnable :: "dict \<Rightarrow> bool" where
  "runnable c \<longleftrightarrow> nonblank (dget c ''write_policy'') \<and>
     (case dget c ''runtime'' of JObj r \<Rightarrow> dget r ''kind'' = JStr ''python'' \<longrightarrow> startable r | _ \<Rightarrow> True)"

lemma enum_hashable: "enum ss v \<Longrightarrow> hashable v"
  by (auto simp: enum_def)

lemma member_enum: "member v ss = Inr b \<longleftrightarrow> hashable v \<and> b = enum ss v"
  by (auto simp: member_def enum_def)

lemma member_True: "member v ss = Inr True \<longleftrightarrow> enum ss v"
  by (auto simp: member_enum dest: enum_hashable)

lemma texts_array: "is_text_list p v \<longleftrightarrow> array_of (\<lambda>v. is_str v \<and> p (py_str v)) v \<and> v \<noteq> JArr []"
proof (cases v)
  case (JArr xs)
  have "(\<lambda>x. case x of JStr s \<Rightarrow> p s | _ \<Rightarrow> False) = (\<lambda>x. is_str x \<and> p (py_str x))"
    by (rule ext) (simp split: json.split)
  with JArr show ?thesis by (auto simp: is_text_list_def array_of_def)
qed (simp_all add: is_text_list_def array_of_def)

lemma nonempty_str_eq: "nonempty_str v \<longleftrightarrow> is_str v \<and> py_str v \<noteq> []"
  by (cases v) (auto simp: nonempty_str_def)

lemma nonempty_texts: "is_text_list (\<lambda>s. s \<noteq> []) v \<longleftrightarrow> array_of nonempty_str v \<and> v \<noteq> JArr []"
  by (simp add: texts_array nonempty_str_eq [abs_def])

lemma check_errors_core: "check_errors_of c name = [] \<longleftrightarrow> aget c name \<noteq> None \<and> core_check (dget c name)"
  by (auto simp: check_errors_of_def core_check_def dget_def nonempty_texts split: option.splits json.splits)

lemma runtime_errors_core: "runtime_errors c = Inr [] \<longleftrightarrow> core_runtime (dget c ''runtime'')"
proof (cases "dget c ''runtime''")
  case (JObj r)
  have "(case dget r ''candidates'' of JArr cs \<Rightarrow> cs \<noteq> [] \<and> list_all (is_text_list (\<lambda>s. s \<noteq> [])) cs | _ \<Rightarrow> False)
      \<longleftrightarrow> dget r ''candidates'' \<noteq> JArr [] \<and> array_of (\<lambda>v. array_of nonempty_str v \<and> v \<noteq> JArr []) (dget r ''candidates'')"
    by (cases "dget r ''candidates''") (simp_all add: array_of_def nonempty_texts [abs_def])
  moreover have "is_text_list (\<lambda>s. True) (dget r ''probe_argv'')
      \<longleftrightarrow> array_of is_str (dget r ''probe_argv'') \<and> dget r ''probe_argv'' \<noteq> JArr []"
    by (simp add: texts_array)
  ultimately show ?thesis
    using JObj
    by (auto simp: runtime_errors_def core_runtime_def startable_def member_def split: if_splits)
qed (simp_all add: runtime_errors_def core_runtime_def)

lemma validation_accepts: "validate_contract F P v None None = Inr [] \<longleftrightarrow> core_contract v"
proof (cases v)
  case (JObj c)
  have "validate_contract F P (JObj c) None None = Inr [] \<longleftrightarrow>
      member (dget c ''persistence'') ALLOWED_PERSISTENCE = Inr True \<and> member (dget c ''privacy'') ALLOWED_PRIVACY = Inr True \<and>
      member (dget c ''permission_class'') ALLOWED_PERMISSION_CLASSES = Inr True \<and> runtime_errors c = Inr [] \<and>
      dget c ''schema_version'' = JInt 1 \<and> nonempty_str (dget c ''project_id'') \<and> nonempty_str (dget c ''cwd'') \<and>
      nonblank (dget c ''write_policy'') \<and> check_errors_of c ''preflight'' = [] \<and> check_errors_of c ''verify'' = []"
    by (auto simp: validate_contract_def bindR_Inr_iff project_errors_def cwd_errors_def nonblank_def)
  with JObj show ?thesis
    by (auto simp: member_True runtime_errors_core check_errors_core core_contract_def)
qed (simp_all add: validate_contract_def core_contract_def)

section \<open>Schema and validation\<close>

lemma empty_id: "\<not> fullmatch PROJECT_ID_RE []"
  by code_simp

lemma field_there: "fields ks d \<Longrightarrow> k \<in> set ks \<Longrightarrow> aget d k \<noteq> None"
proof -
  assume "fields ks d" and "k \<in> set ks"
  then have "k \<in> set (map fst d)" by (simp add: fields_def)
  then show ?thesis by (induction d) (auto split: if_splits)
qed

lemma schema_check_core: "schema_check v \<Longrightarrow> core_check v"
  by (auto simp: schema_check_def core_check_def split: json.splits)

lemma schema_runtime_core:
  assumes "schema_runtime v"
  obtains r where "v = JObj r" "core_runtime v \<longleftrightarrow> (dget r ''kind'' = JStr ''python'' \<longrightarrow> startable r)"
    "aget r ''candidates'' \<noteq> None"
proof -
  from assms obtain r where r: "v = JObj r" "enum [''python'', ''none''] (dget r ''kind'')"
    "fields [''kind'', ''candidates'', ''probe_argv''] r"
    by (auto simp: schema_runtime_def split: json.splits)
  moreover from this(3) have "aget r ''candidates'' \<noteq> None" by (rule field_there) simp
  ultimately show thesis using that by (auto simp: core_runtime_def enum_def)
qed

lemma schema_contract_core:
  assumes "schema_contract (JObj c)"
  shows "core_contract (JObj c) \<longleftrightarrow> runnable c"
proof -
  from assms have f: "fields CONTRACT_FIELDS c" and rt: "schema_runtime (dget c ''runtime'')"
    and checks: "schema_check (dget c ''preflight'')" "schema_check (dget c ''verify'')"
    and id: "is_str (dget c ''project_id'')" "fullmatch PROJECT_ID_RE (py_str (dget c ''project_id''))"
    by (simp_all add: schema_contract_def)
  have there: "aget c ''preflight'' \<noteq> None" "aget c ''verify'' \<noteq> None"
    by (rule field_there [OF f], simp add: CONTRACT_FIELDS_def)+
  have "py_str (dget c ''project_id'') \<noteq> []" using id(2) empty_id by metis
  with id have named: "nonempty_str (dget c ''project_id'')" by (simp add: nonempty_str_eq)
  obtain r where "dget c ''runtime'' = JObj r"
    "core_runtime (dget c ''runtime'') \<longleftrightarrow> (dget r ''kind'' = JStr ''python'' \<longrightarrow> startable r)"
    using rt by (rule schema_runtime_core)
  with assms there named checks [THEN schema_check_core] show ?thesis
    by (auto simp: core_contract_def runnable_def schema_contract_def)
qed

lemma enum_texts: "enum ss v \<Longrightarrow> \<exists>b. member v ts = Inr b"
  by (auto simp: member_def enum_def)

lemma schema_never_raises:
  assumes "schema_contract (JObj c)"
  shows "\<exists>es. validate_contract F P (JObj c) None None = Inr es"
proof -
  from assms have e: "enum ALLOWED_PERSISTENCE (dget c ''persistence'')" "enum ALLOWED_PRIVACY (dget c ''privacy'')"
    "enum ALLOWED_PERMISSION_CLASSES (dget c ''permission_class'')" and rt: "schema_runtime (dget c ''runtime'')"
    by (simp_all add: schema_contract_def)
  from rt have "\<exists>es. runtime_errors c = Inr es"
    by (auto simp: runtime_errors_def schema_runtime_def enum_def member_def split: json.splits)
  moreover obtain a where "member (dget c ''persistence'') ALLOWED_PERSISTENCE = Inr a" using enum_texts [OF e(1)] by blast
  moreover obtain b where "member (dget c ''privacy'') ALLOWED_PRIVACY = Inr b" using enum_texts [OF e(2)] by blast
  moreover obtain d where "member (dget c ''permission_class'') ALLOWED_PERMISSION_CLASSES = Inr d" using enum_texts [OF e(3)] by blast
  ultimately show ?thesis by (auto simp: validate_contract_def)
qed

text \<open>C21. The validation of a contract and its published schema: the validation accepts exactly the documents
  of \<open>core_contract\<close>, and on a document that conforms to the schema it never raises and accepts it
  exactly when, beyond the schema, its write policy is not blank and a Python runtime has candidates and a
  probe to start.\<close>

theorem validation_decides_schema:
  "(\<forall>v. validate_contract F P v None None = Inr [] \<longleftrightarrow> core_contract v) \<and>
   (\<forall>c. schema_contract (JObj c) \<longrightarrow>
      (\<exists>es. validate_contract F P (JObj c) None None = Inr es \<and> (es = [] \<longleftrightarrow> runnable c)))"
proof (intro conjI allI impI)
  show "validate_contract F P v None None = Inr [] \<longleftrightarrow> core_contract v" for v by (rule validation_accepts)
  fix c
  assume c: "schema_contract (JObj c)"
  from schema_never_raises [OF this] obtain es where "validate_contract F P (JObj c) None None = Inr es" by blast
  with validation_accepts [of F P "JObj c"] schema_contract_core [OF c]
  show "\<exists>es. validate_contract F P (JObj c) None None = Inr es \<and> (es = [] \<longleftrightarrow> runnable c)" by auto
qed

text \<open>A contract without a runtime that conforms to the schema, and the same with no candidates named.\<close>

definition docs_contract :: dict where
  "docs_contract = [(''schema_version'', JInt 1), (''project_id'', JStr ''a''), (''cwd'', JStr ''/a''),
     (''persistence'', JStr ''git''), (''privacy'', JStr ''standard''), (''permission_class'', JStr ''docs-only''),
     (''runtime'', JObj [(''kind'', JStr ''none''), (''candidates'', JArr []), (''probe_argv'', JArr [])]),
     (''preflight'', JNull), (''verify'', JNull), (''write_policy'', JStr ''any'')]"

theorem validation_decides_schema_witness:
  "schema_contract (JObj docs_contract) \<and> validate_contract example_dir example_platform (JObj docs_contract) None None = Inr []"
proof -
  have s: "schema_contract (JObj docs_contract)" and r: "runnable docs_contract" by code_simp+
  with validation_decides_schema [of example_dir example_platform] show ?thesis by blast
qed

text \<open>The code asks for less than the schema: an unknown key, and a runtime that names no candidates.\<close>

lemma beyond_schema:
  "core_contract (JObj (aset ''runtime'' (JObj [(''kind'', JStr ''none'')]) docs_contract)) \<and>
   \<not> schema_contract (JObj (aset ''runtime'' (JObj [(''kind'', JStr ''none'')]) docs_contract)) \<and>
   core_contract (JObj (docs_contract @ [(''note'', JNull)])) \<and> \<not> schema_contract (JObj (docs_contract @ [(''note'', JNull)]))"
  by code_simp

lemma below_schema:
  "schema_contract (JObj (aset ''write_policy'' (JStr '' '') docs_contract)) \<and>
   \<not> core_contract (JObj (aset ''write_policy'' (JStr '' '') docs_contract))"
  by code_simp

section \<open>The routing report\<close>

definition EXECUTION_FIELDS :: "string list" where
  "EXECUTION_FIELDS = [''cwd'', ''persistence'', ''privacy'', ''permission_class'', ''runtime_kind'', ''runtime_candidates'',
     ''preflight'', ''verify'', ''write_policy'']"

definition described :: "dict \<Rightarrow> bool" where
  "described d \<longleftrightarrow> map fst d = EXECUTION_FIELDS \<and> nonempty_str (dget d ''cwd'') \<and>
     enum ALLOWED_PERSISTENCE (dget d ''persistence'') \<and> enum ALLOWED_PRIVACY (dget d ''privacy'') \<and>
     enum ALLOWED_PERMISSION_CLASSES (dget d ''permission_class'') \<and> enum [''python'', ''none''] (dget d ''runtime_kind'') \<and>
     (dget d ''runtime_kind'' = JStr ''python'' \<longrightarrow> dget d ''runtime_candidates'' \<noteq> JArr [] \<and>
        array_of (\<lambda>v. array_of nonempty_str v \<and> v \<noteq> JArr []) (dget d ''runtime_candidates'')) \<and>
     core_check (dget d ''preflight'') \<and> core_check (dget d ''verify'') \<and> nonblank (dget d ''write_policy'')"

definition typed_execution :: "json \<Rightarrow> bool" where
  "typed_execution v = (case v of
      JObj d \<Rightarrow> map fst d = [''status'', ''detail''] \<and> dget d ''status'' = JStr ''INVALID'' \<and> is_str (dget d ''detail'') \<or> described d
    | _ \<Rightarrow> False)"

definition typed_route :: "json \<Rightarrow> bool" where
  "typed_route v = (case v of
      JObj d \<Rightarrow> map fst d = [''project_id'', ''root'', ''status'', ''matched_aliases'', ''startup'', ''handoff'', ''execution''] \<and>
        is_str (dget d ''project_id'') \<and> is_str (dget d ''root'') \<and> is_str (dget d ''status'') \<and>
        array_of is_str (dget d ''matched_aliases'') \<and> dget d ''matched_aliases'' \<noteq> JArr [] \<and>
        array_of is_str (dget d ''startup'') \<and> is_str (dget d ''handoff'') \<and> typed_execution (dget d ''execution'')
    | _ \<Rightarrow> False)"

text \<open>The number of routes the status of a report goes with.\<close>

definition fits :: "string \<Rightarrow> nat \<Rightarrow> bool" where
  "fits st n \<longleftrightarrow> st = ''UNKNOWN'' \<and> n = 0 \<or> st = ''ROUTED'' \<and> n = 1 \<or> st \<in> {''MULTI_ROUTE'', ''AMBIGUOUS''} \<and> 1 < n"

definition typed_report :: "dict \<Rightarrow> bool" where
  "typed_report d \<longleftrightarrow> map fst d = [''status'', ''query'', ''routes'', ''message''] \<and> is_str (dget d ''status'') \<and>
     is_str (dget d ''query'') \<and> is_str (dget d ''message'') \<and>
     (case dget d ''routes'' of JArr rs \<Rightarrow> list_all typed_route rs \<and> fits (py_str (dget d ''status'')) (length rs) | _ \<Rightarrow> False)"

lemma parsed_core:
  assumes "parse_contract F P text = Inr c"
  obtains v where "core_contract (JObj v)" "c = contract_of v"
proof -
  from assms obtain v where "validate_contract F P (JObj v) None None = Inr []" "c = contract_of v"
    by (auto simp: parse_contract_def bindR_Inr_iff split: if_splits option.splits json.splits)
  with that show thesis by (simp add: validation_accepts)
qed

lemma str_back: "is_str v \<Longrightarrow> JStr (py_str v) = v"
  by (cases v) simp_all

lemma enum_is_str: "enum ss v \<Longrightarrow> is_str v"
  by (auto simp: enum_def)

lemma execution_described:
  assumes "parse_contract F P text = Inr c" and "execution_of c = Inr d"
  shows "described d"
proof -
  obtain v where v: "core_contract (JObj v)" and c: "c = contract_of v" using assms(1) by (rule parsed_core)
  obtain r where r: "dget v ''runtime'' = JObj r" and core: "core_runtime (JObj r)"
    using v by (cases "dget v ''runtime''") (auto simp: core_contract_def core_runtime_def)
  from v have texts: "JStr (py_str (dget v ''cwd'')) = dget v ''cwd''"
    "JStr (py_str (dget v ''persistence'')) = dget v ''persistence''" "JStr (py_str (dget v ''privacy'')) = dget v ''privacy''"
    "JStr (py_str (dget v ''permission_class'')) = dget v ''permission_class''"
    "JStr (py_str (dget v ''write_policy'')) = dget v ''write_policy''"
    by (auto simp: core_contract_def nonempty_str_eq nonblank_def intro!: str_back dest: enum_is_str)
  obtain k cs where k: "aget r ''kind'' = Some k" "aget r ''candidates'' = Some cs"
    and d: "d = [(''cwd'', dget v ''cwd''), (''persistence'', dget v ''persistence''), (''privacy'', dget v ''privacy''),
      (''permission_class'', dget v ''permission_class''), (''runtime_kind'', k), (''runtime_candidates'', cs),
      (''preflight'', dget v ''preflight''), (''verify'', dget v ''verify''), (''write_policy'', dget v ''write_policy'')]"
    using assms(2)
    by (auto simp: execution_of_def c to_dict_def contract_of_def as_obj_def item_get_def bindR_Inr_iff r texts
        split: option.splits)
  from k have rk: "dget r ''kind'' = k" "dget r ''candidates'' = cs" by (simp_all add: dget_def)
  with core have "enum [''python'', ''none''] k"
    and "k = JStr ''python'' \<longrightarrow> cs \<noteq> JArr [] \<and> array_of (\<lambda>v. array_of nonempty_str v \<and> v \<noteq> JArr []) cs"
    by (auto simp: core_runtime_def enum_def startable_def)
  moreover from v have "nonempty_str (dget v ''cwd'')" "enum ALLOWED_PERSISTENCE (dget v ''persistence'')"
    "enum ALLOWED_PRIVACY (dget v ''privacy'')" "enum ALLOWED_PERMISSION_CLASSES (dget v ''permission_class'')"
    "core_check (dget v ''preflight'')" "core_check (dget v ''verify'')" "nonblank (dget v ''write_policy'')"
    by (simp_all add: core_contract_def)
  ultimately show ?thesis by (simp add: described_def d EXECUTION_FIELDS_def)
qed

lemma route_payload_typed:
  assumes "route_payload F P explain w r m = Inr d" and "m \<noteq> []"
  shows "typed_route (JObj d)"
proof -
  obtain ex where ex: "typed_execution (JObj ex)"
    and d: "d = [(''project_id'', JStr (project_id r)), (''root'', JStr (str_path (root_path r))), (''status'', JStr (status r)),
          (''matched_aliases'', JArr (map JStr (sort_key (\<lambda>v. (- int (length (normalize v)), v)) m))),
          (''startup'', JArr (map (\<lambda>rel. JStr (str_path (join_path (root_path r) (mk_path rel)))) (startup r))),
          (''handoff'', JStr (handoff r)), (''execution'', JObj ex)]"
  proof -
    let ?load = "bindR (load_contract F P (join_path (root_path r) (mk_path ''AGENTS.md'')) w) execution_of"
    have "typed_execution (JObj ex)"
      if "(case ?load of Inr d \<Rightarrow> Inr d | Inl e \<Rightarrow> if is_a e OSError \<or> is_a e KeyError \<or> is_a e ContractError
          then Inr [(''status'', JStr ''INVALID''), (''detail'', JStr (explain e))] else Inl e) = Inr ex" for ex
    proof (cases ?load)
      case (Inl e)
      with that have "ex = [(''status'', JStr ''INVALID''), (''detail'', JStr (explain e))]" by (auto split: if_splits)
      then show ?thesis by (simp add: typed_execution_def)
    next
      case (Inr d')
      with that have "ex = d'" by simp
      moreover from Inr have "described d'"
        by (auto simp: load_contract_def bindR_Inr_iff intro: execution_described split: sum.splits)
      ultimately show ?thesis by (simp add: typed_execution_def)
    qed
    with assms(1) that show ?thesis by (auto simp: route_payload_def bindR_Inr_iff)
  qed
  have "sort_key (\<lambda>v. (- int (length (normalize v)), v)) m \<noteq> []"
    using assms(2) by (metis length_0_conv length_sort)
  then show ?thesis by (simp add: typed_route_def d ex array_of_def list_all_iff)
qed

lemma status_choice:
  assumes "(if length ps = 1 then Inr (reply a q ps m) else if c then Inr (reply b q ps n) else Inr (reply e q ps k)) = Inr d"
  shows "\<exists>st msg. d = reply st q ps msg \<and> (if length ps = 1 then st = a else st \<in> {b, e})"
  using assms by (cases "length ps = 1"; cases c) auto

text \<open>C20. The report of a routed query is well typed: it has its four fields, each entry has its seven with
  texts and lists of texts, the execution block is either the reason why the contract is invalid or the nine
  fields of a contract with every enumerated value in its range and every check one that can be run, and
  the status goes with the number of routes.\<close>

theorem report_well_typed:
  assumes "resolve_query F P explain w query routes = Inr d"
  shows "typed_report d"
proof -
  let ?ms = "filter (\<lambda>r. matched_aliases (normalize query) r \<noteq> []) routes"
  have all: "list_all typed_route (map JObj ps) \<and> length ps = length rs"
    if "mapR (\<lambda>r. route_payload F P explain w r (matched_aliases (normalize query) r)) rs = Inr ps"
      "\<forall>r \<in> set rs. matched_aliases (normalize query) r \<noteq> []" for rs ps
    using that
    by (induction rs arbitrary: ps) (auto simp: bindR_Inr_iff dest: route_payload_typed)
  show ?thesis
  proof (cases "?ms = []")
    case True
    with assms show ?thesis by (auto simp: resolve_query_def reply_def typed_report_def fits_def)
  next
    case False
    with assms have "bindR (mapR (\<lambda>r. route_payload F P explain w r (matched_aliases (normalize query) r)) ?ms) (\<lambda>ps.
        if length ps = 1 then Inr (reply ''ROUTED'' query ps
               ''Read the returned root trio in order, then follow HANDOFF.md to the current stage. Load no unrelated context.'')
        else if fullmatch MULTI_MARKERS query then
             Inr (reply ''MULTI_ROUTE'' query ps ''Keep project contexts, authorities, and outputs separate.'')
        else Inr (reply ''AMBIGUOUS'' query ps
               ''Multiple projects matched without explicit multi-project intent; load no project context.'')) = Inr d"
      by (simp add: resolve_query_def Let_def)
    then obtain ps where
      ps: "mapR (\<lambda>r. route_payload F P explain w r (matched_aliases (normalize query) r)) ?ms = Inr ps"
      and choice: "(if length ps = 1 then Inr (reply ''ROUTED'' query ps
               ''Read the returned root trio in order, then follow HANDOFF.md to the current stage. Load no unrelated context.'')
        else if fullmatch MULTI_MARKERS query then
             Inr (reply ''MULTI_ROUTE'' query ps ''Keep project contexts, authorities, and outputs separate.'')
        else Inr (reply ''AMBIGUOUS'' query ps
               ''Multiple projects matched without explicit multi-project intent; load no project context.'')) = (Inr d :: dict result)"
      unfolding bindR_Inr_iff by blast
    from status_choice [OF choice] obtain st msg where d: "d = reply st query ps msg"
      and st: "if length ps = 1 then st = ''ROUTED'' else st \<in> {''MULTI_ROUTE'', ''AMBIGUOUS''}"
      by (elim exE conjE) (rule that)
    have typed: "list_all typed_route (map JObj ps) \<and> length ps = length ?ms" by (rule all [OF ps]) simp
    with False have "list_all typed_route (map JObj ps)" "ps \<noteq> []" by (metis, metis length_0_conv)
    moreover from this(2) st have "fits st (length ps)" by (cases ps) (auto simp: fits_def split: if_splits)
    ultimately show ?thesis by (simp add: d reply_def typed_report_def)
  qed
qed

theorem report_well_typed_witness:
  "\<exists>d. resolve_query example_dir example_platform (\<lambda>_. ''missing'') (surroundings example_procs) ''Open the WEB_app!'' example_routes = Inr d \<and>
     typed_report d"
proof -
  obtain d where
    d: "resolve_query example_dir example_platform (\<lambda>_. ''missing'') (surroundings example_procs) ''Open the WEB_app!'' example_routes = Inr d"
    by (rule example_query_runs)
  from report_well_typed [OF d] d show ?thesis by blast
qed

end
