(* ===== verification/Continuity.thy ===== *)
theory Continuity
  imports Locks Process
begin

text \<open>
  \<open>src/jvc/continuity/state.py\<close>: the continuity state of a project, its revision checks, the
  checkpoints, the decisions and the check of the handoff file.

  The JSON files below \<open>.continuity\<close> are the \<open>journal\<close> of the world, by their path relative
  to that directory; \<open>atomic_write\<close> is its atomic effect. \<open>stamp\<close> is \<open>utc_now()\<close> and the
  random token of a checkpoint is the next draw. \<open>ftext\<close> prints a float; float addition is exact.
\<close>

definition STATE_FILE :: string where
  "STATE_FILE = ''state.json''"

definition SCHEMA_VERSION :: int where
  "SCHEMA_VERSION = 2"

definition alnum :: "char \<Rightarrow> bool" where
  "alnum c \<longleftrightarrow> is_lower_az c \<or> is_upper_az c \<or> is_digit c"

definition decision_char :: "char \<Rightarrow> bool" where
  "decision_char c \<longleftrightarrow> alnum c \<or> c \<in> set ''_.-''"

definition DECISION_ID_RE :: rexp where
  "DECISION_ID_RE = Cat (Cls alnum) (upto 127 (Cls decision_char))"

definition validate_decision_id :: "string \<Rightarrow> string result" where
  "validate_decision_id decision_id =
     (if fullmatch DECISION_ID_RE decision_id then Inr decision_id else Inl ValueError)"

text \<open>The manager: its root, resolved, and its lock directory.\<close>

record manager =
  project_root :: path
  lock_directory :: path

definition state_path :: "manager \<Rightarrow> path" where
  "state_path m = project_root m @ [''.continuity'', STATE_FILE]"

definition dir_name :: "manager \<Rightarrow> string" where
  "dir_name m = path_str (project_root m @ [''.continuity''])"

definition handoff_path :: "manager \<Rightarrow> pypath" where
  "handoff_path m = \<lparr>anchored = True, parts = project_root m @ [''HANDOFF.md'']\<rparr>"

definition new_manager :: "fsview \<Rightarrow> path \<Rightarrow> path \<Rightarrow> manager result" where
  "new_manager F r locks =
     bindR (resolved_path (symlinks F) r) (\<lambda>p. Inr \<lparr>project_root = p, lock_directory = locks\<rparr>)"

definition write_json :: "manager \<Rightarrow> string \<Rightarrow> json \<Rightarrow> (world, unit) M" where
  "write_json m name j = write_doc (dir_name m) name j"

definition is_initialized :: "world \<Rightarrow> bool" where
  "is_initialized w \<longleftrightarrow> aget (journal w) STATE_FILE \<noteq> None"

text \<open>\<open>sha256_file(handoff_path)\<close>, where the file is one.\<close>

definition handoff_sha :: "fsview \<Rightarrow> hash \<Rightarrow> manager \<Rightarrow> world \<Rightarrow> string option result" where
  "handoff_sha F H m w =
     (if file_in F (handoff_path m) w
      then bindR (read_in F (handoff_path m) w) (\<lambda>b. Inr (Some (H b))) else Inr None)"

definition load_state :: "world \<Rightarrow> json result" where
  "load_state w =
     (if \<not> is_initialized w then Inl ContinuityError
      else case load_doc STATE_FILE w of
        Inl e \<Rightarrow> Inl (if is_a e OSError \<or> is_a e JSONDecodeError then ContinuityError else e)
      | Inr j \<Rightarrow> Inr j)"

section \<open>Initialisation\<close>

definition init_locked ::
    "fsview \<Rightarrow> hash \<Rightarrow> manager \<Rightarrow> string \<Rightarrow> string \<Rightarrow> string \<Rightarrow> (world, dict) M" where
  "init_locked F H m pid persistence privacy =
     bindM (readM (\<lambda>w. if is_initialized w then Inl ContinuityError else Inr ())) (\<lambda>_.
     bindM (readM (handoff_sha F H m)) (\<lambda>sha.
     bindM (readM (\<lambda>w. Inr (stamp w))) (\<lambda>t.
     bindM (write_json m STATE_FILE (JObj
       [(''schema_version'', JInt SCHEMA_VERSION), (''project_id'', JStr pid), (''metadata_revision'', JInt 1),
        (''persistence'', JStr persistence), (''privacy'', JStr privacy), (''active_workstream'', JNull),
        (''handoff_sha256'', (case sha of None \<Rightarrow> JNull | Some h \<Rightarrow> JStr h)),
        (''created_at'', JStr t), (''updated_at'', JStr t)])) (\<lambda>_.
     ret [(''status'', JStr ''PASS''), (''project_id'', JStr pid), (''revision'', JInt 1)]))))"

section \<open>Revisions\<close>

definition current_state :: "world \<Rightarrow> (dict \<times> json) result" where
  "current_state w =
     bindR (bindR (load_state w) as_obj) (\<lambda>state.
     bindR (item_get state ''metadata_revision'') (\<lambda>cur. Inr (state, cur)))"

text \<open>\<open>current_rev + 1\<close>.\<close>

definition next_revision :: "(rat \<Rightarrow> string) \<Rightarrow> json \<Rightarrow> json result" where
  "next_revision ftext v = (case v of
      JInt i \<Rightarrow> Inr (JInt (i + 1))
    | JBool b \<Rightarrow> Inr (JInt (if b then 2 else 1))
    | JFloat x t \<Rightarrow> Inr (JFloat (x + 1) (ftext (x + 1)))
    | _ \<Rightarrow> Inl TypeError)"

text \<open>The optional check of a checkpoint or a reconciliation; a decision always has one.\<close>

definition revision_check :: "bool \<Rightarrow> json \<Rightarrow> json \<Rightarrow> unit result" where
  "revision_check optional cur expected =
     (if optional \<and> expected = JNull \<or> py_eq cur expected then Inr () else Inl ConflictError)"

definition current_handoff :: "fsview \<Rightarrow> hash \<Rightarrow> manager \<Rightarrow> string \<Rightarrow> world \<Rightarrow> string result" where
  "current_handoff F H m expected w =
     bindR (handoff_sha F H m w) (\<lambda>sha. case sha of
       None \<Rightarrow> Inl ContinuityError
     | Some h \<Rightarrow> if h \<noteq> strip_ws (upper expected) then Inl ConflictError else Inr h)"

definition advance_state :: "dict \<Rightarrow> json \<Rightarrow> string option \<Rightarrow> string \<Rightarrow> dict" where
  "advance_state state cur sha t =
     aset ''updated_at'' (JStr t)
       (case sha of None \<Rightarrow> aset ''metadata_revision'' cur state
        | Some h \<Rightarrow> aset ''handoff_sha256'' (JStr h) (aset ''metadata_revision'' cur state))"

definition save_state :: "manager \<Rightarrow> dict \<Rightarrow> json \<Rightarrow> string option \<Rightarrow> (world, unit) M" where
  "save_state m state cur sha =
     bindM (readM (\<lambda>w. Inr (stamp w))) (\<lambda>t. write_json m STATE_FILE (JObj (advance_state state cur sha t)))"

section \<open>Checkpoints\<close>

text \<open>\<open>f"{n:06d}"\<close>: a float has no such format.\<close>

definition six_digits :: "json \<Rightarrow> string result" where
  "six_digits v = (case v of
      JInt i \<Rightarrow> Inr (if i < 0 then CHR ''-'' # zero_pad 5 (nat_digits (nat (- i))) else zero_pad 6 (nat_digits (nat i)))
    | _ \<Rightarrow> Inl ValueError)"

definition draw_token :: "(world, string) M" where
  "draw_token = (\<lambda>w. (Inr (draws w (drawn w)), w\<lparr>drawn := Suc (drawn w)\<rparr>))"

definition checkpoint_name :: "string \<Rightarrow> string" where
  "checkpoint_name cid = ''checkpoints/'' @ cid @ ''.json''"

definition checkpoint_locked ::
    "fsview \<Rightarrow> hash \<Rightarrow> (rat \<Rightarrow> string) \<Rightarrow> manager \<Rightarrow> string \<Rightarrow> json \<Rightarrow> json \<Rightarrow> (world, dict) M" where
  "checkpoint_locked F H ftext m expected_handoff payload expected_rev =
     bindM (readM current_state) (\<lambda>(state, cur).
     bindM (readM (\<lambda>_. revision_check True cur expected_rev)) (\<lambda>_.
     bindM (readM (current_handoff F H m expected_handoff)) (\<lambda>sha.
     bindM (readM (\<lambda>_. next_revision ftext cur)) (\<lambda>new_rev.
     bindM (readM (\<lambda>_. six_digits new_rev)) (\<lambda>digits.
     bindM (readM (\<lambda>w. Inr (stamp w))) (\<lambda>t.
     bindM draw_token (\<lambda>token.
     let cid = ''checkpoint-'' @ digits @ ''-'' @ without_char (CHR '':'') t @ ''-'' @ token in
     bindM (readM (\<lambda>_. item_get state ''project_id'')) (\<lambda>pid.
     bindM (write_json m (checkpoint_name cid) (JObj
       [(''checkpoint_id'', JStr cid), (''project_id'', pid), (''metadata_revision'', new_rev),
        (''previous_revision'', cur), (''handoff_sha256'', JStr sha), (''created_at'', JStr t),
        (''payload'', payload)])) (\<lambda>_.
     bindM (save_state m state new_rev (Some sha)) (\<lambda>_.
     ret [(''status'', JStr ''PASS''), (''checkpoint_id'', JStr cid), (''metadata_revision'', new_rev)]))))))))))"

section \<open>Reconciliation of the handoff\<close>

text \<open>The value the state records, when it is true, must be the one the caller expects.\<close>

definition recorded_check :: "dict \<Rightarrow> string \<Rightarrow> unit result" where
  "recorded_check state expected =
     (let recorded = dget state ''handoff_sha256'' in
      if truthy recorded \<and> recorded \<noteq> JStr (strip_ws (upper expected)) then Inl ConflictError else Inr ())"

definition reconcile_locked ::
    "fsview \<Rightarrow> hash \<Rightarrow> (rat \<Rightarrow> string) \<Rightarrow> manager \<Rightarrow> string \<Rightarrow> string \<Rightarrow> json \<Rightarrow> (world, dict) M" where
  "reconcile_locked F H ftext m expected_handoff observed_handoff expected_rev =
     bindM (readM current_state) (\<lambda>(state, cur).
     bindM (readM (\<lambda>_. revision_check True cur expected_rev)) (\<lambda>_.
     bindM (readM (current_handoff F H m observed_handoff)) (\<lambda>sha.
     bindM (readM (\<lambda>_. recorded_check state expected_handoff)) (\<lambda>_.
     bindM (readM (\<lambda>_. next_revision ftext cur)) (\<lambda>new_rev.
     bindM (save_state m state new_rev (Some sha)) (\<lambda>_.
     ret [(''status'', JStr ''PASS''), (''action'', JStr ''reconciled''), (''metadata_revision'', new_rev),
          (''handoff_sha256'', JStr sha)]))))))"

section \<open>Decisions\<close>

definition decision_name :: "string \<Rightarrow> string" where
  "decision_name did = ''decisions/'' @ did @ ''.json''"

definition record_decision_locked ::
    "(rat \<Rightarrow> string) \<Rightarrow> manager \<Rightarrow> string \<Rightarrow> json \<Rightarrow> json \<Rightarrow> (world, dict) M" where
  "record_decision_locked ftext m decision_id expected_rev payload =
     bindM (readM (\<lambda>_. validate_decision_id decision_id)) (\<lambda>did.
     bindM (readM current_state) (\<lambda>(state, cur).
     bindM (readM (\<lambda>_. revision_check False cur expected_rev)) (\<lambda>_.
     bindM (readM (\<lambda>w. if aget (journal w) (decision_name did) \<noteq> None then Inl ContinuityError else Inr ())) (\<lambda>_.
     bindM (readM (\<lambda>_. next_revision ftext cur)) (\<lambda>new_rev.
     bindM (readM (\<lambda>w. Inr (stamp w))) (\<lambda>t.
     bindM (write_json m (decision_name did) (JObj
       [(''decision_id'', JStr did), (''recorded_at'', JStr t), (''metadata_revision'', new_rev),
        (''payload'', payload)])) (\<lambda>_.
     bindM (save_state m state new_rev None) (\<lambda>_.
     ret [(''status'', JStr ''PASS''), (''decision_id'', JStr did), (''metadata_revision'', new_rev)]))))))))"

section \<open>Verification\<close>

definition verify_state :: "fsview \<Rightarrow> hash \<Rightarrow> manager \<Rightarrow> world \<Rightarrow> dict result" where
  "verify_state F H m w =
     (if \<not> is_initialized w then
        Inr [(''status'', JStr ''NOT_INITIALIZED''), (''detail'', JStr ''continuity state missing'')]
      else bindR (load_state w) (\<lambda>j.
      bindR (handoff_sha F H m w) (\<lambda>sha. case sha of
        None \<Rightarrow> Inr [(''status'', JStr ''FAIL''), (''detail'', JStr ''HANDOFF.md missing'')]
      | Some current \<Rightarrow>
          bindR (case j of JObj d \<Rightarrow> Inr d | _ \<Rightarrow> Inl AttributeError) (\<lambda>state.
          let recorded = dget state ''handoff_sha256'' in
          Inr (if truthy recorded \<and> recorded \<noteq> JStr current then
                 [(''status'', JStr ''DRIFT''), (''detail'', JStr ''HANDOFF.md hash does not match state record''),
                  (''recorded'', recorded), (''current'', JStr current)]
               else
                 [(''status'', JStr ''PASS''), (''project_id'', dget state ''project_id''),
                  (''metadata_revision'', dget state ''metadata_revision''), (''handoff_sha256'', JStr current)])))))"

section \<open>The operations under the lock\<close>

record continuity_state = oslocks +
  cw :: world

record surface =
  sview :: fsview
  shash :: hash
  slock_hash :: hash
  smechanism :: mechanism
  smkdir :: "path \<Rightarrow> bool"
  smeddle :: "nat \<Rightarrow> continuity_state \<Rightarrow> continuity_state"
  sretries :: nat
  sfloat :: "rat \<Rightarrow> string"

definition in_cw :: "(world, 'a) M \<Rightarrow> (continuity_state, 'a) M" where
  "in_cw m = (\<lambda>s. case m (cw s) of (r, w) \<Rightarrow> (r, s\<lparr>cw := w\<rparr>))"

definition revision_lock :: "surface \<Rightarrow> manager \<Rightarrow> int \<Rightarrow> resource_lock result" where
  "revision_lock S m t =
     bindR (lock_name_for_resource (slock_hash S) (symlinks (sview S)) ''continuity'' (state_path m)) (\<lambda>n.
     Inr (new_lock (smechanism S) (lock_directory m) n t [project_root m]))"

definition revisioned :: "surface \<Rightarrow> manager \<Rightarrow> int \<Rightarrow> (world, 'a) M \<Rightarrow> (continuity_state, 'a) M" where
  "revisioned S m t body =
     bindM (readM (\<lambda>_. revision_lock S m t)) (\<lambda>lk.
     with_lock (sview S) (smkdir S) (smeddle S) (sretries S) lk (in_cw body))"

definition init_state :: "surface \<Rightarrow> manager \<Rightarrow> string \<Rightarrow> string \<Rightarrow> string \<Rightarrow> int \<Rightarrow> (continuity_state, dict) M" where
  "init_state S m pid persistence privacy t =
     revisioned S m t (init_locked (sview S) (shash S) m pid persistence privacy)"

definition checkpoint :: "surface \<Rightarrow> manager \<Rightarrow> string \<Rightarrow> json \<Rightarrow> json \<Rightarrow> int \<Rightarrow> (continuity_state, dict) M" where
  "checkpoint S m expected_handoff payload expected_rev t =
     revisioned S m t (checkpoint_locked (sview S) (shash S) (sfloat S) m expected_handoff payload expected_rev)"

definition reconcile_handoff ::
    "surface \<Rightarrow> manager \<Rightarrow> string \<Rightarrow> string \<Rightarrow> json \<Rightarrow> json \<Rightarrow> int \<Rightarrow> (continuity_state, dict) M" where
  "reconcile_handoff S m expected_handoff observed_handoff payload expected_rev t =
     revisioned S m t (reconcile_locked (sview S) (shash S) (sfloat S) m expected_handoff observed_handoff expected_rev)"

definition record_decision :: "surface \<Rightarrow> manager \<Rightarrow> string \<Rightarrow> json \<Rightarrow> json \<Rightarrow> int \<Rightarrow> (continuity_state, dict) M" where
  "record_decision S m decision_id expected_rev payload t =
     revisioned S m t (record_decision_locked (sfloat S) m decision_id expected_rev payload)"

section \<open>Changes\<close>

datatype change = Checkpoint string json | Reconcile string string | Decision string json

definition apply_change ::
    "fsview \<Rightarrow> hash \<Rightarrow> (rat \<Rightarrow> string) \<Rightarrow> manager \<Rightarrow> change \<Rightarrow> json \<Rightarrow> (world, dict) M" where
  "apply_change F H ftext m c expected = (case c of
      Checkpoint hs payload \<Rightarrow> checkpoint_locked F H ftext m hs payload expected
    | Reconcile expd observed \<Rightarrow> reconcile_locked F H ftext m expd observed expected
    | Decision did payload \<Rightarrow> record_decision_locked ftext m did expected payload)"

text \<open>The revision the state file records, as a number.\<close>

definition rev_of :: "world \<Rightarrow> rat option" where
  "rev_of w = (case current_state w of Inr (st, v) \<Rightarrow> num_of v | Inl _ \<Rightarrow> None)"

subsection \<open>A change that fails leaves the state file alone\<close>

definition same_state :: "world \<Rightarrow> world \<Rightarrow> bool" where
  "same_state w w' \<longleftrightarrow> aget (journal w') STATE_FILE = aget (journal w) STATE_FILE"

interpretation stays: evolution same_state
  by unfold_locales (auto simp: same_state_def)

definition fails_clean :: "(world, 'a) M \<Rightarrow> bool" where
  "fails_clean m \<longleftrightarrow> (\<forall>w e w'. m w = (Inl e, w') \<longrightarrow> same_state w w')"

lemma fails_clean_bind: "evolves same_state m \<Longrightarrow> (\<And>x. fails_clean (f x)) \<Longrightarrow> fails_clean (bindM m f)"
  unfolding fails_clean_def
proof (intro allI impI)
  fix w e w'
  assume m: "evolves same_state m" and f: "\<And>x. \<forall>w e w'. f x w = (Inl e, w') \<longrightarrow> same_state w w'"
    and run: "bindM m f w = (Inl e, w')"
  obtain r v where v: "m w = (r, v)" by (cases "m w")
  with m have "same_state w v" by (rule evolvesD)
  with run v f show "same_state w w'"
    by (cases r) (auto simp: bindM_def intro: stays.R_trans)
qed

lemma fails_clean_last: "fails_clean m \<Longrightarrow> fails_clean (bindM m (\<lambda>x. ret (g x)))"
  unfolding fails_clean_def bindM_def by (fastforce split: prod.splits sum.splits)

lemma fails_clean_prod: "(\<And>a b. fails_clean (f a b)) \<Longrightarrow> fails_clean (case p of (a, b) \<Rightarrow> f a b)"
  by (cases p) simp

lemma write_json_same: "n \<noteq> STATE_FILE \<Longrightarrow> evolves same_state (write_json m n j)"
  unfolding write_json_def write_doc_def
  by (rule effect_evolves) (auto simp: same_state_def intro: stays.evolution_axioms)

lemma draw_token_same: "evolves same_state draw_token"
  by (auto simp: evolves_def draw_token_def same_state_def)

lemma save_state_clean: "fails_clean (save_state m st cur sha)"
  unfolding fails_clean_def save_state_def write_json_def
  by (auto simp: bindM_readM same_state_def dest: write_doc_Inl)

lemma other_names [simp]: "checkpoint_name c \<noteq> STATE_FILE" "decision_name d \<noteq> STATE_FILE"
  by (simp_all add: checkpoint_name_def decision_name_def STATE_FILE_def)

lemma apply_change_clean: "fails_clean (apply_change F H ftext m c expected)"
  by (cases c) (auto simp: apply_change_def checkpoint_locked_def reconcile_locked_def record_decision_locked_def Let_def
      intro!: fails_clean_bind fails_clean_last fails_clean_prod stays.readM_evolves write_json_same draw_token_same
      save_state_clean)

lemma same_state_load: "same_state w w' \<Longrightarrow> load_state w' = load_state w"
  by (simp add: same_state_def load_state_def is_initialized_def load_doc_def)

lemma same_state_rev: "same_state w w' \<Longrightarrow> rev_of w' = rev_of w"
  by (simp add: rev_of_def current_state_def same_state_load)

subsection \<open>A change that succeeds\<close>

lemma save_state_Inr:
  "save_state m st cur sha w = (Inr x, w') \<Longrightarrow>
     load_state w' = Inr (JObj (advance_state st cur sha (stamp w))) \<and> disk w' = disk w"
  unfolding save_state_def write_json_def
  by (auto simp: bindM_readM load_state_def is_initialized_def load_doc_def dest!: write_doc_Inr)

lemma advance_state_get [simp]:
  "dget (advance_state st cur sha t) ''metadata_revision'' = cur"
  "aget (advance_state st cur sha t) ''metadata_revision'' = Some cur"
  "dget (advance_state st cur (Some h) t) ''handoff_sha256'' = JStr h"
  "dget (advance_state st cur sha t) ''project_id'' = dget st ''project_id''"
  by (simp_all add: advance_state_def dget_def split: option.splits)

lemma rev_of_save:
  "save_state m st cur sha w = (Inr x, w') \<Longrightarrow> rev_of w' = num_of cur"
  by (drule save_state_Inr) (simp add: rev_of_def current_state_def as_obj_def item_get_def)

lemma next_revision_Inr: "next_revision ftext v = Inr v' \<Longrightarrow> \<exists>x. num_of v = Some x \<and> num_of v' = Some (x + 1)"
  by (auto simp: next_revision_def split: json.splits)

text \<open>What a successful change found and left.\<close>

lemma checkpoint_Inr:
  assumes "checkpoint_locked F H ftext m hs payload expected w = (Inr reply, w')"
  obtains st cur nxt sha w1 where "current_state w = Inr (st, cur)" "revision_check True cur expected = Inr ()"
    "next_revision ftext cur = Inr nxt" "current_handoff F H m hs w = Inr sha"
    "disk w1 = disk w" "save_state m st nxt (Some sha) w1 = (Inr (), w')" "dget reply ''metadata_revision'' = nxt"
proof -
  from assms show ?thesis
    unfolding checkpoint_locked_def Let_def
    by (auto elim!: bindM_InrE simp: draw_token_def write_json_def dest!: write_doc_Inr) (rule that, simp_all)
qed

lemma reconcile_Inr:
  assumes "reconcile_locked F H ftext m expd hs expected w = (Inr reply, w')"
  obtains st cur nxt sha where "current_state w = Inr (st, cur)" "revision_check True cur expected = Inr ()"
    "next_revision ftext cur = Inr nxt" "current_handoff F H m hs w = Inr sha" "recorded_check st expd = Inr ()"
    "save_state m st nxt (Some sha) w = (Inr (), w')" "dget reply ''metadata_revision'' = nxt"
proof -
  from assms show ?thesis
    unfolding reconcile_locked_def by (auto elim!: bindM_InrE) (rule that, simp_all)
qed

lemma decision_Inr:
  assumes "record_decision_locked ftext m did expected payload w = (Inr reply, w')"
  obtains st cur nxt w1 where "fullmatch DECISION_ID_RE did" "current_state w = Inr (st, cur)"
    "revision_check False cur expected = Inr ()" "aget (journal w) (decision_name did) = None"
    "next_revision ftext cur = Inr nxt"
    "write_json m (decision_name did) (JObj [(''decision_id'', JStr did), (''recorded_at'', JStr (stamp w)),
       (''metadata_revision'', nxt), (''payload'', payload)]) w = (Inr (), w1)"
    "save_state m st nxt None w1 = (Inr (), w')"
proof -
  from assms show ?thesis
    unfolding record_decision_locked_def
    by (auto elim!: bindM_InrE simp: validate_decision_id_def split: if_splits) (rule that, simp_all)
qed

lemma apply_change_Inr:
  assumes "apply_change F H ftext m c expected w = (Inr reply, w')"
  shows "\<exists>st cur x. current_state w = Inr (st, cur) \<and> num_of cur = Some x \<and> rev_of w' = Some (x + 1) \<and>
    (expected = JNull \<or> py_eq cur expected)"
proof -
  have "\<exists>st cur nxt. current_state w = Inr (st, cur) \<and> next_revision ftext cur = Inr nxt \<and> rev_of w' = num_of nxt \<and>
      (expected = JNull \<or> py_eq cur expected)"
  proof (cases c)
    case (Checkpoint hs p)
    with assms show ?thesis
      by (auto simp: apply_change_def revision_check_def split: if_splits elim!: checkpoint_Inr dest: rev_of_save)
  next
    case (Reconcile e o')
    with assms show ?thesis
      by (auto simp: apply_change_def revision_check_def split: if_splits elim!: reconcile_Inr dest: rev_of_save)
  next
    case (Decision did p)
    with assms show ?thesis
      by (auto simp: apply_change_def revision_check_def split: if_splits elim!: decision_Inr dest: rev_of_save)
  qed
  then show ?thesis by (auto dest: next_revision_Inr)
qed

section \<open>The revision\<close>

definition change_step ::
    "fsview \<Rightarrow> hash \<Rightarrow> (rat \<Rightarrow> string) \<Rightarrow> manager \<Rightarrow> change \<times> json \<Rightarrow> (world, dict) M" where
  "change_step F H ftext m p = apply_change F H ftext m (fst p) (snd p)"

lemma change_step_rev:
  assumes "change_step F H ftext m p w = (r, w')" and "rev_of w = Some x"
  shows "rev_of w' = Some (if is_ok r then x + 1 else x)"
proof (cases r)
  case (Inl e)
  with assms(1) apply_change_clean [of F H ftext m "fst p" "snd p"] have "same_state w w'"
    unfolding fails_clean_def change_step_def by blast
  with Inl assms(2) show ?thesis by (simp add: same_state_rev)
next
  case (Inr d)
  with assms(1) apply_change_Inr [of F H ftext m "fst p" "snd p" w d w'] assms(2) show ?thesis
    by (auto simp: change_step_def rev_of_def)
qed


text \<open>Changes that name the revision they are based on, as a race: the revision is the resource
  one of them uses up.\<close>

definition based :: "fsview \<Rightarrow> hash \<Rightarrow> (rat \<Rightarrow> string) \<Rightarrow> manager \<Rightarrow> change \<times> int \<Rightarrow> (world, bool) M" where
  "based F H ftext m p = bindM (apply_change F H ftext m (fst p) (JInt (snd p))) (\<lambda>_. ret True)"

definition passed :: "world \<Rightarrow> int \<Rightarrow> bool" where
  "passed w n \<longleftrightarrow> (\<exists>x. rev_of w = Some x \<and> of_int n < x)"

lemma based_True:
  assumes "based F H ftext m p w = (Inr True, w')"
  shows "rev_of w = Some (of_int (snd p)) \<and> rev_of w' = Some (of_int (snd p) + 1)"
proof -
  from assms obtain d where run: "apply_change F H ftext m (fst p) (JInt (snd p)) w = (Inr d, w')"
    unfolding based_def by (auto elim!: bindM_InrE)
  from apply_change_Inr [OF run] show ?thesis
    by (auto simp: rev_of_def py_eq_int_right)
qed

lemma based_rev:
  assumes "based F H ftext m p w = (r, w')" and "rev_of w = Some x"
  shows "rev_of w' = Some x \<or> rev_of w' = Some (x + 1)"
proof -
  obtain r' where "change_step F H ftext m (fst p, JInt (snd p)) w = (r', w')"
    using assms(1) by (auto simp: based_def change_step_def bindM_def split: prod.splits sum.splits)
  from change_step_rev [OF this assms(2)] show ?thesis by auto
qed

interpretation revisions: single_use "based F H ftext m" "\<lambda>p. Some (snd p)" passed
  for F H ftext m
proof
  show "\<exists>k. Some (snd p) = Some k \<and> \<not> passed w k \<and> passed w' k"
    if "based F H ftext m p w = (Inr True, w')" for p w w'
    using based_True [OF that] by (auto simp: passed_def)
  show "passed w' k" if "passed w k" "based F H ftext m p w = (r, w')" for w w' k p r
    using that by (auto simp: passed_def dest: based_rev)
qed

text \<open>C16. Of several changes made from the same revision exactly one can succeed, in whatever
  order they are serialized and whatever other changes come between; a successful change was based on
  the revision it found.\<close>

theorem one_change_per_revision:
  assumes "i < length cs" "j < length cs" "snd (cs ! i) = snd (cs ! j)"
    and "fst (run_all (based F H ftext m) w cs) ! i = Inr True" "fst (run_all (based F H ftext m) w cs) ! j = Inr True"
  shows "i = j"
  using revisions.granted_once [of _ _ cs F H ftext m w] assms
  by (metis (no_types, lifting) nat_neq_iff)

section \<open>The handoff\<close>

lemma verify_recorded:
  assumes "load_state w = Inr (JObj d)" and "dget d ''handoff_sha256'' = JStr h" and "h \<noteq> []"
    and "handoff_sha F H m w = Inr (Some c)"
  shows "\<exists>v. verify_state F H m w = Inr v \<and>
    (c = h \<longrightarrow> dget v ''status'' = JStr ''PASS'' \<and> dget v ''metadata_revision'' = dget d ''metadata_revision'') \<and>
    (c \<noteq> h \<longrightarrow> dget v ''status'' = JStr ''DRIFT'')"
proof -
  have "is_initialized w" using assms(1) by (auto simp: load_state_def split: if_splits)
  with assms show ?thesis by (auto simp: verify_state_def Let_def)
qed

lemma current_handoff_Inr: "current_handoff F H m hs w = Inr h \<Longrightarrow> handoff_sha F H m w = Inr (Some h) \<and> h = strip_ws (upper hs)"
  by (auto simp: current_handoff_def bindR_Inr_iff split: option.splits if_splits)

lemma handoff_sha_disk: "disk w' = disk w \<Longrightarrow> handoff_sha F H m w' = handoff_sha F H m w"
  by (simp add: handoff_sha_def file_in_def read_in_def is_file_def read_bytes_def split: option.splits)

definition adopts :: "change \<Rightarrow> string option" where
  "adopts c = (case c of Checkpoint hs p \<Rightarrow> Some hs | Reconcile e hs \<Rightarrow> Some hs | Decision d p \<Rightarrow> None)"

lemma adopting_Inr:
  assumes "apply_change F H ftext m c expected w = (Inr reply, w')" and "adopts c = Some hs"
  obtains st cur nxt h w1 where "current_handoff F H m hs w = Inr h" "disk w1 = disk w"
    "save_state m st nxt (Some h) w1 = (Inr (), w')" "dget reply ''metadata_revision'' = nxt"
proof (cases c)
  case (Checkpoint hs' p)
  with assms that show ?thesis by (auto simp: apply_change_def adopts_def elim!: checkpoint_Inr)
next
  case (Reconcile e hs')
  with assms that show ?thesis by (auto simp: apply_change_def adopts_def elim!: reconcile_Inr)
next
  case (Decision d p)
  with assms show ?thesis by (simp add: adopts_def)
qed

text \<open>A checkpoint or a reconciliation that succeeds records the hash of the handoff file as
  it is on disk, the one the caller named; verification then reports \<open>PASS\<close> with the revision the
  change returned, and from then on, as long as the state file is not changed, it reports \<open>DRIFT\<close>
  exactly when the content of the handoff has another hash.\<close>

theorem verify_tracks_handoff:
  assumes "apply_change F H ftext m c expected w = (Inr reply, w')" and "adopts c = Some hs" and "\<forall>b. H b \<noteq> []"
  shows "(\<exists>v. verify_state F H m w' = Inr v \<and> dget v ''status'' = JStr ''PASS'' \<and>
      dget v ''metadata_revision'' = dget reply ''metadata_revision'') \<and>
    (\<forall>u g. same_state w' u \<and> handoff_sha F H m u = Inr (Some g) \<longrightarrow>
      (\<exists>v. verify_state F H m u = Inr v \<and>
        dget v ''status'' = JStr (if g = strip_ws (upper hs) then ''PASS'' else ''DRIFT'')))"
proof -
  from assms(1,2) obtain st cur nxt h w1 where cur: "current_handoff F H m hs w = Inr h" and d: "disk w1 = disk w"
    and save: "save_state m st nxt (Some h) w1 = (Inr (), w')" and rep: "dget reply ''metadata_revision'' = nxt"
    by (rule adopting_Inr)
  from current_handoff_Inr [OF cur] have h: "handoff_sha F H m w = Inr (Some h)" "h = strip_ws (upper hs)" by auto
  then have ne: "h \<noteq> []" using assms(3) by (auto simp: handoff_sha_def bindR_Inr_iff split: if_splits)
  note st = save_state_Inr [OF save]
  with d h have "handoff_sha F H m w' = Inr (Some h)" by (metis handoff_sha_disk)
  from verify_recorded [OF st [THEN conjunct1] _ ne this] rep
  have "\<exists>v. verify_state F H m w' = Inr v \<and> dget v ''status'' = JStr ''PASS'' \<and>
      dget v ''metadata_revision'' = dget reply ''metadata_revision''" by auto
  moreover have "\<exists>v. verify_state F H m u = Inr v \<and>
        dget v ''status'' = JStr (if g = strip_ws (upper hs) then ''PASS'' else ''DRIFT'')"
    if "same_state w' u" and g: "handoff_sha F H m u = Inr (Some g)" for u g
  proof -
    from that(1) st have "load_state u = Inr (JObj (advance_state st nxt (Some h) (stamp w1)))" by (simp add: same_state_load)
    from verify_recorded [OF this _ ne g] h(2) show ?thesis by auto
  qed
  ultimately show ?thesis by blast
qed

section \<open>Decisions\<close>

text \<open>Files below \<open>decisions/\<close> stay as they are.\<close>

definition keeps_decisions :: "world \<Rightarrow> world \<Rightarrow> bool" where
  "keeps_decisions w w' \<longleftrightarrow>
     (\<forall>n f. startswith n ''decisions/'' \<and> aget (journal w) n = Some f \<longrightarrow> aget (journal w') n = Some f)"

interpretation minutes: evolution keeps_decisions
  by unfold_locales (auto simp: keeps_decisions_def)

lemma write_json_elsewhere: "\<not> startswith n ''decisions/'' \<Longrightarrow> evolves keeps_decisions (write_json m n j)"
  unfolding write_json_def write_doc_def
  by (rule effect_evolves) (auto simp: keeps_decisions_def intro: minutes.evolution_axioms)

lemma write_json_fresh: "aget (journal w) n = None \<Longrightarrow> keeps_decisions w (snd (write_json m n j w))"
  unfolding write_json_def write_doc_def effect_def
  by (auto simp: keeps_decisions_def split: option.splits nat.splits)

lemma save_state_keeps: "evolves keeps_decisions (save_state m st cur sha)"
  unfolding save_state_def by (intro minutes.combinators write_json_elsewhere) (simp add: STATE_FILE_def)

lemma draw_token_keeps: "evolves keeps_decisions draw_token"
  by (auto simp: evolves_def draw_token_def keeps_decisions_def)

lemma record_decision_keeps: "evolves keeps_decisions (record_decision_locked ftext m did expected payload)"
  unfolding record_decision_locked_def
  by (intro minutes.combinators minutes.readM_evolves_at minutes.bindM_at)
   (auto intro!: minutes.readM_at minutes.bindM_at write_json_fresh
      simp: minutes.R_refl save_state_keeps [unfolded evolves_def] split: if_splits)

lemma apply_change_keeps: "evolves keeps_decisions (change_step F H ftext m p)"
  unfolding change_step_def apply_change_def
proof (cases "fst p")
  case (Checkpoint hs payload)
  then show "evolves keeps_decisions (case fst p of Checkpoint hs payload \<Rightarrow> checkpoint_locked F H ftext m hs payload (snd p)
    | Reconcile expd observed \<Rightarrow> reconcile_locked F H ftext m expd observed (snd p)
    | Decision did payload \<Rightarrow> record_decision_locked ftext m did (snd p) payload)"
    by (auto simp: checkpoint_locked_def checkpoint_name_def
        intro!: minutes.combinators draw_token_keeps save_state_keeps write_json_elsewhere)
qed (auto simp: reconcile_locked_def record_decision_keeps intro!: minutes.combinators save_state_keeps)

lemma lang_upto_Cls: "w \<in> lang (upto n (Cls p)) \<longleftrightarrow> length w \<le> n \<and> (\<forall>c \<in> set w. p c)"
proof (induction n arbitrary: w)
  case (Suc n)
  then show ?case by (cases w) (auto simp: lang_Cat_Cls simp del: lang.simps(4))
qed auto

lemma decision_id_chars:
  assumes "fullmatch DECISION_ID_RE did"
  shows "did \<noteq> [] \<and> length did \<le> 128 \<and> CHR ''/'' \<notin> set did \<and> hd did \<noteq> CHR ''.''"
proof -
  from assms obtain c v where "did = c # v" "is_lower_az c \<or> is_upper_az c \<or> is_digit c" "length v \<le> 127"
    "\<forall>x \<in> set v. is_lower_az x \<or> is_upper_az x \<or> is_digit x \<or> x \<in> set ''_.-''"
    unfolding fullmatch_iff DECISION_ID_RE_def alnum_def decision_char_def lang_Cat_Cls lang_upto_Cls by auto
  then show ?thesis by (auto simp: is_lower_az_def is_upper_az_def is_digit_def code_def)
qed

text \<open>C39. A decision that is recorded is recorded for good: its identifier is a plain file name
  (no separator, no leading dot, at most 128 characters), no file of that name was there before, and no later
  change of any kind, successful, refused or interrupted, touches the file again.\<close>

theorem decisions_are_permanent:
  assumes "apply_change F H ftext m (Decision did payload) expected w = (Inr reply, w')"
  shows "did \<noteq> [] \<and> length did \<le> 128 \<and> CHR ''/'' \<notin> set did \<and> hd did \<noteq> CHR ''.'' \<and>
    aget (journal w) (decision_name did) = None \<and>
    (\<exists>f. aget (journal (snd (run_all (change_step F H ftext m) w' cs))) (decision_name did) = Some f \<and>
       (\<exists>d. jdoc f = Doc (JObj d) \<and> dget d ''decision_id'' = JStr did \<and> dget d ''payload'' = payload))"
proof -
  from assms have "record_decision_locked ftext m did expected payload w = (Inr reply, w')"
    by (simp add: apply_change_def)
  then obtain st cur nxt w1 where re: "fullmatch DECISION_ID_RE did" and none: "aget (journal w) (decision_name did) = None"
    and wr: "write_json m (decision_name did) (JObj [(''decision_id'', JStr did), (''recorded_at'', JStr (stamp w)),
       (''metadata_revision'', nxt), (''payload'', payload)]) w = (Inr (), w1)"
    and save: "save_state m st nxt None w1 = (Inr (), w')"
    by (rule decision_Inr)
  from wr obtain f where f: "aget (journal w1) (decision_name did) = Some f"
    "\<exists>d. jdoc f = Doc (JObj d) \<and> dget d ''decision_id'' = JStr did \<and> dget d ''payload'' = payload"
    unfolding write_json_def by (auto dest!: write_doc_Inr)
  have "keeps_decisions w1 w'" by (rule evolvesD [OF save_state_keeps save])
  moreover have "keeps_decisions w' (snd (run_all (change_step F H ftext m) w' cs))"
    by (rule run_all_evolves [OF minutes.evolution_axioms apply_change_keeps])
  ultimately have "keeps_decisions w1 (snd (run_all (change_step F H ftext m) w' cs))" by (rule minutes.R_trans)
  with f(1) have "aget (journal (snd (run_all (change_step F H ftext m) w' cs))) (decision_name did) = Some f"
    unfolding keeps_decisions_def decision_name_def by simp
  with re none f(2) decision_id_chars show ?thesis by blast
qed

section \<open>Example\<close>

definition example_manager :: manager where
  "example_manager = \<lparr>project_root = [''p''], lock_directory = [''l'']\<rparr>"

definition example_project :: world where
  "example_project = \<lparr>disk = [(''/p/HANDOFF.md'', Reg ''h'')],
     journal = [(STATE_FILE, \<lparr>jdoc = Doc (JObj [(''project_id'', JStr ''p''), (''metadata_revision'', JInt 1),
       (''handoff_sha256'', JNull)]), jmtime = 0\<rparr>)],
     denied = [], now = 0, now_ns = 0, stamp = ''t'', draws = (\<lambda>_. ''r''), drawn = 0, budget = None\<rparr>"

abbreviation example_hash :: hash where
  "example_hash \<equiv> (\<lambda>b. upper (CHR ''x'' # b))"


theorem one_change_per_revision_witness:
  "fst (run_all (based example_fs example_hash (\<lambda>_. []) example_manager) example_project
     [(Decision ''d1'' JNull, 1), (Checkpoint ''XH'' JNull, 1)]) ! 1 \<noteq> Inr True"
proof
  let ?cs = "[(Decision ''d1'' JNull, 1), (Checkpoint ''XH'' JNull, 1)]"
  assume b: "fst (run_all (based example_fs example_hash (\<lambda>_. []) example_manager) example_project ?cs) ! 1 = Inr True"
  have a: "fst (run_all (based example_fs example_hash (\<lambda>_. []) example_manager) example_project ?cs) ! 0 = Inr True"
    by code_simp
  have "(0::nat) = 1" by (rule one_change_per_revision [OF _ _ _ a b]) simp_all
  then show False by simp
qed

theorem verify_tracks_handoff_witness:
  "\<exists>reply w'. apply_change example_fs example_hash (\<lambda>_. []) example_manager (Checkpoint ''XH'' JNull) (JInt 1) example_project =
     (Inr reply, w') \<and> (\<exists>v. verify_state example_fs example_hash example_manager w' = Inr v \<and> dget v ''status'' = JStr ''PASS'')"
proof -
  have "is_ok (fst (apply_change example_fs example_hash (\<lambda>_. []) example_manager (Checkpoint ''XH'' JNull) (JInt 1) example_project))"
    by code_simp
  then obtain reply w' where run: "apply_change example_fs example_hash (\<lambda>_. []) example_manager (Checkpoint ''XH'' JNull) (JInt 1)
      example_project = (Inr reply, w')" by (metis is_ok.elims(2) prod.collapse)
  have "\<forall>b. example_hash b \<noteq> []" by (simp add: upper_def)
  from verify_tracks_handoff [OF run _ this] run show ?thesis by (auto simp: adopts_def)
qed

theorem decisions_are_permanent_witness:
  "\<exists>reply w'. apply_change example_fs example_hash (\<lambda>_. []) example_manager (Decision ''d1'' (JStr ''yes'')) (JInt 1) example_project =
       (Inr reply, w') \<and>
     aget (journal (snd (run_all (change_step example_fs example_hash (\<lambda>_. []) example_manager) w'
       [(Decision ''d1'' (JStr ''no''), JInt 2)]))) ''decisions/d1.json'' \<noteq> None"
proof -
  have "is_ok (fst (apply_change example_fs example_hash (\<lambda>_. []) example_manager (Decision ''d1'' (JStr ''yes'')) (JInt 1) example_project))"
    by code_simp
  then obtain reply w' where run: "apply_change example_fs example_hash (\<lambda>_. []) example_manager (Decision ''d1'' (JStr ''yes'')) (JInt 1)
      example_project = (Inr reply, w')" by (metis is_ok.elims(2) prod.collapse)
  from decisions_are_permanent [OF run, of "[(Decision ''d1'' (JStr ''no''), JInt 2)]"] run show ?thesis
    by (auto simp: decision_name_def)
qed

end
