(* ===== verification/Guard.thy ===== *)
theory Guard
  imports Boundaries Store Process
begin

text \<open>
  \<open>src/jvc/policy/guard.py\<close>: the pre-write guard. A manifest of captured preimages moves through
  \<open>proposed\<close>, \<open>approved\<close>, \<open>applied\<close> and \<open>verified\<close>; post-write hashes are bound to it
  while it is proposed, and a receipt ends it.

  Manifests and receipts are documents of the \<open>journal\<close>, by their resolved path; the guarded
  files are on the \<open>disk\<close>. A rewrite is not atomic: when the power fails at it the document is lost.
  \<open>others k\<close> is what other programs do before the \<open>k\<close>-th time a manifest is read again.
\<close>

section \<open>The lifecycle\<close>

datatype stage = Proposed | Approved | Applied | Verified

fun stage_rank :: "stage \<Rightarrow> nat" where
  "stage_rank Proposed = 0"
| "stage_rank Approved = 1"
| "stage_rank Applied = 2"
| "stage_rank Verified = 3"

instantiation stage :: linorder
begin

definition less_eq_stage :: "stage \<Rightarrow> stage \<Rightarrow> bool" where
  "less_eq_stage a b \<longleftrightarrow> stage_rank a \<le> stage_rank b"

definition less_stage :: "stage \<Rightarrow> stage \<Rightarrow> bool" where
  "less_stage a b \<longleftrightarrow> stage_rank a < stage_rank b"

instance
proof
  fix a b c :: stage
  show "a \<le> b \<Longrightarrow> b \<le> a \<Longrightarrow> a = b"
    by (cases a; cases b) (simp_all add: less_eq_stage_def)
qed (auto simp: less_eq_stage_def less_stage_def)

end

fun stage_name :: "stage \<Rightarrow> string" where
  "stage_name Proposed = ''proposed''"
| "stage_name Approved = ''approved''"
| "stage_name Applied = ''applied''"
| "stage_name Verified = ''verified''"

definition LIFECYCLE_STATES :: "stage list" where
  "LIFECYCLE_STATES = [Proposed, Approved, Applied, Verified]"

definition stage_of :: "json \<Rightarrow> stage option" where
  "stage_of v = find (\<lambda>s. v = JStr (stage_name s)) LIFECYCLE_STATES"

fun VALID_TRANSITIONS :: "stage \<Rightarrow> stage list" where
  "VALID_TRANSITIONS Proposed = [Approved]"
| "VALID_TRANSITIONS Approved = [Applied]"
| "VALID_TRANSITIONS Applied = [Verified]"
| "VALID_TRANSITIONS Verified = []"

lemma stage_of_name [simp]: "stage_of (JStr (stage_name s)) = Some s"
  by (cases s) (simp_all add: stage_of_def LIFECYCLE_STATES_def)

lemma stage_of_Some: "stage_of v = Some s \<longleftrightarrow> v = JStr (stage_name s)"
proof
  assume "stage_of v = Some s"
  then show "v = JStr (stage_name s)"
    unfolding stage_of_def find_Some_iff by auto
qed simp

section \<open>Documents\<close>

definition doc_key :: "fsview \<Rightarrow> pypath \<Rightarrow> string" where
  "doc_key F p = (case resolve_in F p of None \<Rightarrow> str_path p | Some q \<Rightarrow> path_str q)"

definition present_at :: "string \<Rightarrow> world \<Rightarrow> bool" where
  "present_at key w \<longleftrightarrow> aget (journal w) key \<noteq> None \<or> path_exists key w"

definition read_raw :: "string \<Rightarrow> world \<Rightarrow> rdoc result" where
  "read_raw key w = (case aget (journal w) key of
      None \<Rightarrow> Inl FileNotFoundError
    | Some f \<Rightarrow> (case jdoc f of IOFault \<Rightarrow> Inl OSError | d \<Rightarrow> Inr d))"

definition read_manifest :: "string \<Rightarrow> world \<Rightarrow> dict result" where
  "read_manifest key w = (case load_doc key w of
      Inl e \<Rightarrow> Inl (if is_a e OSError \<or> is_a e JSONDecodeError then GuardError else e)
    | Inr (JObj d) \<Rightarrow> Inr d
    | Inr _ \<Rightarrow> Inl GuardError)"

definition store_doc :: "string \<Rightarrow> json \<Rightarrow> (world, unit) M" where
  "store_doc key j = (\<lambda>w.
     if budget w = Some 0 \<and> key \<notin> set (denied w)
     then (Inl PowerLoss, w\<lparr>journal := aset key \<lparr>jdoc = NotJson, jmtime = now w\<rparr> (journal w)\<rparr>)
     else effect (\<lambda>w. key \<in> set (denied w))
       (\<lambda>w. w\<lparr>journal := aset key \<lparr>jdoc = Doc j, jmtime = now w\<rparr> (journal w)\<rparr>) w)"

definition write_new_json :: "string \<Rightarrow> dict \<Rightarrow> (world, unit) M" where
  "write_new_json key d =
     bindM (readM (\<lambda>w. if present_at key w then Inl GuardError else Inr ())) (\<lambda>_. store_doc key (JObj d))"

definition pause :: "(nat \<Rightarrow> world \<Rightarrow> world) \<Rightarrow> nat \<Rightarrow> (world, unit) M" where
  "pause others k = (\<lambda>w. (Inr (), others k w))"

definition rewrite_manifest ::
    "(nat \<Rightarrow> world \<Rightarrow> world) \<Rightarrow> string \<Rightarrow> rdoc \<Rightarrow> dict \<Rightarrow> (world, unit) M" where
  "rewrite_manifest others key before_doc manifest =
     bindM (pause others 0) (\<lambda>_.
     bindM (readM (read_raw key)) (\<lambda>current.
     if current \<noteq> before_doc then raise GuardError
     else bindM (store_doc key (JObj manifest)) (\<lambda>_.
     bindM (pause others 1) (\<lambda>_.
     bindM (readM (read_raw key)) (\<lambda>after.
     if after \<noteq> Doc (JObj manifest) then raise GuardError else ret ())))))"

section \<open>Entries\<close>

text \<open>The guard: the resolved root.\<close>

definition check_output_path :: "fsview \<Rightarrow> path \<Rightarrow> pypath \<Rightarrow> unit result" where
  "check_output_path F groot p =
     (case resolve_in F p of
        None \<Rightarrow> Inr ()
      | Some q \<Rightarrow>
          (case relative_to q groot of
             None \<Rightarrow> Inr ()
           | Some sub \<Rightarrow>
               let rel = posix_rel sub in
               if is_secret_path rel \<or> control_plane rel then Inl GuardError else Inr ()))"

definition sha_field :: "json \<Rightarrow> bool" where
  "sha_field v \<longleftrightarrow> (case v of JStr s \<Rightarrow> length s = 64 | _ \<Rightarrow> False)"

definition check_entry :: "fsview \<Rightarrow> path \<Rightarrow> string list \<Rightarrow> json \<Rightarrow> string result" where
  "check_entry F groot seen v = (case v of
      JObj e \<Rightarrow>
        (case dget e ''path'' of
           JStr raw \<Rightarrow>
             if strip_ws raw = [] then Inl GuardError
             else bindR (canonical_target (symlinks F) groot raw) (\<lambda>(target, crel).
             if crel \<in> set seen then Inl GuardError
             else if is_secret_path crel then Inl GuardError
             else if control_plane crel then Inl GuardError
             else if \<not> hashable (dget e ''expected_state'') then Inl TypeError
             else if dget e ''expected_state'' \<notin> {JStr ''present'', JStr ''absent''} then Inl GuardError
             else if dget e ''expected_state'' = JStr ''present'' \<and> \<not> sha_field (dget e ''sha256'') then Inl GuardError
             else if dget e ''expected_state'' = JStr ''present'' \<and>
                 \<not> (is_int (dget e ''byte_length'') \<and> 0 \<le> int_of (dget e ''byte_length'')) then Inl GuardError
             else if dget e ''expected_state'' = JStr ''absent'' \<and>
                 (aget e ''sha256'' \<noteq> None \<or> aget e ''byte_length'' \<noteq> None) then Inl GuardError
             else if dget e ''expected_sha256'' \<noteq> JNull \<and> \<not> sha_field (dget e ''expected_sha256'') then Inl GuardError
             else Inr crel)
         | _ \<Rightarrow> Inl GuardError)
    | _ \<Rightarrow> Inl GuardError)"

fun check_entries :: "fsview \<Rightarrow> path \<Rightarrow> string list \<Rightarrow> json list \<Rightarrow> string list result" where
  "check_entries F groot seen [] = Inr []"
| "check_entries F groot seen (v # vs) =
     bindR (check_entry F groot seen v) (\<lambda>crel.
     bindR (check_entries F groot (crel # seen) vs) (\<lambda>rest. Inr (crel # rest)))"

definition obj_of :: "json \<Rightarrow> dict" where
  "obj_of v = (case v of JObj d \<Rightarrow> d | _ \<Rightarrow> [])"

definition entries_of :: "dict \<Rightarrow> dict list" where
  "entries_of manifest = (case dget manifest ''entries'' of JArr vs \<Rightarrow> map obj_of vs | _ \<Rightarrow> [])"

definition strict_write :: "dict \<Rightarrow> bool" where
  "strict_write manifest \<longleftrightarrow> dget manifest ''guard_mode'' = JStr ''strict-write''"

definition binding_check :: "dict \<Rightarrow> dict list \<Rightarrow> unit result" where
  "binding_check manifest entries =
     (if \<not> strict_write manifest then Inr ()
      else if \<not> hashable (dget manifest ''lifecycle_state'') then Inl TypeError
      else if dget manifest ''lifecycle_state'' \<notin> {JStr ''approved'', JStr ''applied'', JStr ''verified''} then Inr ()
      else if dget manifest ''intent_state'' \<noteq> JStr ''bound'' then Inl GuardError
      else if \<exists>e \<in> set entries. aget e ''expected_sha256'' = None then Inl GuardError
      else Inr ())"

definition validate_entries :: "fsview \<Rightarrow> path \<Rightarrow> dict \<Rightarrow> dict list result" where
  "validate_entries F groot manifest =
     (if \<not> py_eq (dget manifest ''schema_version'') (JInt 1) then Inl GuardError
      else case dget manifest ''entries'' of
        JArr vs \<Rightarrow>
          if vs = [] then Inl GuardError
          else bindR (check_entries F groot [] vs) (\<lambda>_.
               bindR (binding_check manifest (entries_of manifest)) (\<lambda>_. Inr (entries_of manifest)))
      | _ \<Rightarrow> Inl GuardError)"

section \<open>Capture\<close>

definition capture_one :: "fsview \<Rightarrow> hash \<Rightarrow> path \<Rightarrow> world \<Rightarrow> string \<Rightarrow> dict result" where
  "capture_one F H groot w p =
     bindR (canonical_target (symlinks F) groot p) (\<lambda>(target, crel).
     if is_secret_path crel \<or> control_plane crel then Inl GuardError
     else if \<not> path_exists (path_str target) w then
       Inr [(''path'', JStr crel), (''expected_state'', JStr ''absent''), (''captured_at'', JStr (stamp w))]
     else if \<not> is_file (path_str target) w then Inl GuardError
     else bindR (read_bytes (path_str target) w) (\<lambda>b.
       Inr [(''path'', JStr crel), (''expected_state'', JStr ''present''), (''sha256'', JStr (H b)),
            (''byte_length'', JInt (int (length b))), (''captured_at'', JStr (stamp w))]))"

definition new_manifest :: "string \<Rightarrow> string \<Rightarrow> dict list \<Rightarrow> dict" where
  "new_manifest mid t entries =
     [(''schema_version'', JInt 1), (''manifest_id'', JStr mid), (''captured_at'', JStr t),
      (''lifecycle_state'', JStr ''proposed''), (''guard_mode'', JStr ''strict-write''),
      (''intent_state'', JStr ''unbound''), (''entries'', JArr (map JObj entries))]"

definition capture :: "fsview \<Rightarrow> hash \<Rightarrow> path \<Rightarrow> string list \<Rightarrow> pypath \<Rightarrow> (world, dict) M" where
  "capture F H groot ps output_manifest =
     bindM (readM (\<lambda>_. check_output_path F groot output_manifest)) (\<lambda>_.
     bindM (readM (\<lambda>w. mapR (capture_one F H groot w) ps)) (\<lambda>entries.
     bindM (\<lambda>w. (Inr (draws w (drawn w)), w\<lparr>drawn := Suc (drawn w)\<rparr>)) (\<lambda>mid.
     bindM (readM (\<lambda>w. Inr (new_manifest mid (stamp w) entries))) (\<lambda>manifest.
     bindM (write_new_json (doc_key F output_manifest) manifest) (\<lambda>_.
     ret manifest)))))"

section \<open>Binding the intent\<close>

fun intents :: "fsview \<Rightarrow> path \<Rightarrow> (string \<times> string) list \<Rightarrow> (string, string) alist result" where
  "intents F groot [] = Inr []"
| "intents F groot ((k, v) # rest) =
     bindR (canonical_target (symlinks F) groot k) (\<lambda>(target, crel).
     bindR (intents F groot rest) (\<lambda>m. Inr (if aget m crel = None then (crel, upper v) # m else m)))"

definition bind_entry :: "(string, string) alist \<Rightarrow> dict \<Rightarrow> dict" where
  "bind_entry m e = (case aget m (py_str (dget e ''path'')) of
      None \<Rightarrow> e | Some h \<Rightarrow> aset ''expected_sha256'' (JStr h) e)"

definition bound_manifest :: "(string, string) alist \<Rightarrow> dict \<Rightarrow> dict" where
  "bound_manifest m manifest =
     aset ''intent_state'' (JStr ''bound'')
       (aset ''entries'' (JArr (map (JObj \<circ> bind_entry m) (entries_of manifest))) manifest)"

definition bind_intent ::
    "fsview \<Rightarrow> path \<Rightarrow> (nat \<Rightarrow> world \<Rightarrow> world) \<Rightarrow> string \<Rightarrow> (string \<times> string) list \<Rightarrow> (world, dict) M" where
  "bind_intent F groot others key expected =
     bindM (readM (read_raw key)) (\<lambda>before_doc.
     bindM (readM (read_manifest key)) (\<lambda>manifest.
     bindM (readM (\<lambda>_. validate_entries F groot
       (aset ''lifecycle_state'' (JStr ''proposed'') (aset ''intent_state'' (JStr ''bound'') manifest)))) (\<lambda>entries.
     if dget manifest ''lifecycle_state'' \<noteq> JStr ''proposed'' then raise GuardError
     else bindM (readM (\<lambda>_. intents F groot expected)) (\<lambda>m.
     if fst ` set m \<noteq> (\<lambda>e. py_str (dget e ''path'')) ` set entries then raise GuardError
     else bindM (rewrite_manifest others key before_doc (bound_manifest m manifest)) (\<lambda>_.
     ret (bound_manifest m manifest))))))"

section \<open>Verification of the preimages\<close>

definition target_of :: "fsview \<Rightarrow> path \<Rightarrow> dict \<Rightarrow> string result" where
  "target_of F groot e =
     bindR (canonical_target (symlinks F) groot (py_str (dget e ''path''))) (\<lambda>(target, crel). Inr (path_str target))"

text \<open>The failure an entry shows, if any, and what was observed.\<close>

definition verify_entry :: "fsview \<Rightarrow> hash \<Rightarrow> path \<Rightarrow> world \<Rightarrow> dict \<Rightarrow> (string option \<times> dict) result" where
  "verify_entry F H groot w e =
     (let p = py_str (dget e ''path'') in
      bindR (target_of F groot e) (\<lambda>t.
      if dget e ''expected_state'' = JStr ''absent'' then
        Inr (if path_exists t w then Some (''preimage changed: expected absent but exists: '' @ p) else None,
             [(''path'', JStr p), (''exists'', JBool (path_exists t w))])
      else if \<not> is_file t w then
        Inr (Some (''preimage changed: expected file missing: '' @ p), [(''path'', JStr p), (''exists'', JBool False)])
      else bindR (read_bytes t w) (\<lambda>b.
        Inr (if JStr (H b) \<noteq> dget e ''sha256'' \<or> \<not> py_eq (JInt (int (length b))) (dget e ''byte_length'')
             then Some (''preimage changed: '' @ p) else None,
             [(''path'', JStr p), (''exists'', JBool True), (''sha256'', JStr (H b)),
              (''byte_length'', JInt (int (length b)))]))))"

definition failures_of :: "(string option \<times> 'a) list \<Rightarrow> string list" where
  "failures_of os = concat (map (\<lambda>p. case fst p of None \<Rightarrow> [] | Some f \<Rightarrow> [f]) os)"

definition verify_manifest :: "fsview \<Rightarrow> hash \<Rightarrow> path \<Rightarrow> string \<Rightarrow> world \<Rightarrow> dict result" where
  "verify_manifest F H groot key w =
     bindR (read_manifest key w) (\<lambda>manifest.
     bindR (validate_entries F groot manifest) (\<lambda>entries.
     bindR (mapR (verify_entry F H groot w) entries) (\<lambda>os.
     let failures = failures_of os in
     Inr [(''status'', JStr (if failures = [] then ''PASS'' else ''FAIL'')),
          (''manifest_id'', dget manifest ''manifest_id''), (''lifecycle_state'', dget manifest ''lifecycle_state''),
          (''failures'', JArr (map JStr failures)), (''observations'', JArr (map (JObj \<circ> snd) os))])))"

section \<open>Transitions\<close>

definition advanced :: "stage \<Rightarrow> string \<Rightarrow> dict \<Rightarrow> dict" where
  "advanced s t manifest =
     aset (stage_name s @ ''_at'') (JStr t) (aset ''lifecycle_state'' (JStr (stage_name s)) manifest)"

definition transition_check :: "dict \<Rightarrow> stage \<Rightarrow> unit result" where
  "transition_check manifest s =
     (if \<not> hashable (dget manifest ''lifecycle_state'') then Inl TypeError
      else case stage_of (dget manifest ''lifecycle_state'') of
        None \<Rightarrow> Inl GuardError
      | Some cur \<Rightarrow>
          if s \<notin> set (VALID_TRANSITIONS cur) then Inl GuardError
          else if s = Applied \<and> strict_write manifest \<and> dget manifest ''intent_state'' \<noteq> JStr ''bound''
          then Inl GuardError else Inr ())"

definition transition ::
    "fsview \<Rightarrow> path \<Rightarrow> (nat \<Rightarrow> world \<Rightarrow> world) \<Rightarrow> string \<Rightarrow> string \<Rightarrow> (world, dict) M" where
  "transition F groot others key target_state = (case stage_of (JStr target_state) of
      None \<Rightarrow> raise GuardError
    | Some s \<Rightarrow>
        bindM (readM (read_raw key)) (\<lambda>before_doc.
        bindM (readM (read_manifest key)) (\<lambda>manifest.
        bindM (readM (\<lambda>_. validate_entries F groot manifest)) (\<lambda>_.
        bindM (readM (\<lambda>_. transition_check manifest s)) (\<lambda>_.
        bindM (readM (\<lambda>w. Inr (advanced s (stamp w) manifest))) (\<lambda>manifest'.
        bindM (rewrite_manifest others key before_doc manifest') (\<lambda>_.
        ret manifest')))))))"

section \<open>The receipt\<close>

text \<open>One entry of the receipt: the failures, whether the file changed, and the observation.\<close>

record inspection =
  failed :: "string list"
  touched :: bool
  observed :: "dict option"

definition observation :: "hash \<Rightarrow> string \<Rightarrow> bytes \<Rightarrow> bool \<Rightarrow> dict" where
  "observation H p b changed =
     [(''path'', JStr p), (''post_state'', JStr ''present''), (''post_sha256'', JStr (H b)),
      (''post_byte_length'', JInt (int (length b))), (''changed'', JBool changed)]"

definition differs :: "hash \<Rightarrow> dict \<Rightarrow> bytes \<Rightarrow> string list" where
  "differs H e b =
     (let expected = dget e ''expected_sha256'' in
      if truthy expected \<and> JStr (H b) \<noteq> expected
      then [''post-write content differs from expected intent: '' @ py_str (dget e ''path'')] else [])"

definition inspect_entry :: "fsview \<Rightarrow> hash \<Rightarrow> path \<Rightarrow> bool \<Rightarrow> world \<Rightarrow> dict \<Rightarrow> inspection result" where
  "inspect_entry F H groot strict w e =
     (let p = py_str (dget e ''path'') in
      bindR (target_of F groot e) (\<lambda>t.
      if dget e ''expected_state'' = JStr ''absent'' then
        (if path_exists t w then
           bindR (read_bytes t w) (\<lambda>b.
             Inr \<lparr>failed = differs H e b, touched = True, observed = Some (observation H p b True)\<rparr>)
         else Inr \<lparr>failed = [''expected new file was not created: '' @ p], touched = False, observed = None\<rparr>)
      else if \<not> is_file t w then
        Inr \<lparr>failed = [''post-write file is missing: '' @ p], touched = False, observed = None\<rparr>
      else bindR (read_bytes t w) (\<lambda>b.
        let changed = (JStr (H b) \<noteq> dget e ''sha256'' \<or> \<not> py_eq (JInt (int (length b))) (dget e ''byte_length'')) in
        Inr \<lparr>failed = differs H e b @
               (if strict \<and> \<not> changed then [''write produced no changed postimage: '' @ p] else []),
             touched = changed, observed = Some (observation H p b changed)\<rparr>)))"

definition receipt_record :: "dict \<Rightarrow> string \<Rightarrow> string list \<Rightarrow> dict list \<Rightarrow> dict" where
  "receipt_record manifest t changed observations =
     [(''schema_version'', JInt 1), (''manifest_id'', dget manifest ''manifest_id''), (''receipt_state'', JStr ''verified''),
      (''verified_at'', JStr t), (''changed_paths'', JArr (map JStr (sort (remdups changed)))),
      (''observations'', JArr (map JObj observations)), (''failures'', JArr []), (''intent_binding'', JStr ''bound'')]"

definition receipt ::
    "fsview \<Rightarrow> hash \<Rightarrow> path \<Rightarrow> (nat \<Rightarrow> world \<Rightarrow> world) \<Rightarrow> string \<Rightarrow> pypath \<Rightarrow> (world, dict) M" where
  "receipt F H groot others key output_receipt =
     bindM (readM (\<lambda>_. check_output_path F groot output_receipt)) (\<lambda>_.
     bindM (readM (\<lambda>w. if present_at (doc_key F output_receipt) w then Inl GuardError else Inr ())) (\<lambda>_.
     bindM (readM (read_raw key)) (\<lambda>before_doc.
     bindM (readM (read_manifest key)) (\<lambda>manifest.
     bindM (readM (\<lambda>_. validate_entries F groot manifest)) (\<lambda>entries.
     if dget manifest ''lifecycle_state'' \<noteq> JStr ''applied'' then raise GuardError
     else bindM (readM (\<lambda>w. mapR (inspect_entry F H groot (strict_write manifest) w) entries)) (\<lambda>is.
     let failures = concat (map failed is);
         changed = map fst (filter (\<lambda>p. touched (snd p)) (zip (map (\<lambda>e. py_str (dget e ''path'')) entries) is));
         observations = concat (map (\<lambda>i. case observed i of None \<Rightarrow> [] | Some d \<Rightarrow> [d]) is) in
     if failures \<noteq> [] then
       ret [(''status'', JStr ''FAIL''), (''manifest_id'', dget manifest ''manifest_id''),
            (''failures'', JArr (map JStr failures)), (''changed_paths'', JArr (map JStr changed))]
     else bindM (readM (\<lambda>w. Inr (stamp w))) (\<lambda>t.
          bindM (write_new_json (doc_key F output_receipt) (receipt_record manifest t changed observations)) (\<lambda>_.
          bindM (rewrite_manifest others key before_doc (advanced Verified t manifest)) (\<lambda>_.
          ret ((''status'', JStr ''PASS'') # receipt_record manifest t changed observations))))))))))"

section \<open>The life of a manifest\<close>

text \<open>The steps a manifest can take.\<close>

inductive manifest_step :: "dict \<Rightarrow> dict \<Rightarrow> bool" where
  bind: "dget m ''lifecycle_state'' = JStr ''proposed'' \<Longrightarrow> manifest_step m (bound_manifest i m)"
| move: "stage_of (dget m ''lifecycle_state'') = Some s \<Longrightarrow> s' \<in> set (VALID_TRANSITIONS s) \<Longrightarrow>
    (strict_write m \<and> s' = Applied \<Longrightarrow> dget m ''intent_state'' = JStr ''bound'') \<Longrightarrow>
    manifest_step m (advanced s' t m)"

definition stage_in :: "dict \<Rightarrow> stage option" where
  "stage_in m = stage_of (dget m ''lifecycle_state'')"

lemma stage_advanced [simp]: "stage_in (advanced s t m) = Some s"
  by (cases s) (simp_all add: stage_in_def advanced_def stage_of_def LIFECYCLE_STATES_def)

lemma advanced_get:
  "dget (advanced s t m) ''entries'' = dget m ''entries''"
  "dget (advanced s t m) ''intent_state'' = dget m ''intent_state''"
  "dget (advanced s t m) ''guard_mode'' = dget m ''guard_mode''"
  by (cases s; simp add: advanced_def)+

lemma bound_get:
  "dget (bound_manifest i m) ''lifecycle_state'' = dget m ''lifecycle_state''"
  "dget (bound_manifest i m) ''intent_state'' = JStr ''bound''"
  "dget (bound_manifest i m) ''guard_mode'' = dget m ''guard_mode''"
  by (simp_all add: bound_manifest_def)

text \<open>What holds along the steps: the stage grows, entries and intent are frozen once the manifest
  has left \<open>proposed\<close>, and a strict manifest is applied only with its intent bound.\<close>

definition onward :: "dict \<Rightarrow> dict \<Rightarrow> bool" where
  "onward m m' \<longleftrightarrow> strict_write m' = strict_write m \<and>
     (\<forall>s. stage_in m = Some s \<longrightarrow> (\<exists>s'. stage_in m' = Some s' \<and> s \<le> s' \<and>
        (Proposed < s \<longrightarrow> dget m' ''entries'' = dget m ''entries'' \<and> dget m' ''intent_state'' = dget m ''intent_state'') \<and>
        (strict_write m \<and> s < Applied \<and> Applied \<le> s' \<longrightarrow> dget m' ''intent_state'' = JStr ''bound'')))"

lemma stage_less [simp]:
  "Proposed < s \<longleftrightarrow> s \<noteq> Proposed" "Applied \<le> s \<longleftrightarrow> s = Applied \<or> s = Verified"
  "s < Applied \<longleftrightarrow> s = Proposed \<or> s = Approved" "Proposed \<le> s" "s \<le> Verified"
  by (cases s; simp add: less_stage_def less_eq_stage_def)+

lemma step_onward: "manifest_step m m' \<Longrightarrow> onward m m'"
proof (induction rule: manifest_step.induct)
  case (bind m i)
  then have "stage_in m = Some Proposed" by (simp add: stage_in_def stage_of_def LIFECYCLE_STATES_def)
  moreover have "stage_in (bound_manifest i m) = stage_in m" by (simp add: stage_in_def bound_get)
  ultimately show ?case by (simp add: onward_def bound_get strict_write_def)
next
  case (move m s s' t)
  then have "stage_in m = Some s" by (simp add: stage_in_def)
  with move(2,3) show ?case
    by (cases s) (auto simp: onward_def advanced_get strict_write_def less_eq_stage_def)
qed

lemma onward_trans: "onward a b \<Longrightarrow> onward b c \<Longrightarrow> onward a c"
proof (unfold onward_def, intro conjI allI impI)
  fix s
  assume ab: "strict_write b = strict_write a \<and> (\<forall>s. stage_in a = Some s \<longrightarrow> (\<exists>s'. stage_in b = Some s' \<and> s \<le> s' \<and>
        (Proposed < s \<longrightarrow> dget b ''entries'' = dget a ''entries'' \<and> dget b ''intent_state'' = dget a ''intent_state'') \<and>
        (strict_write a \<and> s < Applied \<and> Applied \<le> s' \<longrightarrow> dget b ''intent_state'' = JStr ''bound'')))"
    and bc: "strict_write c = strict_write b \<and> (\<forall>s. stage_in b = Some s \<longrightarrow> (\<exists>s'. stage_in c = Some s' \<and> s \<le> s' \<and>
        (Proposed < s \<longrightarrow> dget c ''entries'' = dget b ''entries'' \<and> dget c ''intent_state'' = dget b ''intent_state'') \<and>
        (strict_write b \<and> s < Applied \<and> Applied \<le> s' \<longrightarrow> dget c ''intent_state'' = JStr ''bound'')))"
    and "stage_in a = Some s"
  from ab this(3) obtain s1 where 1: "stage_in b = Some s1" "s \<le> s1"
      "Proposed < s \<longrightarrow> dget b ''entries'' = dget a ''entries'' \<and> dget b ''intent_state'' = dget a ''intent_state''"
      "strict_write a \<and> s < Applied \<and> Applied \<le> s1 \<longrightarrow> dget b ''intent_state'' = JStr ''bound''" by blast
  from bc 1(1) obtain s2 where 2: "stage_in c = Some s2" "s1 \<le> s2"
      "Proposed < s1 \<longrightarrow> dget c ''entries'' = dget b ''entries'' \<and> dget c ''intent_state'' = dget b ''intent_state''"
      "strict_write b \<and> s1 < Applied \<and> Applied \<le> s2 \<longrightarrow> dget c ''intent_state'' = JStr ''bound''" by blast
  from 1(2) 2(2) have le: "s \<le> s2" by (rule order_trans)
  have "Proposed < s1" if "Proposed < s" using that 1(2) by (rule less_le_trans)
  moreover have "Proposed < s1" if "Applied \<le> s1" by (rule less_le_trans [OF _ that]) simp
  moreover have "s1 < Applied \<or> Applied \<le> s1" by (cases s1) simp_all
  ultimately show "\<exists>s'. stage_in c = Some s' \<and> s \<le> s' \<and>
        (Proposed < s \<longrightarrow> dget c ''entries'' = dget a ''entries'' \<and> dget c ''intent_state'' = dget a ''intent_state'') \<and>
        (strict_write a \<and> s < Applied \<and> Applied \<le> s' \<longrightarrow> dget c ''intent_state'' = JStr ''bound'')"
    using le 1 2 ab by metis
qed (simp_all)

lemma steps_onward: "manifest_step\<^sup>*\<^sup>* m m' \<Longrightarrow> onward m m'"
proof (induction rule: rtranclp_induct)
  case base
  show ?case by (auto simp: onward_def)
next
  case (step y z)
  then show ?case by (blast intro: onward_trans step_onward)
qed

definition lives :: "string \<Rightarrow> world \<Rightarrow> world \<Rightarrow> bool" where
  "lives key w w' \<longleftrightarrow> (\<forall>m'. read_manifest key w' = Inr m' \<longrightarrow>
     (\<exists>m. read_manifest key w = Inr m \<and> manifest_step\<^sup>*\<^sup>* m m'))"

interpretation life: evolution "lives key" for key
proof
  show "lives key w w" for w by (auto simp: lives_def)
  show "lives key u w" if "lives key u v" "lives key v w" for u v w
    unfolding lives_def
  proof (intro allI impI)
    fix m'
    assume "read_manifest key w = Inr m'"
    with that(2) obtain m1 where "read_manifest key v = Inr m1" "manifest_step\<^sup>*\<^sup>* m1 m'" unfolding lives_def by blast
    moreover from this(1) that(1) obtain m where "read_manifest key u = Inr m" "manifest_step\<^sup>*\<^sup>* m m1"
      unfolding lives_def by blast
    ultimately show "\<exists>m. read_manifest key u = Inr m \<and> manifest_step\<^sup>*\<^sup>* m m'" by (blast intro: rtranclp_trans)
  qed
qed

lemma lives_same: "aget (journal w') key = aget (journal w) key \<Longrightarrow> lives key w w'"
  by (simp add: lives_def read_manifest_def load_doc_def)

lemma store_doc_journal:
  "aget (journal (snd (store_doc k j w))) n = (if n = k then aget (journal (snd (store_doc k j w))) k else aget (journal w) n)"
  by (auto simp: store_doc_def effect_def split: option.splits nat.splits)

lemma store_elsewhere: "k \<noteq> key \<Longrightarrow> lives key w (snd (store_doc k j w))"
  by (rule lives_same) (subst store_doc_journal, simp)

lemma store_manifest:
  assumes "read_manifest key w = Inr m" and "manifest_step m m'"
  shows "lives key w (snd (store_doc key (JObj m') w))"
proof -
  have "read_manifest key (snd (store_doc key (JObj m') w)) = Inr m'' \<Longrightarrow> m'' = m \<or> m'' = m'" for m''
    using assms(1) by (auto simp: store_doc_def effect_def read_manifest_def load_doc_def split: option.splits nat.splits if_splits)
  with assms show ?thesis unfolding lives_def by blast
qed

lemma raw_manifest: "read_raw key w = Inr (Doc (JObj m)) \<longleftrightarrow> read_manifest key w = Inr m"
  by (auto simp: read_raw_def read_manifest_def load_doc_def split: option.splits rdoc.splits json.splits)

lemma raw_of_manifest:
  "read_raw key w = Inr b \<Longrightarrow> read_manifest key w = Inr m \<Longrightarrow> b = Doc (JObj m)"
  by (simp add: raw_manifest [symmetric])

lemma rewrite_lives:
  assumes quiet: "\<And>k w. lives key w (others k w)" and "manifest_step m m'"
  shows "lives key w (snd (rewrite_manifest others key (Doc (JObj m)) m' w))"
proof -
  have pause: "lives key w (snd (pause others k w))" for k w using quiet by (simp add: pause_def)
  show ?thesis
    unfolding rewrite_manifest_def
    by (intro life.bindM_at life.readM_at)
      (auto simp: pause raw_manifest life.R_refl intro!: life.bindM_at life.readM_at store_manifest assms(2) split: if_splits)
qed

datatype guard_call = Bind "(string \<times> string) list" | Move string | Issue pypath

definition guard_step ::
    "fsview \<Rightarrow> hash \<Rightarrow> path \<Rightarrow> (nat \<Rightarrow> world \<Rightarrow> world) \<Rightarrow> string \<Rightarrow> guard_call \<Rightarrow> (world, dict) M" where
  "guard_step F H groot others key c = (case c of
      Bind expected \<Rightarrow> bind_intent F groot others key expected
    | Move s \<Rightarrow> transition F groot others key s
    | Issue out \<Rightarrow> receipt F H groot others key out)"

lemma read_at_lives: "(\<And>x. f w = Inr x \<Longrightarrow> lives key w (snd (g x w))) \<Longrightarrow> lives key w (snd (bindM (readM f) g w))"
  by (rule life.readM_at)

lemma bind_lives:
  assumes quiet: "\<And>k w. lives key w (others k w)"
  shows "lives key w (snd (bind_intent F groot others key expected w))"
  unfolding bind_intent_def
  by (intro read_at_lives)
    (auto simp: life.R_refl dest!: raw_of_manifest
      intro!: read_at_lives life.bindM_at rewrite_lives quiet manifest_step.bind split: if_splits)

lemma transition_moves:
  assumes "transition_check m s = Inr ()" shows "manifest_step m (advanced s t m)"
proof -
  from assms obtain c where "stage_of (dget m ''lifecycle_state'') = Some c" "s \<in> set (VALID_TRANSITIONS c)"
    "strict_write m \<and> s = Applied \<Longrightarrow> dget m ''intent_state'' = JStr ''bound''"
    by (auto simp: transition_check_def split: if_splits option.splits)
  then show ?thesis by (rule manifest_step.move)
qed

lemma transition_lives:
  assumes quiet: "\<And>k w. lives key w (others k w)"
  shows "lives key w (snd (transition F groot others key s w))"
  unfolding transition_def
  by (auto simp: life.R_refl dest!: raw_of_manifest
      intro!: read_at_lives life.bindM_at rewrite_lives quiet transition_moves split: option.splits)

lemma receipt_lives:
  assumes quiet: "\<And>k w. lives key w (others k w)"
  shows "lives key w (snd (receipt F H groot others key out w))"
  unfolding receipt_def
proof (intro read_at_lives, goal_cases)
  case (1 _ _ before_doc m entries)
  from 1(2) have fresh: "aget (journal w) (doc_key F out) = None" by (auto simp: present_at_def split: if_splits)
  have b: "before_doc = Doc (JObj m)" using 1(3,4) by (rule raw_of_manifest)
  have "aget (journal w) key \<noteq> None" using 1(3) by (auto simp: read_raw_def split: option.splits)
  with fresh have ne: "doc_key F out \<noteq> key" by auto
  have new: "lives key u (snd (write_new_json (doc_key F out) d u))" for u d
    unfolding write_new_json_def by (rule read_at_lives) (rule store_elsewhere [OF ne])
  have rw: "lives key u (snd (rewrite_manifest others key before_doc (advanced Verified t m) u))"
    if "dget m ''lifecycle_state'' = JStr ''applied''" for t u
    unfolding b using that
    by (intro rewrite_lives quiet manifest_step.move [where s = Applied])
      (auto simp: stage_of_def LIFECYCLE_STATES_def)
  show ?case
    by (auto simp: life.R_refl Let_def intro!: read_at_lives life.bindM_at new rw)
qed

lemma guard_step_lives:
  assumes "\<And>k w. lives key w (others k w)"
  shows "evolves (lives key) (guard_step F H groot others key c)"
  unfolding evolves_def guard_step_def
  using bind_lives transition_lives receipt_lives assms by (auto split: guard_call.splits)

text \<open>C18. The life of a manifest, under any sequence of bindings, transitions and receipts, each
  successful, refused or cut off by a loss of power: whatever can be read of the manifest afterwards is at
  the same stage or a later one; once it has left \<open>proposed\<close>, its entries, preimages and bound hashes,
  are never changed again; and a strict manifest gets to \<open>applied\<close> only with its intent bound.\<close>

theorem lifecycle_only_advances:
  assumes "\<And>k w. aget (journal (others k w)) key = aget (journal w) key"
    and "read_manifest key (snd (run_all (guard_step F H groot others key) w cs)) = Inr m'"
  shows "\<exists>m. read_manifest key w = Inr m \<and> strict_write m' = strict_write m \<and>
    (\<forall>s. stage_in m = Some s \<longrightarrow> (\<exists>s'. stage_in m' = Some s' \<and> s \<le> s' \<and>
       (Proposed < s \<longrightarrow> dget m' ''entries'' = dget m ''entries'' \<and> dget m' ''intent_state'' = dget m ''intent_state'') \<and>
       (strict_write m \<and> s < Applied \<and> Applied \<le> s' \<longrightarrow> dget m' ''intent_state'' = JStr ''bound'')))"
proof -
  have "lives key w (snd (run_all (guard_step F H groot others key) w cs))"
    by (rule run_all_evolves [OF life.evolution_axioms guard_step_lives]) (rule lives_same [OF assms(1)])
  with assms(2) obtain m where "read_manifest key w = Inr m" "manifest_step\<^sup>*\<^sup>* m m'" unfolding lives_def by blast
  with steps_onward [of m m'] show ?thesis unfolding onward_def by blast
qed

section \<open>What a receipt proves\<close>

lemma mapR_member: "mapR f xs = Inr ys \<Longrightarrow> x \<in> set xs \<Longrightarrow> \<exists>y \<in> set ys. f x = Inr y"
  by (induction xs arbitrary: ys) (auto simp: bindR_Inr_iff)

lemma inspect_entry_clean:
  assumes "inspect_entry F H groot strict w e = Inr i" and "failed i = []"
  shows "\<exists>t b. target_of F groot e = Inr t \<and> read_bytes t w = Inr b \<and>
    (truthy (dget e ''expected_sha256'') \<longrightarrow> dget e ''expected_sha256'' = JStr (H b)) \<and>
    (strict \<and> dget e ''expected_state'' \<noteq> JStr ''absent'' \<longrightarrow>
       dget e ''sha256'' \<noteq> JStr (H b) \<or> \<not> py_eq (JInt (int (length b))) (dget e ''byte_length''))"
proof -
  from assms(1) obtain t where t: "target_of F groot e = Inr t"
    and i: "(if dget e ''expected_state'' = JStr ''absent'' then
        (if path_exists t w then
           bindR (read_bytes t w) (\<lambda>b.
             Inr \<lparr>failed = differs H e b, touched = True, observed = Some (observation H (py_str (dget e ''path'')) b True)\<rparr>)
         else Inr \<lparr>failed = [''expected new file was not created: '' @ py_str (dget e ''path'')], touched = False, observed = None\<rparr>)
      else if \<not> is_file t w then
        Inr \<lparr>failed = [''post-write file is missing: '' @ py_str (dget e ''path'')], touched = False, observed = None\<rparr>
      else bindR (read_bytes t w) (\<lambda>b.
        let changed = (JStr (H b) \<noteq> dget e ''sha256'' \<or> \<not> py_eq (JInt (int (length b))) (dget e ''byte_length'')) in
        Inr \<lparr>failed = differs H e b @
               (if strict \<and> \<not> changed then [''write produced no changed postimage: '' @ py_str (dget e ''path'')] else []),
             touched = changed, observed = Some (observation H (py_str (dget e ''path'')) b changed)\<rparr>)) = Inr i"
    unfolding inspect_entry_def Let_def by (auto simp: bindR_Inr_iff)
  have agree: "truthy (dget e ''expected_sha256'') \<longrightarrow> dget e ''expected_sha256'' = JStr (H b)" if "differs H e b = []" for b
    using that by (auto simp: differs_def Let_def split: if_splits)
  show ?thesis
  proof (cases "dget e ''expected_state'' = JStr ''absent''")
    case True
    with i assms(2) obtain b where "read_bytes t w = Inr b" "differs H e b = []"
      by (auto simp: bindR_Inr_iff split: if_splits)
    with t agree True show ?thesis by blast
  next
    case False
    with i assms(2) have "is_file t w" by (auto split: if_splits)
    with i False obtain b where b: "read_bytes t w = Inr b" and
      "failed i = differs H e b @ (if strict \<and> \<not> (JStr (H b) \<noteq> dget e ''sha256'' \<or>
          \<not> py_eq (JInt (int (length b))) (dget e ''byte_length''))
        then [''write produced no changed postimage: '' @ py_str (dget e ''path'')] else [])"
      by (auto simp: bindR_Inr_iff Let_def)
    with assms(2) have "differs H e b = []"
      "strict \<Longrightarrow> JStr (H b) \<noteq> dget e ''sha256'' \<or> \<not> py_eq (JInt (int (length b))) (dget e ''byte_length'')"
      by (auto split: if_splits)
    with t b agree show ?thesis by metis
  qed
qed

lemma validate_bound:
  assumes "validate_entries F groot m = Inr es" and "strict_write m" and "dget m ''lifecycle_state'' = JStr ''applied''"
  shows "dget m ''intent_state'' = JStr ''bound'' \<and> (\<forall>e \<in> set es. aget e ''expected_sha256'' \<noteq> None)"
  using assms by (auto simp: validate_entries_def binding_check_def bindR_Inr_iff split: json.splits if_splits)

lemma validate_entries_of: "validate_entries F groot m = Inr es \<Longrightarrow> es = entries_of m"
  by (auto simp: validate_entries_def bindR_Inr_iff split: json.splits if_splits)


text \<open>A strict manifest that is approved before its intent is bound is a dead end: no call on it
  succeeds any more.\<close>

lemma approved_unbound_is_stuck:
  assumes "read_manifest key w = Inr m" and "strict_write m" and "stage_in m = Some Approved"
    and "dget m ''intent_state'' \<noteq> JStr ''bound''"
  shows "\<exists>e. fst (guard_step F H groot others key c w) = Inl e"
proof -
  have l: "dget m ''lifecycle_state'' = JStr ''approved''"
    using assms(3) stage_of_Some [of _ Approved] by (simp add: stage_in_def)
  have v: "\<exists>e. validate_entries F groot m = Inl e"
  proof (cases "validate_entries F groot m")
    case (Inr es)
    with l assms(2,4) show ?thesis
      by (auto simp: validate_entries_def binding_check_def bindR_Inr_iff split: json.splits if_splits)
  qed simp
  then obtain e where e: "validate_entries F groot m = Inl e" by blast
  show ?thesis
  proof (cases c)
    case (Bind i)
    then show ?thesis
      by (auto simp: guard_step_def bind_intent_def bindM_readM assms(1) l split: sum.splits)
  next
    case (Move s)
    then show ?thesis
      by (auto simp: guard_step_def transition_def bindM_readM assms(1) e split: sum.splits option.splits)
  next
    case (Issue out)
    then show ?thesis
      by (auto simp: guard_step_def receipt_def bindM_readM assms(1) e split: sum.splits)
  qed
qed

section \<open>Capture and verification\<close>

text \<open>A captured entry verifies exactly as long as its file is as it was captured.\<close>

definition unchanged :: "hash \<Rightarrow> string \<Rightarrow> world \<Rightarrow> world \<Rightarrow> bool" where
  "unchanged H t w u \<longleftrightarrow> (case aget (disk w) t of
      None \<Rightarrow> \<not> path_exists t u
    | Some _ \<Rightarrow> (\<forall>b. read_bytes t w = Inr b \<longrightarrow>
        (\<exists>b'. read_bytes t u = Inr b' \<and> H b' = H b \<and> length b' = length b)))"

lemma capture_one_verifies:
  assumes "capture_one F H groot w p = Inr e" and "canonical_target (symlinks F) groot (py_str (dget e ''path'')) = Inr (t, c)"
    and "canonical_target (symlinks F) groot p = Inr (t, c)" and "verify_entry F H groot u e = Inr (f, obs)"
  shows "f = None \<longleftrightarrow> unchanged H (path_str t) w u"
proof (cases "path_exists (path_str t) w")
  case False
  with assms have "dget e ''expected_state'' = JStr ''absent''"
    by (auto simp: capture_one_def bindR_Inr_iff split: if_splits)
  with False assms(2,4) show ?thesis
    by (auto simp: verify_entry_def target_of_def Let_def unchanged_def path_exists_def split: if_splits option.splits)
next
  case True
  with assms obtain b where b: "read_bytes (path_str t) w = Inr b" and e: "dget e ''expected_state'' = JStr ''present''"
      "dget e ''sha256'' = JStr (H b)" "dget e ''byte_length'' = JInt (int (length b))"
    by (auto simp: capture_one_def bindR_Inr_iff split: if_splits)
  have "unchanged H (path_str t) w u \<longleftrightarrow>
      (\<exists>b'. read_bytes (path_str t) u = Inr b' \<and> H b' = H b \<and> length b' = length b)"
    using b True by (auto simp: unchanged_def path_exists_def split: option.splits)
  moreover have "is_file (path_str t) u \<or> (\<forall>b'. read_bytes (path_str t) u \<noteq> Inr b')"
    by (auto simp: is_file_def read_bytes_def split: option.splits node.splits)
  ultimately show ?thesis using assms(2,4) e
    by (auto simp: verify_entry_def target_of_def Let_def bindR_Inr_iff split: if_splits)
qed

text \<open>A path whose canonical form names the same file again (a leading or trailing blank does not).\<close>

definition stable :: "fsview \<Rightarrow> path \<Rightarrow> string \<Rightarrow> bool" where
  "stable F groot p \<longleftrightarrow> (\<forall>t c. canonical_target (symlinks F) groot p = Inr (t, c) \<longrightarrow>
     canonical_target (symlinks F) groot c = Inr (t, c))"

lemma capture_one_path:
  "capture_one F H groot w p = Inr e \<Longrightarrow> \<exists>t c. canonical_target (symlinks F) groot p = Inr (t, c) \<and> py_str (dget e ''path'') = c"
  by (auto simp: capture_one_def bindR_Inr_iff split: if_splits)

lemma captured_entries:
  "mapR (capture_one F H groot w) ps = Inr es \<Longrightarrow> mapR (verify_entry F H groot u) es = Inr os \<Longrightarrow>
   \<forall>p \<in> set ps. stable F groot p \<Longrightarrow>
   failures_of os = [] \<longleftrightarrow>
     (\<forall>p \<in> set ps. \<forall>t c. canonical_target (symlinks F) groot p = Inr (t, c) \<longrightarrow> unchanged H (path_str t) w u)"
proof (induction ps arbitrary: es os)
  case Nil
  then show ?case by (simp add: failures_of_def)
next
  case (Cons p ps)
  from Cons.prems(1) obtain e es' where e: "capture_one F H groot w p = Inr e"
    and es: "mapR (capture_one F H groot w) ps = Inr es'" "es = e # es'" by (auto simp: bindR_Inr_iff)
  from Cons.prems(2) es obtain f obs os' where f: "verify_entry F H groot u e = Inr (f, obs)"
    and os: "mapR (verify_entry F H groot u) es' = Inr os'" "os = (f, obs) # os'" by (auto simp: bindR_Inr_iff)
  from capture_one_path [OF e] obtain t c where t: "canonical_target (symlinks F) groot p = Inr (t, c)"
    "py_str (dget e ''path'') = c" by blast
  with Cons.prems(3) have "canonical_target (symlinks F) groot (py_str (dget e ''path'')) = Inr (t, c)"
    by (auto simp: stable_def)
  from capture_one_verifies [OF e this t(1) f] have "f = None \<longleftrightarrow> unchanged H (path_str t) w u" .
  moreover from Cons.IH [OF es(1) os(1)] Cons.prems(3)
  have "failures_of os' = [] \<longleftrightarrow>
     (\<forall>p \<in> set ps. \<forall>t c. canonical_target (symlinks F) groot p = Inr (t, c) \<longrightarrow> unchanged H (path_str t) w u)" by simp
  moreover have "failures_of os = [] \<longleftrightarrow> f = None \<and> failures_of os' = []"
    using os(2) by (auto simp: failures_of_def split: option.splits)
  ultimately show ?case using t(1) by auto
qed

lemma store_doc_Inr:
  "store_doc key j w = (Inr x, w') \<Longrightarrow> disk w' = disk w \<and> (\<exists>t. aget (journal w') key = Some \<lparr>jdoc = Doc j, jmtime = t\<rparr>)"
  by (auto simp: store_doc_def split: if_splits dest!: effect_Inr)

lemma entries_of_new [simp]: "entries_of (new_manifest mid t es) = es"
  by (simp add: entries_of_def new_manifest_def obj_of_def o_def)


section \<open>Examples\<close>

definition guard_fs :: fsview where
  "guard_fs = \<lparr>symlinks = (\<lambda>_. None), cwd = [], dirs = (\<lambda>_. False), regular = (\<lambda>_. False)\<rparr>"

definition guard_world :: world where
  "guard_world = \<lparr>disk = [(''/p/a'', Reg ''x'')], journal = [], denied = [], now = 0, now_ns = 0, stamp = ''t'',
     draws = (\<lambda>_. ''m''), drawn = 0, budget = None\<rparr>"

definition guard_hash :: hash where
  "guard_hash b = replicate (64 - length b) CHR ''0'' @ upper b"

definition guard_captured :: world where
  "guard_captured = snd (capture guard_fs guard_hash [''p''] [''a''] (mk_path ''/m/j.json'') guard_world)"

definition guard_edit :: "world \<Rightarrow> world" where
  "guard_edit w = w\<lparr>disk := aset ''/p/a'' (Reg ''y'') (disk w)\<rparr>"

definition guard_calls :: "guard_call list" where
  "guard_calls = [Bind [(''a'', guard_hash ''y'')], Move ''approved'', Move ''applied'']"


theorem lifecycle_only_advances_witness:
  "\<exists>m'. read_manifest (doc_key guard_fs (mk_path ''/m/j.json''))
     (snd (run_all (guard_step guard_fs guard_hash [''p''] (\<lambda>_ w. w) (doc_key guard_fs (mk_path ''/m/j.json''))) guard_captured guard_calls)) = Inr m' \<and>
     stage_in m' = Some Applied \<and> dget m' ''intent_state'' = JStr ''bound''"
proof -
  let ?key = "doc_key guard_fs (mk_path ''/m/j.json'')"
  let ?w' = "snd (run_all (guard_step guard_fs guard_hash [''p''] (\<lambda>_ w. w) ?key) guard_captured guard_calls)"
  have "(case read_manifest ?key ?w' of Inl e \<Rightarrow> False | Inr m' \<Rightarrow> stage_in m' = Some Applied)"
    "(case read_manifest ?key guard_captured of Inl e \<Rightarrow> False | Inr m \<Rightarrow> stage_in m = Some Proposed \<and> strict_write m)"
    by code_simp+
  then obtain m m' where m: "read_manifest ?key guard_captured = Inr m" "stage_in m = Some Proposed" "strict_write m"
    and m': "read_manifest ?key ?w' = Inr m'" "stage_in m' = Some Applied" by (auto split: sum.splits)
  from lifecycle_only_advances [of "\<lambda>_ w. w" ?key, OF refl m'(1)] m m' show ?thesis by auto
qed


text \<open>The canonical form of a path with a blank in front of its last part names another file.\<close>

lemma canonical_form_unstable:
  "canonical_target (\<lambda>_. None) [''p''] ''./ a'' = Inr ([''p'', '' a''], '' a'') \<and>
   canonical_target (\<lambda>_. None) [''p''] '' a'' = Inr ([''p'', ''a''], ''a'')"
  by code_simp

end
