(* ===== verification/Runner.thy ===== *)
theory Runner
  imports Authority Process
begin

text \<open>
  \<open>src/jvc/execution/runner.py\<close>: the environment of child processes and the declared checks,
  pinned by hash. The POSIX branch; \<open>tmp\<close> is the directory for temporary files.
\<close>

section \<open>The environment\<close>

definition path_dir :: "fsview \<Rightarrow> path \<Rightarrow> world \<Rightarrow> bool" where
  "path_dir F p w = (case resolve (symlinks F) p of None \<Rightarrow> False | Some q \<Rightarrow> is_dir (path_str q) w)"

definition SENSITIVE :: "string list" where
  "SENSITIVE = [''API_KEY'', ''TOKEN'', ''SECRET'', ''PASSWD'', ''PASSWORD'']"

definition sensitive_name :: "string \<Rightarrow> bool" where
  "sensitive_name k \<longleftrightarrow> startswith (upper k) ''GIT_'' \<or> (\<exists>term \<in> set SENSITIVE. contains term (upper k))"

definition build_safe_subprocess_env ::
    "fsview \<Rightarrow> platform \<Rightarrow> path \<Rightarrow> path list \<Rightarrow> bool \<Rightarrow> world \<Rightarrow> (string, string) alist result" where
  "build_safe_subprocess_env F P tmp extra_paths sanitize_ambient w =
     bindR (mapR (resolved_path (symlinks F)) extra_paths) (\<lambda>extra.
     bindR (resolved_path (symlinks F) tmp) (\<lambda>temp.
     let ds = [[''usr'', ''bin''], [''bin''], [''usr'', ''local'', ''bin'']] @ extra;
         env = [(''PATH'', join '':'' (map path_str (filter (\<lambda>p. path_dir F p w) ds))),
                (''TEMP'', path_str temp), (''TMP'', path_str temp),
                (''HOME'', (case aget (ambient P) ''HOME'' of None \<Rightarrow> ''/tmp'' | Some v \<Rightarrow> v))]
     in Inr (if sanitize_ambient then filter (\<lambda>p. \<not> sensitive_name (fst p)) env else env)))"

section \<open>Declared checks\<close>

definition locate :: "fsview \<Rightarrow> string \<Rightarrow> string result" where
  "locate F s = bindR (resolved_path (symlinks F) (abs_parts F (mk_path s))) (\<lambda>p. Inr (path_str p))"

definition parent_of :: "string \<Rightarrow> path" where
  "parent_of s = butlast (parts (mk_path s))"

text \<open>\<open>hmac.compare_digest(a, b)\<close> on texts.\<close>

definition same_digest :: "string \<Rightarrow> string \<Rightarrow> bool result" where
  "same_digest a b = (if \<exists>c \<in> set (a @ b). 128 \<le> code c then Inl TypeError else Inr (a = b))"

definition items_of :: "json \<Rightarrow> dict result" where
  "items_of v = (case v of JObj d \<Rightarrow> Inr d | _ \<Rightarrow> Inl AttributeError)"

text \<open>An executable that must be the trusted one, at the stated place and with the stated hash.\<close>

definition pinned_exe ::
    "fsview \<Rightarrow> hash \<Rightarrow> dict \<Rightarrow> string \<Rightarrow> json result \<Rightarrow> json result \<Rightarrow> world \<Rightarrow> string result" where
  "pinned_exe F H trusted name place digest w =
     bindR (resolve_trusted_executable H (locate F) name trusted w) (\<lambda>exe.
     bindR (bindR place (text_of TypeError)) (\<lambda>s.
     bindR (locate F s) (\<lambda>stated.
     if casefold exe \<noteq> casefold stated then Inl IntegrityDriftError
     else bindR (sha256_file H exe w) (\<lambda>observed.
          bindR digest (\<lambda>d.
          bindR (same_digest observed (upper (py_str d))) (\<lambda>ok.
          if \<not> ok then Inl IntegrityDriftError else Inr exe))))))"

definition child_exe :: "fsview \<Rightarrow> hash \<Rightarrow> dict \<Rightarrow> world \<Rightarrow> string \<times> json \<Rightarrow> string result" where
  "child_exe F H trusted w c =
     pinned_exe F H trusted (fst c)
       (bindR (as_obj (snd c)) (\<lambda>d. item_get d ''path''))
       (bindR (as_obj (snd c)) (\<lambda>d. item_get d ''sha256'')) w"

definition executed_file :: "fsview \<Rightarrow> hash \<Rightarrow> path \<Rightarrow> world \<Rightarrow> string \<times> json \<Rightarrow> string result" where
  "executed_file F H r w c =
     bindR (resolved_path (symlinks F) (abs_parts (F\<lparr>cwd := r\<rparr>) (mk_path (fst c)))) (\<lambda>p.
     if \<not> is_file (path_str p) w then Inl IntegrityDriftError
     else bindR (sha256_file H (path_str p) w) (\<lambda>observed.
          bindR (same_digest observed (upper (py_str (snd c)))) (\<lambda>ok.
          if \<not> ok then Inl IntegrityDriftError else Inr (path_str p))))"

text \<open>Everything that is verified before the check is started: the executable and the directories
  of the search path.\<close>

definition check_id_of :: "string \<Rightarrow> string" where
  "check_id_of check_id = strip_ws (lower check_id)"

definition verify_spec ::
    "fsview \<Rightarrow> hash \<Rightarrow> string \<Rightarrow> string \<Rightarrow> dict \<Rightarrow> path \<Rightarrow> dict \<Rightarrow> world \<Rightarrow> (string \<times> path list \<times> json list) result" where
  "verify_spec F H pid check_id spec r trusted w =
     (let cid = check_id_of check_id in
      if cid \<noteq> ''preflight'' \<and> cid \<noteq> ''verify'' then Inl ValueError
      else if dget spec ''project_id'' \<noteq> JStr pid \<or> dget spec ''check_id'' \<noteq> JStr cid
      then Inl IntegrityDriftError
      else bindR (text_of TypeError (get_default spec ''cwd'' (JStr ''''))) (\<lambda>c.
      bindR (locate F c) (\<lambda>spec_cwd.
      bindR (resolved_path (symlinks F) r) (\<lambda>rr.
      if path_str rr \<noteq> spec_cwd then Inl IntegrityDriftError
      else bindR (pinned_exe F H trusted (lower (py_str (get_default spec ''executable'' (JStr ''''))))
             (Inr (get_default spec ''executable_path'' (JStr ''''))) (Inr (get_default spec ''executable_sha256'' (JStr ''''))) w) (\<lambda>exe.
      bindR (bindR (items_of (get_default spec ''child_executables'' (JObj []))) (mapR (child_exe F H trusted w))) (\<lambda>children.
      bindR (bindR (items_of (get_default spec ''executed_files'' (JObj []))) (mapR (executed_file F H r w))) (\<lambda>_.
      bindR (iterate (get_default spec ''argv'' (JArr []))) (\<lambda>as.
      if as = [] then Inl IntegrityDriftError
      else Inr (exe, map parent_of (exe # children), as)))))))))"

definition failed_check :: "string \<Rightarrow> string \<Rightarrow> json list \<Rightarrow> string \<Rightarrow> dict" where
  "failed_check pid cid as err =
     [(''status'', JStr ''FAIL''), (''op_class'', JStr ''DECLARED_CHECK''), (''project_id'', JStr pid),
      (''check_id'', JStr cid), (''argv'', JArr as), (''error'', JStr err), (''passed'', JBool False)]"

definition check_verdict ::
    "string \<Rightarrow> string \<Rightarrow> json list \<Rightarrow> dict \<Rightarrow> int \<Rightarrow> string \<Rightarrow> dict result" where
  "check_verdict pid cid as spec rc out =
     bindR (py_int (get_default spec ''expected_exit'' (JInt 0))) (\<lambda>expected.
     let marker = dget spec ''expected_contains'';
         passed = (rc = expected \<and> (marker = JNull \<or> contains (py_str marker) out)) in
     Inr [(''status'', JStr (if passed then ''PASS'' else ''FAIL'')), (''op_class'', JStr ''DECLARED_CHECK''),
          (''project_id'', JStr pid), (''check_id'', JStr cid), (''argv'', JArr as),
          (''exit_code'', JInt rc), (''expected_exit'', JInt expected), (''expected_contains'', marker),
          (''output'', JStr (last_chars 12000 out)), (''passed'', JBool passed)])"

text \<open>The command, once everything is verified; an argument that is no text is refused by the start.\<close>

definition check_command ::
    "fsview \<Rightarrow> platform \<Rightarrow> hash \<Rightarrow> path \<Rightarrow> string \<Rightarrow> string \<Rightarrow> dict \<Rightarrow> path \<Rightarrow> dict \<Rightarrow> int option \<Rightarrow> world \<Rightarrow>
     (command \<times> json list) result" where
  "check_command F P H tmp pid check_id spec r trusted limit w =
     bindR (verify_spec F H pid check_id spec r trusted w) (\<lambda>(exe, extra, as).
     bindR (if limit \<noteq> None \<and> limit \<noteq> Some 0 then Inr (the limit)
            else py_int (get_default spec ''timeout_seconds'' (JInt 60))) (\<lambda>t.
     bindR (build_safe_subprocess_env F P tmp extra True w) (\<lambda>env.
     bindR (mapR (text_of TypeError) (tl as)) (\<lambda>args.
     Inr (\<lparr>argv = exe # args, directory = Some (path_str r), time_limit = Some t, environment = Some env\<rparr>, as)))))"

definition check_report :: "string \<Rightarrow> string \<Rightarrow> json list \<Rightarrow> dict \<Rightarrow> int \<Rightarrow> run_outcome \<Rightarrow> dict result" where
  "check_report pid cid as spec t out = (case out of
      TimedOut m so se \<Rightarrow> Inr (failed_check pid cid as (''timeout after '' @ int_digits t @ ''s: '' @ m))
    | CannotStart m \<Rightarrow> Inr (failed_check pid cid as (''execution failed: '' @ m))
    | Exited rc so se \<Rightarrow> bindR (texts so se) (\<lambda>(u, v). check_verdict pid cid as spec rc (u @ v)))"

definition run_declared_check ::
    "fsview \<Rightarrow> platform \<Rightarrow> hash \<Rightarrow> path \<Rightarrow> string \<Rightarrow> string \<Rightarrow> dict \<Rightarrow> path \<Rightarrow> dict \<Rightarrow> int option \<Rightarrow> (procs, dict) M" where
  "run_declared_check F P H tmp pid check_id spec r trusted limit =
     bindM (readM (\<lambda>s. check_command F P H tmp pid check_id spec r trusted limit (surroundings s))) (\<lambda>(c, as).
     bindM (start P c) (\<lambda>out.
     readM (\<lambda>_. check_report pid (check_id_of check_id) as spec (the (time_limit c)) out)))"

section \<open>What was verified before the start\<close>

lemma same_digest_True: "same_digest a b = Inr True \<longleftrightarrow> a = b \<and> (\<forall>c \<in> set a. code c < 128)"
  by (auto simp: same_digest_def simp flip: not_le)

lemma pinned_exe_Inr:
  assumes "pinned_exe F H trusted name place digest w = Inr exe"
  shows "resolve_trusted_executable H (locate F) name trusted w = Inr exe \<and>
    (\<exists>b d. read_bytes exe w = Inr b \<and> digest = Inr d \<and> H b = upper (py_str d))"
  using assms
  by (auto simp: pinned_exe_def bindR_Inr_iff sha256_file_def same_digest_True split: if_splits)

lemma executed_file_Inr:
  assumes "executed_file F H r w (rel, h) = Inr p"
  shows "\<exists>b. read_bytes p w = Inr b \<and> H b = upper (py_str h)"
  using assms
  by (auto simp: executed_file_def bindR_Inr_iff sha256_file_def same_digest_True split: if_splits)

lemma mapR_all: "mapR f xs = Inr ys \<Longrightarrow> x \<in> set xs \<Longrightarrow> \<exists>y \<in> set ys. f x = Inr y"
  by (induction xs arbitrary: ys) (auto simp: bindR_Inr_iff)

lemma env_names:
  assumes "build_safe_subprocess_env F P tmp extra san w = Inr env"
  shows "set (map fst env) \<subseteq> {''PATH'', ''TEMP'', ''TMP'', ''HOME''}"
proof -
  have fewer: "set (map fst (if b then filter q xs else xs)) \<subseteq> set (map fst xs)" for b q and xs :: "(string, string) alist"
    by auto
  have four: "set (map fst [(a, p), (b, q), (c, r), (d, t)]) = {a, b, c, d}" for a b c d and p q r t :: string
    by simp
  from assms have "\<exists>p t h. env = (let e = [(''PATH'', p), (''TEMP'', t), (''TMP'', t), (''HOME'', h)] in
      if san then filter (\<lambda>p. \<not> sensitive_name (fst p)) e else e)"
    unfolding build_safe_subprocess_env_def bindR_Inr_iff Let_def sum.inject by (elim exE conjE) (intro exI, erule sym)
  then show ?thesis unfolding Let_def by (elim exE) (simp only: order.trans [OF fewer equalityD1 [OF four]])
qed

definition pins_hold :: "fsview \<Rightarrow> hash \<Rightarrow> dict \<Rightarrow> path \<Rightarrow> dict \<Rightarrow> world \<Rightarrow> string \<Rightarrow> bool" where
  "pins_hold F H spec r trusted w exe \<longleftrightarrow>
     resolve_trusted_executable H (locate F) (lower (py_str (get_default spec ''executable'' (JStr '''')))) trusted w = Inr exe \<and>
     (\<exists>b. read_bytes exe w = Inr b \<and> H b = upper (py_str (get_default spec ''executable_sha256'' (JStr '''')))) \<and>
     (\<exists>children files.
        items_of (get_default spec ''child_executables'' (JObj [])) = Inr children \<and>
        items_of (get_default spec ''executed_files'' (JObj [])) = Inr files \<and>
        (\<forall>c \<in> set children. \<exists>d x b. snd c = JObj d \<and> read_bytes x w = Inr b \<and> H b = upper (py_str (dget d ''sha256''))) \<and>
        (\<forall>f \<in> set files. \<exists>p b. executed_file F H r w f = Inr p \<and> read_bytes p w = Inr b \<and> H b = upper (py_str (snd f))))"

lemma child_exe_Inr:
  "child_exe F H trusted w c = Inr x \<Longrightarrow>
     \<exists>d b. snd c = JObj d \<and> read_bytes x w = Inr b \<and> H b = upper (py_str (dget d ''sha256''))"
  by (auto simp: child_exe_def bindR_Inr_iff as_obj_def item_get_def dget_def split: json.splits option.splits
      dest!: pinned_exe_Inr)

lemma verify_spec_Inr:
  assumes "verify_spec F H pid check_id spec r trusted w = Inr (exe, extra, as)"
  shows "pins_hold F H spec r trusted w exe \<and> dget spec ''project_id'' = JStr pid \<and>
    dget spec ''check_id'' = JStr (check_id_of check_id) \<and> check_id_of check_id \<in> {''preflight'', ''verify''} \<and>
    (\<exists>c p. get_default spec ''cwd'' (JStr '''') = JStr c \<and> resolved_path (symlinks F) r = Inr p \<and> locate F c = Inr (path_str p)) \<and>
    iterate (get_default spec ''argv'' (JArr [])) = Inr as \<and> as \<noteq> []"
proof -
  from assms obtain c p children xs files ps where
    cwd: "text_of TypeError (get_default spec ''cwd'' (JStr '''')) = Inr c" "locate F c = Inr (path_str p)"
      "resolved_path (symlinks F) r = Inr p"
    and exe: "pinned_exe F H trusted (lower (py_str (get_default spec ''executable'' (JStr ''''))))
       (Inr (get_default spec ''executable_path'' (JStr ''''))) (Inr (get_default spec ''executable_sha256'' (JStr ''''))) w = Inr exe"
    and ch: "items_of (get_default spec ''child_executables'' (JObj [])) = Inr children" "mapR (child_exe F H trusted w) children = Inr xs"
    and fi: "items_of (get_default spec ''executed_files'' (JObj [])) = Inr files" "mapR (executed_file F H r w) files = Inr ps"
    and rest: "iterate (get_default spec ''argv'' (JArr [])) = Inr as" "as \<noteq> []"
      "dget spec ''project_id'' = JStr pid" "dget spec ''check_id'' = JStr (check_id_of check_id)"
      "check_id_of check_id \<in> {''preflight'', ''verify''}"
    unfolding verify_spec_def Let_def by (auto simp: bindR_Inr_iff split: if_splits)
  have "\<exists>d x b. snd k = JObj d \<and> read_bytes x w = Inr b \<and> H b = upper (py_str (dget d ''sha256''))" if "k \<in> set children" for k
    using mapR_all [OF ch(2) that] child_exe_Inr by blast
  moreover have "\<exists>p b. executed_file F H r w f = Inr p \<and> read_bytes p w = Inr b \<and> H b = upper (py_str (snd f))"
    if "f \<in> set files" for f
    using mapR_all [OF fi(2) that] executed_file_Inr [of F H r w "fst f" "snd f"] by auto
  ultimately have "pins_hold F H spec r trusted w exe"
    unfolding pins_hold_def using pinned_exe_Inr [OF exe] ch(1) fi(1) by blast
  moreover from cwd(1) have "get_default spec ''cwd'' (JStr '''') = JStr c" by (auto simp: text_of_def split: json.splits)
  ultimately show ?thesis using cwd rest by blast
qed

lemma check_verdict_passed:
  assumes "check_verdict pid cid as spec rc out = Inr d" and "dget d ''passed'' = JBool True"
  shows "py_int (get_default spec ''expected_exit'' (JInt 0)) = Inr rc \<and>
    (dget spec ''expected_contains'' = JNull \<or> contains (py_str (dget spec ''expected_contains'')) out)"
  using assms by (auto simp: check_verdict_def bindR_Inr_iff Let_def)


section \<open>Example\<close>

definition pin :: hash where
  "pin b = replicate (64 - length b) CHR ''0'' @ upper b"

definition check_fs :: fsview where
  "check_fs = \<lparr>symlinks = (\<lambda>_. None), cwd = [''p''], dirs = (\<lambda>_. False), regular = (\<lambda>_. False)\<rparr>"

definition check_procs :: procs where
  "check_procs = \<lparr>surroundings = \<lparr>disk = [(''/bin/py'', Reg ''x''), (''/p/t.py'', Reg ''y''), (''/bin'', Dir)],
     journal = [], denied = [], now = 0, now_ns = 0, stamp = [], draws = (\<lambda>_. []), drawn = 0, budget = None\<rparr>, started = []\<rparr>"

definition check_platform :: platform where
  "check_platform = \<lparr>ambient = [(''HOME'', ''/h''), (''API_KEY'', ''k'')], which = (\<lambda>_ _. None),
     launcher = (\<lambda>_ _ w. (Exited 0 ''all ok'' [], w))\<rparr>"

definition check_spec :: dict where
  "check_spec = [(''project_id'', JStr ''p''), (''check_id'', JStr ''verify''), (''cwd'', JStr ''/p''), (''executable'', JStr ''py''),
     (''executable_path'', JStr ''/bin/py''), (''executable_sha256'', JStr (pin ''x'')),
     (''executed_files'', JObj [(''t.py'', JStr (pin ''y''))]), (''argv'', JArr [JStr ''py'', JStr ''t.py'']),
     (''expected_contains'', JStr ''ok'')]"

definition check_trusted :: dict where
  "check_trusted = [(''py'', JObj [(''path'', JStr ''/bin/py''), (''sha256'', JStr (pin ''x''))])]"


end
