(* ===== verification/Utf8.thy ===== *)
theory Utf8
  imports Pystr
begin

text \<open>
  UTF-8 on code points, as \<open>str.encode("utf-8")\<close> and
  \<open>bytes.decode("utf-8", errors="replace")\<close> treat them, and the fitting of a text into a number of
  bytes (\<open>GovernedExecutor._fit_bytes\<close>). A text is here the list of its code points; a byte sequence
  that is not UTF-8 becomes the replacement character U+FFFD for each maximal part of a character.
\<close>

type_synonym points = "nat list"

definition tail_byte :: "nat \<Rightarrow> char" where
  "tail_byte n = chr (128 + n mod 64)"

definition encode_point :: "nat \<Rightarrow> bytes" where
  "encode_point n =
     (if n < 128 then [chr n]
      else if n < 2048 then [chr (192 + n div 64), tail_byte n]
      else if n < 65536 then [chr (224 + n div 4096), tail_byte (n div 64), tail_byte n]
      else [chr (240 + n div 262144), tail_byte (n div 4096), tail_byte (n div 64), tail_byte n])"

definition encode :: "points \<Rightarrow> bytes" where
  "encode ps = concat (map encode_point ps)"

text \<open>The first byte: how many bytes follow, the range of the next one, and the leading bits.\<close>

definition lead :: "nat \<Rightarrow> (nat \<times> nat \<times> nat \<times> nat) option" where
  "lead b =
     (if 194 \<le> b \<and> b \<le> 223 then Some (1, 128, 191, b - 192)
      else if b = 224 then Some (2, 160, 191, 0)
      else if b = 237 then Some (2, 128, 159, 13)
      else if 225 \<le> b \<and> b \<le> 239 then Some (2, 128, 191, b - 224)
      else if b = 240 then Some (3, 144, 191, 0)
      else if 241 \<le> b \<and> b \<le> 243 then Some (3, 128, 191, b - 240)
      else if b = 244 then Some (3, 128, 143, 4)
      else None)"

fun take_tail :: "nat \<Rightarrow> nat \<Rightarrow> nat \<Rightarrow> nat \<Rightarrow> bytes \<Rightarrow> nat option \<times> bytes" where
  "take_tail 0 lo hi v s = (Some v, s)"
| "take_tail (Suc n) lo hi v [] = (None, [])"
| "take_tail (Suc n) lo hi v (d # ds) =
     (if lo \<le> code d \<and> code d \<le> hi then take_tail n 128 191 (v * 64 + (code d - 128)) ds else (None, d # ds))"

lemma take_tail_length: "length (snd (take_tail n lo hi v s)) \<le> length s"
  by (induction n lo hi v s rule: take_tail.induct) auto

definition REPLACEMENT :: nat where
  "REPLACEMENT = 65533"

function decode_replace :: "bytes \<Rightarrow> points" where
  "decode_replace [] = []"
| "decode_replace (c # cs) =
     (if code c < 128 then code c # decode_replace cs
      else case lead (code c) of
        None \<Rightarrow> REPLACEMENT # decode_replace cs
      | Some (n, lo, hi, v) \<Rightarrow>
          (let r = take_tail n lo hi v cs
           in (case fst r of Some p \<Rightarrow> p | None \<Rightarrow> REPLACEMENT) # decode_replace (snd r)))"
  by pat_completeness auto
termination
  by (relation "measure length") (auto simp: less_Suc_eq_le take_tail_length)

text \<open>Unicode scalar values: what a Python text without surrogates holds.\<close>

definition scalar :: "nat \<Rightarrow> bool" where
  "scalar n \<longleftrightarrow> n < 55296 \<or> 57344 \<le> n \<and> n < 1114112"

lemma code_tail [simp]: "code (tail_byte n) = 128 + n mod 64"
  by (simp add: tail_byte_def)

lemma mod_64 [simp]: "n mod 64 \<le> 63" for n :: nat
  using mod_less_divisor [of 64 n] by linarith

lemma decode_lead:
  "128 \<le> code c \<Longrightarrow> lead (code c) = Some (n, lo, hi, v) \<Longrightarrow> take_tail n lo hi v cs = (Some p, rest) \<Longrightarrow>
     decode_replace (c # cs) = p # decode_replace rest"
  by simp

lemma take_two:
  "lo \<le> code a \<Longrightarrow> code a \<le> hi \<Longrightarrow>
     take_tail 2 lo hi v (a # tail_byte n # s) = (Some ((v * 64 + (code a - 128)) * 64 + n mod 64), s)"
  by (simp add: numeral_2_eq_2)

lemma take_three:
  "lo \<le> code a \<Longrightarrow> code a \<le> hi \<Longrightarrow>
     take_tail 3 lo hi v (a # tail_byte k # tail_byte n # s) =
       (Some (((v * 64 + (code a - 128)) * 64 + k mod 64) * 64 + n mod 64), s)"
  by (simp add: numeral_3_eq_3)

lemma decode_point:
  assumes "scalar n"
  shows "decode_replace (encode_point n @ s) = n # decode_replace s"
proof -
  have n: "n < 1114112" "n < 55296 \<or> 57344 \<le> n" using assms by (auto simp: scalar_def)
  consider (a) "n < 128" | (b) "128 \<le> n" "n < 2048" | (c) "2048 \<le> n" "n < 65536" | (d) "65536 \<le> n" by linarith
  then show ?thesis
  proof cases
    case a
    then show ?thesis by (simp add: encode_point_def)
  next
    case b
    then have "lead (192 + n div 64) = Some (1, 128, 191, n div 64)" by (auto simp: lead_def)
    with b show ?thesis by (simp add: encode_point_def)
  next
    case c
    define q where "q = n div 4096"
    define m where "m = n div 64 mod 64"
    have "q = n div 64 div 64" unfolding q_def by (simp add: div_mult2_eq [symmetric])
    then have "n div 64 = q * 64 + m" unfolding m_def by (metis div_mult_mod_eq)
    moreover have "n = n div 64 * 64 + n mod 64" by simp
    moreover have "m < 64" unfolding m_def by simp
    ultimately have n': "n div 64 = q * 64 + m" "n = (q * 64 + m) * 64 + n mod 64" "m < 64" by metis+
    have "n mod 64 < 64" by simp
    with c n n' have q: "q < 16" "q = 0 \<longrightarrow> 32 \<le> m" "q = 13 \<longrightarrow> m < 32" by linarith+
    have "lead (224 + q) = (if q = 0 then Some (2, 160, 191, 0) else if q = 13 then Some (2, 128, 159, 13)
        else Some (2, 128, 191, q))" using q(1) by (auto simp: lead_def)
    moreover have "encode_point n = [chr (224 + q), tail_byte (n div 64), tail_byte n]"
      using c by (simp add: encode_point_def q_def)
    moreover have "n div 64 mod 64 = m" by (simp add: m_def)
    moreover have "take_tail 2 lo hi q (tail_byte (n div 64) # tail_byte n # s) = (Some n, s)"
      if "lo \<le> 128 + m" "128 + m \<le> hi" for lo hi
      using that take_two [of lo "tail_byte (n div 64)" hi q n s] n'(2) by (simp add: m_def)
    then have "\<exists>lo hi. lead (224 + q) = Some (2, lo, hi, q) \<and> take_tail 2 lo hi q (tail_byte (n div 64) # tail_byte n # s) = (Some n, s)"
      using calculation(1) q n'(3) by (cases "q = 0"; cases "q = 13") simp_all
    moreover have "code (chr (224 + q)) = 224 + q" using q(1) by simp
    ultimately show ?thesis by (auto simp del: decode_replace.simps intro!: decode_lead)
  next
    case d
    define q where "q = n div 262144"
    define m where "m = n div 4096 mod 64"
    define l where "l = n div 64 mod 64"
    have q': "q = n div 4096 div 64" unfolding q_def by (simp add: div_mult2_eq [symmetric])
    then have "n div 4096 = q * 64 + m" unfolding m_def by (metis div_mult_mod_eq)
    moreover have "n div 4096 = n div 64 div 64" by (simp add: div_mult2_eq [symmetric])
    then have "n div 64 = n div 4096 * 64 + l" unfolding l_def by (metis div_mult_mod_eq)
    moreover have "n = n div 64 * 64 + n mod 64" by simp
    moreover have "m < 64" "l < 64" unfolding m_def l_def by simp_all
    ultimately have n': "n = ((q * 64 + m) * 64 + l) * 64 + n mod 64" "m < 64" "l < 64" by metis+
    have "n mod 64 < 64" by simp
    then obtain r where r: "r < 64" "n = ((q * 64 + m) * 64 + l) * 64 + r" using n'(1) by blast
    then have "n = q * 262144 + m * 4096 + (l * 64 + r)" by (simp add: algebra_simps)
    with r(1) n'(3) have "q * 262144 + m * 4096 \<le> n" "n < q * 262144 + m * 4096 + 4096" by linarith+
    note between = this
    then have "q < 5" using n(1) by linarith
    moreover have "16 \<le> m" if "q = 0" using that between(2) d by simp
    moreover have "m < 16" if "q = 4" using that between(1) n(1) by simp
    ultimately have q: "q < 5" "q = 0 \<longrightarrow> 16 \<le> m" "q = 4 \<longrightarrow> m < 16" by blast+
    have "lead (240 + q) = (if q = 0 then Some (3, 144, 191, 0) else if q = 4 then Some (3, 128, 143, 4)
        else Some (3, 128, 191, q))" using q(1) by (auto simp: lead_def)
    moreover have "encode_point n = [chr (240 + q), tail_byte (n div 4096), tail_byte (n div 64), tail_byte n]"
      using d by (simp add: encode_point_def q_def)
    moreover have "n div 4096 mod 64 = m" "n div 64 mod 64 = l" by (simp_all add: m_def l_def)
    moreover have "take_tail 3 lo hi q (tail_byte (n div 4096) # tail_byte (n div 64) # tail_byte n # s) = (Some n, s)"
      if "lo \<le> 128 + m" "128 + m \<le> hi" for lo hi
      using that take_three [of lo "tail_byte (n div 4096)" hi q "n div 64" n s] n'(1) by (simp add: m_def l_def)
    then have "\<exists>lo hi. lead (240 + q) = Some (3, lo, hi, q) \<and>
        take_tail 3 lo hi q (tail_byte (n div 4096) # tail_byte (n div 64) # tail_byte n # s) = (Some n, s)"
      using calculation(1) q n'(2) by (cases "q = 0"; cases "q = 4") simp_all
    moreover have "code (chr (240 + q)) = 240 + q" using q(1) by simp
    ultimately show ?thesis by (auto simp del: decode_replace.simps intro!: decode_lead)
  qed
qed

text \<open>Decoding gives back what was encoded.\<close>

lemma decode_encode: "\<forall>p \<in> set ps. scalar p \<Longrightarrow> decode_replace (encode ps) = ps"
  by (induction ps) (auto simp: encode_def decode_point)

section \<open>Fitting into a number of bytes\<close>

function shrink :: "nat \<Rightarrow> points \<Rightarrow> points" where
  "shrink limit text =
     (if limit < length (encode text) \<and> text \<noteq> [] then shrink limit (butlast text) else text)"
  by pat_completeness auto
termination
  by (relation "measure (\<lambda>(limit, text). length text)") auto

declare shrink.simps [simp del]

definition fit_bytes :: "bytes \<Rightarrow> nat \<Rightarrow> points" where
  "fit_bytes raw max_bytes = shrink max_bytes (decode_replace raw)"

lemma encode_append [simp]: "encode (a @ b) = encode a @ encode b"
  by (simp add: encode_def)

lemma shrink_spec:
  "\<exists>k \<le> length t. shrink m t = take k t \<and> length (encode (take k t)) \<le> m \<and>
     (\<forall>j \<le> length t. length (encode (take j t)) \<le> m \<longrightarrow> j \<le> k)"
proof (induction m t rule: shrink.induct)
  case (1 m t)
  show ?case
  proof (cases "m < length (encode t) \<and> t \<noteq> []")
    case True
    with 1 obtain k where k: "k \<le> length (butlast t)" "shrink m (butlast t) = take k (butlast t)"
      "length (encode (take k (butlast t))) \<le> m"
      "\<forall>j \<le> length (butlast t). length (encode (take j (butlast t))) \<le> m \<longrightarrow> j \<le> k" by blast
    have tk: "take j (butlast t) = take j t" if "j \<le> length (butlast t)" for j
      using that True by (cases t rule: rev_cases) auto
    have "j \<le> k" if "j \<le> length t" "length (encode (take j t)) \<le> m" for j
    proof (cases "j = length t")
      case False
      with that(1) have "j \<le> length (butlast t)" by simp
      with that(2) k(4) tk show ?thesis by simp
    qed (use that True in simp)
    with True k tk show ?thesis by (intro exI [where x = k]) (simp add: shrink.simps [of m t])
  next
    case False
    then show ?thesis by (intro exI [where x = "length t"]) (auto simp: shrink.simps [of m t] encode_def)
  qed
qed

lemma fit_bytes_limit: "length (encode (fit_bytes raw m)) \<le> m"
  using shrink_spec [of "decode_replace raw" m] by (auto simp: fit_bytes_def)

lemma fit_bytes_exact: "\<forall>p \<in> set ps. scalar p \<Longrightarrow> length (encode ps) \<le> m \<Longrightarrow> fit_bytes (encode ps) m = ps"
  by (simp add: fit_bytes_def decode_encode shrink.simps)

text \<open>The text of a bounded read never exceeds the limit when it is encoded again, loses only
  whole characters from its end, and is the longest such part; what is proper UTF-8 within the limit comes
  back unchanged.\<close>

theorem fit_bytes_bounded:
  "length (encode (fit_bytes raw m)) \<le> m \<and>
   (\<exists>k \<le> length (decode_replace raw). fit_bytes raw m = take k (decode_replace raw) \<and>
      (\<forall>j \<le> length (decode_replace raw). length (encode (take j (decode_replace raw))) \<le> m \<longrightarrow> j \<le> k)) \<and>
   ((\<forall>p \<in> set ps. scalar p) \<and> raw = encode ps \<and> length raw \<le> m \<longrightarrow> fit_bytes raw m = ps)"
proof -
  from shrink_spec [of "decode_replace raw" m] have "\<exists>k \<le> length (decode_replace raw). fit_bytes raw m = take k (decode_replace raw) \<and>
      (\<forall>j \<le> length (decode_replace raw). length (encode (take j (decode_replace raw))) \<le> m \<longrightarrow> j \<le> k)"
    by (auto simp: fit_bytes_def)
  moreover have "fit_bytes raw m = ps" if "\<forall>p \<in> set ps. scalar p" "raw = encode ps" "length raw \<le> m"
    using that by (simp add: fit_bytes_exact)
  ultimately show ?thesis using fit_bytes_limit by blast
qed

theorem fit_bytes_bounded_witness:
  "length (encode (fit_bytes (encode [8364, 65]) 3)) \<le> 3 \<and> fit_bytes (encode [8364, 65]) 4 = [8364, 65]"
proof -
  have "length (encode [8364, 65]) \<le> 4" "\<forall>p \<in> set [8364, 65]. scalar p"
    by (simp_all add: encode_def encode_point_def scalar_def)
  moreover note fit_bytes_bounded [of "encode [8364, 65]" 4 "[8364, 65]"]
    fit_bytes_bounded [of "encode [8364, 65]" 3 "[]", THEN conjunct1]
  ultimately show ?thesis by metis
qed

end
