(* ===== verification/Git.thy ===== *)
theory Git
  imports Executor Runner Utf8
begin

text \<open>
  \<open>src/jvc/execution/executor.py\<close>, the governed Git operations and the declared checks of a
  project: the audit of the repository's configuration and attributes, the bounded reads (status, diff,
  log), and staging, committing and switching under the lock of the repository.

  Git itself is the \<open>launcher\<close> of the host's platform: it is asked through the log of commands.
\<close>

section \<open>Running Git\<close>

definition git_exe :: "host \<Rightarrow> executor \<Rightarrow> world \<Rightarrow> string result" where
  "git_exe h self w =
     (if aget (trusted_executables self) ''git'' \<noteq> None
      then resolve_trusted_executable (sha h) (locate (fs h)) ''git'' (trusted_executables self) w
      else case which (plat h) ''git'' w of
        None \<Rightarrow> Inl FileNotFoundError
      | Some f \<Rightarrow> locate (fs h) f)"

definition safe_git_env :: "host \<Rightarrow> executor \<Rightarrow> world \<Rightarrow> (string, string) alist result" where
  "safe_git_env h self w =
     bindR (git_exe h self w) (\<lambda>exe.
     bindR (build_safe_subprocess_env (fs h) (plat h) (temp_dir h) [parent_of exe] True w) (\<lambda>env.
     Inr (aset ''GIT_TERMINAL_PROMPT'' ''0'' (aset ''GIT_CONFIG_SYSTEM'' ''/dev/null''
           (aset ''GIT_CONFIG_GLOBAL'' ''/dev/null'' (aset ''GIT_CONFIG_NOSYSTEM'' ''1'' env))))))"

definition BASE_FLAGS :: "string list" where
  "BASE_FLAGS = [''-c'', ''core.hooksPath='', ''-c'', ''core.quotepath=false'', ''-c'', ''commit.gpgsign=false'',
     ''-c'', ''tag.gpgsign=false'', ''-C'']"

definition git_base_args ::
    "host \<Rightarrow> executor \<Rightarrow> route \<Rightarrow> string list \<Rightarrow> world \<Rightarrow> (string list \<times> (string, string) alist) result" where
  "git_base_args h self route args w =
     bindR (git_exe h self w) (\<lambda>exe.
     bindR (safe_git_env h self w) (\<lambda>env.
     Inr (exe # BASE_FLAGS @ str_path (root_path route) # args, env)))"

definition launch_git :: "host \<Rightarrow> executor \<Rightarrow> route \<Rightarrow> string list \<Rightarrow> (exec_state, run_outcome) M" where
  "launch_git h self route args =
     bindM (readM (\<lambda>s. git_base_args h self route args (wd s))) (\<lambda>(as, env).
     in_procs (start (plat h) \<lparr>argv = as, directory = None, time_limit = Some 30, environment = Some env\<rparr>))"

definition run_git :: "host \<Rightarrow> executor \<Rightarrow> route \<Rightarrow> string list \<Rightarrow> (exec_state, int \<times> string \<times> string) M" where
  "run_git h self route args =
     bindM (launch_git h self route args) (\<lambda>out. case out of
       Exited rc so se \<Rightarrow> bindM (readM (\<lambda>_. texts so se)) (\<lambda>(u, v). ret (rc, u, v))
     | TimedOut m so se \<Rightarrow> raise TimeoutExpired
     | CannotStart m \<Rightarrow> raise OSError)"

text \<open>Both streams with a byte cap; a command that is killed at the time limit ends with -9.\<close>

definition run_git_capped ::
    "host \<Rightarrow> executor \<Rightarrow> route \<Rightarrow> string list \<Rightarrow> nat \<Rightarrow> nat \<Rightarrow> (exec_state, int \<times> bytes \<times> bytes \<times> bool \<times> bool) M" where
  "run_git_capped h self route args out_cap err_cap =
     bindM (launch_git h self route args) (\<lambda>out.
     let report = (\<lambda>rc so se. ret (rc, take (out_cap + 1) so, take (err_cap + 1) se, out_cap < length so, err_cap < length se))
     in case out of
       Exited rc so se \<Rightarrow> report rc so se
     | TimedOut m so se \<Rightarrow> report (- 9) so se
     | CannotStart m \<Rightarrow> raise OSError)"

section \<open>The audit\<close>

definition partition_at :: "char \<Rightarrow> string \<Rightarrow> string \<times> string" where
  "partition_at c s = (case split_once [c] s of None \<Rightarrow> (s, '''') | Some p \<Rightarrow> p)"

definition config_entry :: "string \<Rightarrow> (string \<times> string \<times> string) option" where
  "config_entry line =
     (if chr 9 \<notin> set line \<or> CHR ''='' \<notin> set line then None
      else let (origin, rest) = partition_at (chr 9) line; (key, value) = partition_at CHR ''='' rest
           in Some (strip_ws origin, lower (strip_ws key), strip_ws value))"

definition effective_git_config ::
    "host \<Rightarrow> executor \<Rightarrow> route \<Rightarrow> (exec_state, (string \<times> string \<times> string) list) M" where
  "effective_git_config h self route =
     bindM (run_git h self route [''config'', ''--list'', ''--show-origin'']) (\<lambda>(rc, out, err).
     if rc \<noteq> 0 then raise RuntimeError
     else ret (List.map_filter config_entry (splitlines out)))"

definition any_of :: "string list \<Rightarrow> rexp" where
  "any_of ws = alts (map liti ws)"

definition UNSAFE_GIT_KEY_RES :: "rexp list" where
  "UNSAFE_GIT_KEY_RES =
     [liti ''include'', Cat (liti ''include.'') (Star any), Cat (liti ''includeif.'') (Star any),
      cats [liti ''filter.'', plus dot, liti ''.'', any_of [''clean'', ''smudge'', ''process'', ''required'']],
      cats [liti ''diff.'', plus dot, liti ''.'', any_of [''command'', ''textconv'']],
      liti ''diff.external'', liti ''core.fsmonitor'',
      Cat (liti ''core.'') (any_of [''attributesfile'', ''sshcommand'', ''worktree'']),
      liti ''extensions.worktreeconfig'', Cat (liti ''gpg.'') (Star any), liti ''commit.gpgsign'', liti ''tag.gpgsign'']"

definition unsafe_entry :: "string \<times> string \<times> string \<Rightarrow> bool" where
  "unsafe_entry e = (case e of (origin, key, value) \<Rightarrow>
     rstrip (\<lambda>c. c = CHR '':'') (lower origin) \<noteq> ''command line'' \<and> (\<exists>rx \<in> set UNSAFE_GIT_KEY_RES. fullmatch rx key))"

definition assert_safe_git_repo :: "host \<Rightarrow> executor \<Rightarrow> route \<Rightarrow> (exec_state, unit) M" where
  "assert_safe_git_repo h self route =
     bindM (readM (\<lambda>_. resolved_path (symlinks (fs h)) (route_root h route))) (\<lambda>resolved_root.
     bindM (run_git h self route [''rev-parse'', ''--show-toplevel'']) (\<lambda>(rc, out, err).
     if rc \<noteq> 0 then raise RuntimeError
     else bindM (readM (\<lambda>_. locate (fs h) (strip_ws out))) (\<lambda>toplevel.
     if toplevel \<noteq> path_str resolved_root then raise PermissionError
     else bindM (effective_git_config h self route) (\<lambda>entries.
     if \<exists>e \<in> set entries. unsafe_entry e then raise PermissionError else ret ()))))"

definition zero_split :: "string \<Rightarrow> string list" where
  "zero_split s = filter (\<lambda>p. p \<noteq> []) (split_on (chr 0) s)"

definition gitattributes_files :: "host \<Rightarrow> executor \<Rightarrow> route \<Rightarrow> (exec_state, pypath list) M" where
  "gitattributes_files h self route =
     bindM (run_git h self route [''ls-files'', ''-z'', ''--'', ''.gitattributes'', ''*/.gitattributes'']) (\<lambda>(rc, out, err).
     if rc \<noteq> 0 then ret []
     else readM (\<lambda>s.
       let files = map (\<lambda>p. join_path (root_path route) (mk_path p)) (zero_split out);
           top = join_path (root_path route) (mk_path ''.gitattributes'')
       in Inr (files @ (if file_in (fs h) top (wd s) \<and> top \<notin> set files then [top] else []))))"

definition UNSAFE_ATTR_TOKEN_RE :: rexp where
  "UNSAFE_ATTR_TOKEN_RE =
     alts [cats [any_of [''filter'', ''diff'', ''merge''], Star (Cls is_space), lit ''=''],
           liti ''textconv'', liti ''working-tree-encoding'']"

text \<open>A code point above Latin-1 as a character that plays the same part in the expression: the line
  and paragraph separators, the blanks, and the letters that match an ASCII letter regardless of case.\<close>

definition latin :: "nat \<Rightarrow> char" where
  "latin n =
     (if n < 256 then chr n
      else if n = 8232 \<or> n = 8233 then chr 10
      else if n = 5760 \<or> 8192 \<le> n \<and> n \<le> 8202 \<or> n = 8239 \<or> n = 8287 \<or> n = 12288 then chr 32
      else if n = 304 \<or> n = 305 then CHR ''i''
      else if n = 383 then CHR ''s''
      else if n = 8490 then CHR ''k''
      else chr 255)"

definition attr_text :: "bytes \<Rightarrow> string" where
  "attr_text b =
     join [chr 10] (map (\<lambda>line. fst (partition_at CHR ''#'' line)) (splitlines (map latin (decode_replace b))))"

definition assert_no_executable_gitattributes :: "host \<Rightarrow> executor \<Rightarrow> route \<Rightarrow> (exec_state, unit) M" where
  "assert_no_executable_gitattributes h self route =
     bindM (gitattributes_files h self route) (\<lambda>files.
     readM (\<lambda>s. if \<exists>f \<in> set files. (case read_in (fs h) f (wd s) of
              Inl e \<Rightarrow> False | Inr b \<Rightarrow> search UNSAFE_ATTR_TOKEN_RE (attr_text b))
        then Inl PermissionError else Inr ()))"

definition assert_safe_git_mutation :: "host \<Rightarrow> executor \<Rightarrow> route \<Rightarrow> (exec_state, unit) M" where
  "assert_safe_git_mutation h self route =
     bindM (assert_safe_git_repo h self route) (\<lambda>_. assert_no_executable_gitattributes h self route)"

definition attr_line_safe :: "string \<Rightarrow> bool" where
  "attr_line_safe line =
     (let ps = map strip_ws (split_on CHR '':'' line)
      in length ps < 3 \<or> lower (last ps) \<in> {''unspecified'', ''unset'', ''unknown''})"

definition assert_path_attrs_safe :: "host \<Rightarrow> executor \<Rightarrow> route \<Rightarrow> string \<Rightarrow> (exec_state, unit) M" where
  "assert_path_attrs_safe h self route canonical_rel =
     bindM (run_git h self route [''check-attr'', ''filter'', ''diff'', ''textconv'', ''merge'', ''--'', canonical_rel]) (\<lambda>(rc, out, err).
     if rc \<noteq> 0 then raise RuntimeError
     else if \<exists>line \<in> set (splitlines out). \<not> attr_line_safe line then raise PermissionError else ret ())"

section \<open>Bounded reads\<close>

definition validate_max_bytes :: "json \<Rightarrow> nat result" where
  "validate_max_bytes v = (case v of JInt i \<Rightarrow> if i < 0 then Inl ValueError else Inr (nat i) | _ \<Rightarrow> Inl ValueError)"

definition ERROR_BYTES :: nat where
  "ERROR_BYTES = 32 * 1024"

definition capped_git_read ::
    "host \<Rightarrow> executor \<Rightarrow> route \<Rightarrow> string list \<Rightarrow> json \<Rightarrow> (exec_state, int \<times> points \<times> points \<times> bool \<times> bool) M" where
  "capped_git_read h self route args max_bytes =
     bindM (readM (\<lambda>_. validate_max_bytes max_bytes)) (\<lambda>limit.
     bindM (run_git_capped h self route args limit ERROR_BYTES) (\<lambda>(rc, out, err, t, et).
     ret (rc, fit_bytes out limit, fit_bytes err ERROR_BYTES, t, et)))"

record git_read =
  read_status :: string
  read_project :: string
  exit_code :: int
  shown :: points
  truncated :: bool
  byte_limit :: json
  read_paths :: "string list"
  error_output :: points
  error_truncated :: bool

datatype git_reply = Plain dict | Read git_read

definition not_applicable :: "string \<Rightarrow> string \<Rightarrow> git_reply" where
  "not_applicable op pid =
     Plain [(''status'', JStr ''NOT_APPLICABLE''), (''op_class'', JStr op), (''project_id'', JStr pid)]"

definition has_git_dir :: "host \<Rightarrow> route \<Rightarrow> exec_state \<Rightarrow> bool" where
  "has_git_dir h route s = dir_in (fs h) (join_path (root_path route) (mk_path ''.git'')) (wd s)"

text \<open>The common frame of the Git operations: the project, and a repository in it.\<close>

definition in_repository ::
    "host \<Rightarrow> executor \<Rightarrow> string \<Rightarrow> string \<Rightarrow> (route \<Rightarrow> (exec_state, git_reply) M) \<Rightarrow> (exec_state, git_reply) M" where
  "in_repository h self op pid body =
     bindM (readM (\<lambda>s. resolve_project h self pid (wd s))) (\<lambda>route.
     bindM (readM (\<lambda>s. Inr (has_git_dir h route s))) (\<lambda>present.
     if \<not> present then ret (not_applicable op pid) else body route))"

definition read_report ::
    "host \<Rightarrow> executor \<Rightarrow> string \<Rightarrow> route \<Rightarrow> string list \<Rightarrow> string list \<Rightarrow> json \<Rightarrow> (exec_state, git_reply) M" where
  "read_report h self pid route args ps max_bytes =
     bindM (capped_git_read h self route args max_bytes) (\<lambda>(rc, out, err, t, et).
     ret (Read \<lparr>read_status = (if rc = 0 then ''PASS'' else ''FAIL''), read_project = pid, exit_code = rc, shown = out,
       truncated = t, byte_limit = max_bytes, read_paths = ps, error_output = err, error_truncated = et\<rparr>))"

definition git_status :: "host \<Rightarrow> executor \<Rightarrow> string \<Rightarrow> json \<Rightarrow> (exec_state, git_reply) M" where
  "git_status h self pid max_bytes =
     in_repository h self ''READ_INSPECTION'' pid (\<lambda>route.
     bindM (assert_safe_git_repo h self route) (\<lambda>_.
     read_report h self pid route [''status'', ''--porcelain=v1'', ''-b''] [] max_bytes))"

definition git_log :: "host \<Rightarrow> executor \<Rightarrow> string \<Rightarrow> int \<Rightarrow> json \<Rightarrow> (exec_state, git_reply) M" where
  "git_log h self pid n max_bytes =
     in_repository h self ''READ_INSPECTION'' pid (\<lambda>route.
     let count = min (max 1 n) 100 in
     bindM (assert_safe_git_repo h self route) (\<lambda>_.
     read_report h self pid route [''log'', ''-n'' @ int_digits count, ''--oneline''] [] max_bytes))"

text \<open>An entry of the index or of HEAD that lies below or above the path: the path is a directory there.\<close>

definition expands :: "string \<Rightarrow> string \<Rightarrow> bool" where
  "expands canonical_rel entry =
     (let normalized = slashes entry in
      normalized \<noteq> canonical_rel \<and>
      (startswith normalized (rstrip (\<lambda>c. c = CHR ''/'') canonical_rel @ ''/'') \<or> startswith canonical_rel (normalized @ ''/'')))"

definition assert_exact_file_target :: "host \<Rightarrow> executor \<Rightarrow> route \<Rightarrow> string \<Rightarrow> (exec_state, unit) M" where
  "assert_exact_file_target h self route canonical_rel =
     foldM (\<lambda>_ args. bindM (run_git h self route (args @ [''--'', canonical_rel])) (\<lambda>(rc, out, err).
         if rc = 0 \<and> (\<exists>e \<in> set (zero_split out). expands canonical_rel e) then raise ValueError else ret ()))
       () [[''ls-files'', ''-z''], [''ls-tree'', ''-r'', ''--name-only'', ''-z'', ''HEAD'']]"

text \<open>One path that is named exactly: it is permitted, no directory, and selects no helper.\<close>

definition exact_path :: "host \<Rightarrow> executor \<Rightarrow> route \<Rightarrow> string \<Rightarrow> (exec_state, string) M" where
  "exact_path h self route p =
     bindM (readM (\<lambda>_. permitted (symlinks (fs h)) (route_root h route) p)) (\<lambda>(target, canonical_rel).
     bindM (readM (\<lambda>s. if is_dir (path_str target) (wd s) then Inl ValueError else Inr ())) (\<lambda>_.
     bindM (assert_exact_file_target h self route canonical_rel) (\<lambda>_.
     bindM (assert_path_attrs_safe h self route canonical_rel) (\<lambda>_.
     ret canonical_rel))))"

definition exact_paths ::
    "host \<Rightarrow> executor \<Rightarrow> route \<Rightarrow> ('a \<Rightarrow> string result) \<Rightarrow> 'a list \<Rightarrow> (exec_state, string list) M" where
  "exact_paths h self route item_of items =
     foldM (\<lambda>acc v. bindM (readM (\<lambda>_. item_of v)) (\<lambda>item.
       bindM (exact_path h self route item) (\<lambda>c. ret (acc @ [c])))) [] items"

definition pattern_chars :: "string \<Rightarrow> bool" where
  "pattern_chars p \<longleftrightarrow> (\<exists>c \<in> set p. c \<in> set ''*?[]{}'')"

definition diff_item :: "json \<Rightarrow> string result" where
  "diff_item v = (case v of
      JStr item \<Rightarrow>
        if item = '''' \<or> pattern_chars item \<or> item = ''.'' \<or> item = ''./'' \<or>
           endswith (rstrip (\<lambda>c. c = CHR ''/'') (slashes item)) ''/.''
        then Inl ValueError else Inr item
    | _ \<Rightarrow> Inl ValueError)"

definition requested_paths :: "json \<Rightarrow> json \<Rightarrow> json list result" where
  "requested_paths paths path =
     (let items = (\<lambda>v. case v of JNull \<Rightarrow> Inr [] | JStr s \<Rightarrow> Inr [JStr s] | _ \<Rightarrow> iterate v)
      in bindR (items paths) (\<lambda>a. bindR (items path) (\<lambda>b. Inr (a @ b))))"

definition git_diff :: "host \<Rightarrow> executor \<Rightarrow> string \<Rightarrow> json \<Rightarrow> json \<Rightarrow> json \<Rightarrow> (exec_state, git_reply) M" where
  "git_diff h self pid path paths max_bytes =
     in_repository h self ''READ_INSPECTION'' pid (\<lambda>route.
     bindM (readM (\<lambda>_. requested_paths paths path)) (\<lambda>requested.
     if requested = [] then raise ValueError
     else bindM (assert_safe_git_repo h self route) (\<lambda>_.
     bindM (exact_paths h self route diff_item requested) (\<lambda>resolved.
     read_report h self pid route ([''diff'', ''--no-ext-diff'', ''--no-textconv'', ''--''] @ resolved) resolved max_bytes))))"

section \<open>Staging, committing, switching\<close>

definition git_locked ::
    "host \<Rightarrow> executor \<Rightarrow> route \<Rightarrow> (exec_state, git_reply) M \<Rightarrow> (exec_state, git_reply) M" where
  "git_locked h self route body = under_lock h (git_lock h self (route_root h route) 30) body"

definition owned_paths :: "string \<Rightarrow> exec_state \<Rightarrow> string list" where
  "owned_paths pid s = (case aget (staged s) pid of None \<Rightarrow> [] | Some ps \<Rightarrow> ps)"

definition staged_files :: "host \<Rightarrow> executor \<Rightarrow> route \<Rightarrow> (exec_state, string list) M" where
  "staged_files h self route =
     bindM (run_git h self route [''diff'', ''--cached'', ''--name-only'', ''-z'']) (\<lambda>(rc, out, err).
     if rc \<noteq> 0 then raise RuntimeError else ret (remdups (map slashes (zero_split out))))"

definition stage_item :: "string \<Rightarrow> string result" where
  "stage_item p = (if p = '''' \<or> pattern_chars p \<or> p = ''.'' \<or> p = ''./'' then Inl ValueError else Inr p)"

definition git_succeeds :: "host \<Rightarrow> executor \<Rightarrow> route \<Rightarrow> string list \<Rightarrow> (exec_state, string) M" where
  "git_succeeds h self route args =
     bindM (run_git h self route args) (\<lambda>(rc, out, err). if rc \<noteq> 0 then raise RuntimeError else ret out)"

text \<open>What is checked before the index is touched: the files to stage, once nothing else is staged.\<close>

definition stage_checks :: "host \<Rightarrow> executor \<Rightarrow> route \<Rightarrow> string \<Rightarrow> string list \<Rightarrow> (exec_state, string list) M" where
  "stage_checks h self route pid paths =
     bindM (assert_safe_git_mutation h self route) (\<lambda>_.
     bindM (exact_paths h self route stage_item paths) (\<lambda>resolved.
     bindM (staged_files h self route) (\<lambda>current.
     bindM (readM (\<lambda>s. Inr (owned_paths pid s))) (\<lambda>owned.
     if \<exists>f \<in> set current. f \<notin> set resolved \<and> f \<notin> set owned then raise PermissionError
     else ret resolved))))"

definition stage_locked :: "host \<Rightarrow> executor \<Rightarrow> route \<Rightarrow> string \<Rightarrow> string list \<Rightarrow> (exec_state, git_reply) M" where
  "stage_locked h self route pid paths =
     bindM (stage_checks h self route pid paths) (\<lambda>resolved.
     bindM (git_succeeds h self route ([''add'', ''--''] @ resolved)) (\<lambda>_.
     bindM (\<lambda>s. (Inr (), s\<lparr>staged := aset pid (remdups (owned_paths pid s @ resolved)) (staged s)\<rparr>)) (\<lambda>_.
     ret (Plain [(''status'', JStr ''PASS''), (''op_class'', JStr ''GIT_STAGE''), (''project_id'', JStr pid),
            (''staged_paths'', JArr (map JStr resolved))]))))"

definition git_stage :: "host \<Rightarrow> executor \<Rightarrow> string \<Rightarrow> string list \<Rightarrow> (exec_state, git_reply) M" where
  "git_stage h self pid paths =
     in_repository h self ''GIT_STAGE'' pid (\<lambda>route.
     if paths = [] then raise ValueError
     else git_locked h self route (stage_locked h self route pid paths))"

definition commit_checks :: "host \<Rightarrow> executor \<Rightarrow> route \<Rightarrow> string \<Rightarrow> (exec_state, string list) M" where
  "commit_checks h self route pid =
     bindM (assert_safe_git_mutation h self route) (\<lambda>_.
     bindM (staged_files h self route) (\<lambda>current.
     bindM (readM (\<lambda>s. Inr (owned_paths pid s))) (\<lambda>owned.
     if current = [] then raise ValueError
     else if \<not> set current \<subseteq> set owned then raise PermissionError
     else bindM (readM (\<lambda>_. mapR (permitted (symlinks (fs h)) (route_root h route)) current)) (\<lambda>_.
     ret current))))"

definition commit_locked :: "host \<Rightarrow> executor \<Rightarrow> route \<Rightarrow> string \<Rightarrow> string \<Rightarrow> (exec_state, git_reply) M" where
  "commit_locked h self route pid clean_msg =
     bindM (commit_checks h self route pid) (\<lambda>current.
     bindM (git_succeeds h self route [''commit'', ''-m'', clean_msg]) (\<lambda>out.
     bindM (\<lambda>s. (Inr (), s\<lparr>staged := adel pid (staged s)\<rparr>)) (\<lambda>_.
     ret (Plain [(''status'', JStr ''PASS''), (''op_class'', JStr ''GIT_COMMIT''), (''project_id'', JStr pid),
            (''committed_paths'', JArr (map JStr (sort current))), (''output'', JStr out)]))))"

definition git_commit :: "host \<Rightarrow> executor \<Rightarrow> string \<Rightarrow> string \<Rightarrow> (exec_state, git_reply) M" where
  "git_commit h self pid message =
     in_repository h self ''GIT_COMMIT'' pid (\<lambda>route.
     let clean_msg = strip_ws message in
     if clean_msg = '''' \<or> search CONTROL_RE clean_msg then raise ValueError
     else git_locked h self route (commit_locked h self route pid clean_msg))"

definition dirty_entry :: "string \<Rightarrow> string" where
  "dirty_entry rec =
     (let entry = (if 3 < length rec then drop 3 rec else rec)
      in slashes (case split_once '' -> '' entry of None \<Rightarrow> entry | Some (_, b) \<Rightarrow> b))"

definition dirty_worktree :: "host \<Rightarrow> executor \<Rightarrow> route \<Rightarrow> (exec_state, string list) M" where
  "dirty_worktree h self route =
     bindM (run_git h self route [''status'', ''--porcelain=v1'', ''-z'']) (\<lambda>(rc, out, err).
     if rc \<noteq> 0 then raise RuntimeError
     else ret (filter (\<lambda>e. e \<noteq> []) (map dirty_entry (zero_split out))))"

definition assert_switch_targets_safe :: "host \<Rightarrow> executor \<Rightarrow> route \<Rightarrow> string \<Rightarrow> (exec_state, unit) M" where
  "assert_switch_targets_safe h self route branch =
     bindM (run_git h self route [''diff'', ''--name-only'', ''-z'', ''HEAD'', branch, ''--'']) (\<lambda>(rc, out, err).
     if rc \<noteq> 0 then raise RuntimeError
     else bindM (readM (\<lambda>_. mapR (\<lambda>e. permitted (symlinks (fs h)) (route_root h route) (slashes e)) (zero_split out))) (\<lambda>_.
     ret ()))"

text \<open>Whether the branch exists, once a switch to it (or its creation) may go ahead.\<close>

definition branch_checks :: "host \<Rightarrow> executor \<Rightarrow> route \<Rightarrow> string \<Rightarrow> (exec_state, bool) M" where
  "branch_checks h self route branch =
     bindM (assert_safe_git_mutation h self route) (\<lambda>_.
     bindM (run_git h self route [''check-ref-format'', ''--branch'', branch]) (\<lambda>(rc, out, err).
     if rc \<noteq> 0 then raise ValueError
     else bindM (dirty_worktree h self route) (\<lambda>dirty.
     if dirty \<noteq> [] then raise PermissionError
     else bindM (run_git h self route [''show-ref'', ''--verify'', ''--quiet'', ''refs/heads/'' @ branch]) (\<lambda>(found, _, _).
     if found = 0 then bindM (assert_switch_targets_safe h self route branch) (\<lambda>_. ret True)
     else ret False))))"

definition branch_locked :: "host \<Rightarrow> executor \<Rightarrow> route \<Rightarrow> string \<Rightarrow> string \<Rightarrow> (exec_state, git_reply) M" where
  "branch_locked h self route pid branch =
     bindM (branch_checks h self route branch) (\<lambda>exists.
     bindM (git_succeeds h self route (if exists then [''switch'', branch] else [''switch'', ''-c'', branch])) (\<lambda>_.
     ret (Plain [(''status'', JStr ''PASS''), (''op_class'', JStr ''GIT_BRANCH''), (''project_id'', JStr pid),
            (''branch'', JStr branch), (''action'', JStr (if exists then ''switch'' else ''create''))])))"

definition git_branch :: "host \<Rightarrow> executor \<Rightarrow> string \<Rightarrow> string \<Rightarrow> (exec_state, git_reply) M" where
  "git_branch h self pid branch_name =
     in_repository h self ''GIT_BRANCH'' pid (\<lambda>route.
     let branch = strip_ws branch_name in
     if branch = '''' \<or> startswith branch ''-'' \<or> search CONTROL_RE branch then raise ValueError
     else git_locked h self route (branch_locked h self route pid branch))"

section \<open>Declared checks of a project\<close>

definition declared_spec :: "executor \<Rightarrow> string \<Rightarrow> string \<Rightarrow> json result" where
  "declared_spec self pid check_id =
     bindR (items_of (get_default (declared_manifest self) ''checks'' (JObj []))) (\<lambda>checks.
     bindR (items_of (get_default checks pid (JObj []))) (\<lambda>mine.
     Inr (dget mine check_id)))"

definition run_project_check :: "host \<Rightarrow> executor \<Rightarrow> string \<Rightarrow> string \<Rightarrow> (exec_state, dict) M" where
  "run_project_check h self pid check_id =
     bindM (readM (\<lambda>s. resolve_project h self pid (wd s))) (\<lambda>route.
     bindM (readM (\<lambda>_. declared_spec self pid check_id)) (\<lambda>spec.
     if \<not> truthy spec then raise ValueError
     else bindM (readM (\<lambda>_. items_of spec)) (\<lambda>d.
     in_procs (run_declared_check (fs h) (plat h) (sha h) (temp_dir h) pid check_id d (route_root h route)
       (trusted_executables self) None))))"

end
