(* ===== verification/Gitops.thy ===== *)
theory Gitops
  imports Git Writes
begin

text \<open>
  What the governed Git operations run: properties of the log of commands. A command is described by
  \<open>git_command\<close>; the inspections (\<open>INSPECTIONS\<close>) are told from the commands that change the
  repository, of which each operation starts at most one, as its last.
\<close>

section \<open>The log of commands\<close>

definition asks :: "(command \<Rightarrow> bool) \<Rightarrow> exec_state \<Rightarrow> exec_state \<Rightarrow> bool" where
  "asks P s t \<longleftrightarrow> (\<exists>cs. launched t = launched s @ cs \<and> (\<forall>c \<in> set cs. P c)) \<and> staged t = staged s"

interpretation asking: evolution "asks P" for P
  by unfold_locales (force simp: asks_def)+

lemma asks_mono: "asks P s t \<Longrightarrow> (\<And>c. P c \<Longrightarrow> Q c) \<Longrightarrow> asks Q s t"
  by (fastforce simp: asks_def)

lemma evolves_mono: "evolves R m \<Longrightarrow> (\<And>s t. R s t \<Longrightarrow> R' s t) \<Longrightarrow> evolves R' m"
  by (simp add: evolves_def)

text \<open>The log of this process and what it remembers of its staged paths are its own.\<close>

definition secluded :: "host \<Rightarrow> bool" where
  "secluded h \<longleftrightarrow> (\<forall>k t. launched (others h k t) = launched t \<and> staged (others h k t) = staged t)"

definition own_part :: "exec_state \<Rightarrow> command list \<times> (string, string list) alist" where
  "own_part s = (launched s, staged s)"

lemma asks_frame: "own_part t = own_part s \<Longrightarrow> asks P s t"
  by (simp add: own_part_def asks_def)

lemma secluded_poll:
  assumes "secluded h"
  shows "evolves (frames own_part) (poll_lock (others h) f fd n k)"
proof (induction n arbitrary: k)
  case 0
  show ?case by (simp add: evolves_def frames_def own_part_def grant_def)
next
  case (Suc n)
  then have "own_part (snd (poll_lock (others h) f fd n (Suc k) (others h k s))) = own_part s" for s
    using assms by (simp add: evolves_def frames_def own_part_def secluded_def)
  then show ?case by (simp add: evolves_def frames_def own_part_def grant_def)
qed

lemma secluded_acquire:
  assumes "secluded h"
  shows "evolves (frames own_part) (acquire (fs h) (mkdir_ok h) (others h) n lk)"
proof -
  have "evolves (frames own_part) (\<lambda>s. (Inr (), s\<lparr>next_fd := Suc fd\<rparr>))" for fd
    by (simp add: evolves_def frames_def own_part_def)
  then show ?thesis
    unfolding acquire_def by (intro frame.combinators secluded_poll [OF assms])
qed

lemma under_lock_runs:
  assumes "under_lock h lk body s = (r, s')" and "secluded h"
  shows "(own_part s' = own_part s \<and> (\<exists>e. r = Inl e)) \<or>
    (\<exists>s1 q s2. own_part s1 = own_part s \<and> body s1 = (q, s2) \<and> own_part s' = own_part s2 \<and> (r = q \<or> r = Inl LockError))"
proof (cases lk)
  case (Inl e)
  with assms(1) show ?thesis by (auto simp: under_lock_def bindM_app)
next
  case (Inr l)
  obtain a s1 where acq: "acquire (fs h) (mkdir_ok h) (others h) (retries h) l s = (a, s1)"
    by (cases "acquire (fs h) (mkdir_ok h) (others h) (retries h) l s")
  have same: "own_part s1 = own_part s"
    using evolvesD [OF secluded_acquire [OF assms(2)] acq] by (simp add: frames_def)
  obtain q s2 where b: "body s1 = (q, s2)" by (cases "body s1")
  from assms(1) Inr have "with_lock (fs h) (mkdir_ok h) (others h) (retries h) l body s = (r, s')"
    by (simp add: under_lock_def bindM_app)
  with acq b same show ?thesis
    by (cases a) (auto simp: with_lock_eq close_fd_def own_part_def split: option.splits if_splits)
qed

section \<open>Every command\<close>

definition neutral :: "(string, string) alist \<Rightarrow> bool" where
  "neutral env \<longleftrightarrow> aget env ''GIT_CONFIG_NOSYSTEM'' = Some ''1'' \<and> aget env ''GIT_CONFIG_GLOBAL'' = Some ''/dev/null'' \<and>
     aget env ''GIT_CONFIG_SYSTEM'' = Some ''/dev/null'' \<and> aget env ''GIT_TERMINAL_PROMPT'' = Some ''0'' \<and>
     fst ` set env \<subseteq> {''PATH'', ''TEMP'', ''TMP'', ''HOME'', ''GIT_CONFIG_NOSYSTEM'', ''GIT_CONFIG_GLOBAL'',
       ''GIT_CONFIG_SYSTEM'', ''GIT_TERMINAL_PROMPT''}"

definition git_command :: "route \<Rightarrow> string list \<Rightarrow> command \<Rightarrow> bool" where
  "git_command route args c \<longleftrightarrow>
     (\<exists>exe env. argv c = exe # BASE_FLAGS @ str_path (root_path route) # args \<and> environment c = Some env \<and> neutral env)"

definition INSPECTIONS :: "string list" where
  "INSPECTIONS = [''config'', ''rev-parse'', ''ls-files'', ''check-attr'', ''ls-tree'', ''diff'', ''status'', ''log'',
     ''check-ref-format'', ''show-ref'']"

definition inspects :: "route \<Rightarrow> command \<Rightarrow> bool" where
  "inspects route c \<longleftrightarrow> (\<exists>args. git_command route args c \<and> args \<noteq> [] \<and> hd args \<in> set INSPECTIONS)"

lemma safe_git_env_neutral:
  assumes "safe_git_env h self w = Inr env"
  shows "neutral env"
proof -
  from assms obtain exe e where e: "build_safe_subprocess_env (fs h) (plat h) (temp_dir h) [parent_of exe] True w = Inr e"
    and env: "env = aset ''GIT_TERMINAL_PROMPT'' ''0'' (aset ''GIT_CONFIG_SYSTEM'' ''/dev/null''
           (aset ''GIT_CONFIG_GLOBAL'' ''/dev/null'' (aset ''GIT_CONFIG_NOSYSTEM'' ''1'' e)))"
    by (auto simp: safe_git_env_def bindR_Inr_iff)
  from env_names [OF e] have "fst ` set e \<subseteq> {''PATH'', ''TEMP'', ''TMP'', ''HOME''}" by simp
  then show ?thesis unfolding neutral_def env fst_set_aset aget_aset by auto
qed

lemma launch_git_asks: "evolves (asks (git_command route args)) (launch_git h self route args)"
  unfolding launch_git_def
proof (rule asking.readM_evolves_at)
  fix x and s :: exec_state
  assume "git_base_args h self route args (wd s) = Inr x"
  then obtain exe env where x: "x = (exe # BASE_FLAGS @ str_path (root_path route) # args, env)" and "neutral env"
    by (auto simp: git_base_args_def bindR_Inr_iff dest: safe_git_env_neutral)
  then have "git_command route args \<lparr>argv = fst x, directory = None, time_limit = Some 30, environment = Some (snd x)\<rparr>"
    by (auto simp: git_command_def)
  with x show "asks (git_command route args) s (snd ((case x of (as, env) \<Rightarrow> in_procs (start (plat h)
      \<lparr>argv = as, directory = None, time_limit = Some 30, environment = Some env\<rparr>)) s))"
    by (auto simp: in_procs_def start_def spawn_def asks_def split: prod.splits)
qed

lemma run_git_asks: "evolves (asks (git_command route args)) (run_git h self route args)"
  unfolding run_git_def by (auto intro!: asking.combinators launch_git_asks split: run_outcome.split)

lemma run_git_capped_asks: "evolves (asks (git_command route args)) (run_git_capped h self route args n m)"
  unfolding run_git_capped_def Let_def by (auto intro!: asking.combinators launch_git_asks split: run_outcome.split)

lemma inspection:
  assumes "args \<noteq> []" and "hd args \<in> set INSPECTIONS"
  shows "evolves (asks (inspects route)) (run_git h self route args)"
    "evolves (asks (inspects route)) (run_git_capped h self route args n m)"
  using assms by (auto simp: inspects_def intro!: evolves_mono [OF run_git_asks] evolves_mono [OF run_git_capped_asks] elim!: asks_mono)

section \<open>The inspections\<close>

lemmas inspecting = asking.combinators inspection

lemma safe_repo_inspects: "evolves (asks (inspects route)) (assert_safe_git_repo h self route)"
  unfolding assert_safe_git_repo_def effective_git_config_def
  by (intro inspecting) (simp_all add: INSPECTIONS_def)

lemma safe_mutation_inspects: "evolves (asks (inspects route)) (assert_safe_git_mutation h self route)"
  unfolding assert_safe_git_mutation_def assert_no_executable_gitattributes_def gitattributes_files_def
  by (intro inspecting safe_repo_inspects) (simp_all add: INSPECTIONS_def)

lemma exact_paths_inspects: "evolves (asks (inspects route)) (exact_paths h self route f ps)"
  unfolding exact_paths_def exact_path_def assert_exact_file_target_def assert_path_attrs_safe_def foldM.simps append_Cons
  by (intro inspecting) (simp_all add: INSPECTIONS_def)

lemma staged_files_inspects: "evolves (asks (inspects route)) (staged_files h self route)"
  unfolding staged_files_def by (intro inspecting) (simp_all add: INSPECTIONS_def)

lemma dirty_worktree_inspects: "evolves (asks (inspects route)) (dirty_worktree h self route)"
  unfolding dirty_worktree_def by (intro inspecting) (simp_all add: INSPECTIONS_def)

lemma switch_targets_inspects: "evolves (asks (inspects route)) (assert_switch_targets_safe h self route b)"
  unfolding assert_switch_targets_safe_def by (intro inspecting) (simp_all add: INSPECTIONS_def)

lemma read_report_inspects:
  "args \<noteq> [] \<Longrightarrow> hd args \<in> set INSPECTIONS \<Longrightarrow> evolves (asks (inspects route)) (read_report h self pid route args ps n)"
  unfolding read_report_def capped_git_read_def by (intro inspecting)

section \<open>One changing command, as the last\<close>

definition issues :: "route \<Rightarrow> string list \<Rightarrow> exec_state \<Rightarrow> exec_state \<Rightarrow> bool" where
  "issues route args s t \<longleftrightarrow> (\<exists>c. git_command route args c \<and> launched t = launched s @ [c])"

lemma launch_git_once:
  assumes "launch_git h self route args s = (r, s')"
  shows "(own_part s' = own_part s \<and> (\<exists>e. r = Inl e)) \<or>
    (issues route args s s' \<and> staged s' = staged s \<and> (\<exists>out. r = Inr out))"
proof -
  have "asks (git_command route args) s s'" using launch_git_asks assms by (rule evolvesD)
  with assms show ?thesis
    by (auto simp: launch_git_def bindM_readM in_procs_def start_def spawn_def asks_def own_part_def issues_def
        split: sum.splits prod.splits if_splits) blast+
qed

lemma git_succeeds_once:
  assumes "git_succeeds h self route args s = (r, s')"
  shows "(own_part s' = own_part s \<and> (\<exists>e. r = Inl e)) \<or> (issues route args s s' \<and> staged s' = staged s)"
proof -
  obtain q t where l: "launch_git h self route args s = (q, t)" by (cases "launch_git h self route args s")
  with assms have "t = s' \<and> ((\<exists>e. q = Inl e) \<longrightarrow> (\<exists>e. r = Inl e))"
    by (auto simp: git_succeeds_def run_git_def bindM_app split: sum.splits prod.splits run_outcome.splits if_splits)
  with launch_git_once [OF l] show ?thesis by auto
qed

text \<open>The audit was passed in a state with the log \<open>s\<close> began with.\<close>

definition audited :: "host \<Rightarrow> executor \<Rightarrow> route \<Rightarrow> exec_state \<Rightarrow> bool" where
  "audited h self route s \<longleftrightarrow>
     (\<exists>s0. own_part s0 = own_part s \<and> fst (assert_safe_git_mutation h self route s0) = Inr ())"

text \<open>What Git lists as staged is \<open>fs\<close>; the listing is the last command before \<open>t\<close>.\<close>

definition listed :: "host \<Rightarrow> executor \<Rightarrow> route \<Rightarrow> string list \<Rightarrow> exec_state \<Rightarrow> bool" where
  "listed h self route ps t \<longleftrightarrow> (\<exists>s1. staged_files h self route s1 = (Inr ps, t))"

text \<open>A file that is named exactly: the item is accepted, and the path permitted.\<close>

definition named_exactly ::
    "host \<Rightarrow> route \<Rightarrow> ('a \<Rightarrow> string result) \<Rightarrow> 'a \<Rightarrow> string \<Rightarrow> bool" where
  "named_exactly h route item_of v f \<longleftrightarrow>
     (\<exists>item target. item_of v = Inr item \<and> permitted (symlinks (fs h)) (route_root h route) item = Inr (target, f))"

lemma exact_paths_Inr:
  assumes "exact_paths h self route item_of items s = (Inr ps, s')"
  shows "list_all2 (named_exactly h route item_of) items ps"
proof -
  define step where "step = (\<lambda>acc v. bindM (readM (\<lambda>_. item_of v)) (\<lambda>item.
       bindM (exact_path h self route item) (\<lambda>c. ret (acc @ [c]))))"
  have one: "\<exists>c. acc' = acc @ [c] \<and> named_exactly h route item_of v c" if "step acc v s = (Inr acc', t)" for acc v s acc' t
    using that by (auto simp: step_def exact_path_def named_exactly_def elim!: bindM_InrE)
  have "\<exists>qs. ps = acc @ qs \<and> list_all2 (named_exactly h route item_of) items qs"
    if "foldM step acc items s = (Inr ps, s')" for acc
    using that
  proof (induction items arbitrary: acc s)
    case (Cons v items)
    then obtain acc' s1 where "step acc v s = (Inr acc', s1)" and rest: "foldM step acc' items s1 = (Inr ps, s')"
      by (auto elim: bindM_InrE)
    with one obtain c where "acc' = acc @ [c]" "named_exactly h route item_of v c" by blast
    with Cons.IH [OF rest] show ?case by auto
  qed simp
  then show ?thesis using assms unfolding exact_paths_def step_def by fastforce
qed

text \<open>How a Git operation under the lock of the repository looks from outside.\<close>

lemma git_locked_runs:
  assumes "git_locked h self route body s = (r, s')" and "secluded h"
    and "\<And>s1 q s2. own_part s1 = own_part s \<Longrightarrow> body s1 = (q, s2) \<Longrightarrow>
      (asks P s1 s2 \<and> \<not> is_ok q) \<or> Q (is_ok q) (own_part s2)"
    and "\<And>p. Q True p \<Longrightarrow> Q False p"
  shows "(asks P s s' \<and> \<not> is_ok r) \<or> Q (is_ok r) (own_part s')"
proof -
  from under_lock_runs [OF assms(1) [unfolded git_locked_def] assms(2)]
  consider (none) "own_part s' = own_part s" "\<exists>e. r = Inl e"
    | (run) s1 q s2 where "own_part s1 = own_part s" "body s1 = (q, s2)" "own_part s' = own_part s2"
      "r = q \<or> r = Inl LockError"
    by blast
  then show ?thesis
  proof cases
    case none
    then show ?thesis by (auto simp: asks_frame)
  next
    case run
    from assms(3) [OF run(1,2)] show ?thesis
    proof
      assume "asks P s1 s2 \<and> \<not> is_ok q"
      with run have "asks P s s' \<and> \<not> is_ok r" by (auto simp: asks_def own_part_def)
      then show ?thesis ..
    next
      assume "Q (is_ok q) (own_part s2)"
      with run assms(4) [of "own_part s2"] show ?thesis by (cases q) auto
    qed
  qed
qed

lemma in_repository_runs:
  assumes "in_repository h self op pid body s = (r, s')" and "get_route (registry self) pid = Some route"
  shows "(s' = s \<and> (is_ok r \<longrightarrow> r = Inr (not_applicable op pid))) \<or> body route s = (r, s')"
  using assms by (auto simp: in_repository_def resolve_project_def bindM_app split: sum.splits if_splits)

section \<open>Staging\<close>

definition staging ::
    "host \<Rightarrow> executor \<Rightarrow> route \<Rightarrow> string \<Rightarrow> string list \<Rightarrow> exec_state \<Rightarrow> bool \<Rightarrow>
     command list \<times> (string, string list) alist \<Rightarrow> bool" where
  "staging h self route pid paths s ok after \<longleftrightarrow>
     (\<exists>ps current t c. audited h self route s \<and> list_all2 (named_exactly h route stage_item) paths ps \<and>
        listed h self route current t \<and> set current \<subseteq> set ps \<union> set (owned_paths pid s) \<and>
        asks (inspects route) s t \<and> git_command route ([''add'', ''--''] @ ps) c \<and> fst after = launched t @ [c] \<and>
        (snd after = aset pid (remdups (owned_paths pid s @ ps)) (staged s) \<or> \<not> ok \<and> snd after = staged s))"

lemma owned_frame: "asks P s t \<Longrightarrow> owned_paths pid t = owned_paths pid s"
  by (simp add: asks_def owned_paths_def)

lemma audited_now: "assert_safe_git_mutation h self route s = (Inr (), t) \<Longrightarrow> audited h self route s"
  unfolding audited_def by (rule exI [of _ s]) simp

lemma stage_checks_inspects: "evolves (asks (inspects route)) (stage_checks h self route pid paths)"
  unfolding stage_checks_def
  by (intro asking.combinators safe_mutation_inspects exact_paths_inspects staged_files_inspects)

text \<open>The checks only inspect; when they pass, one command follows.\<close>

lemma checked_run:
  assumes "bindM chk (\<lambda>x. bindM (git_succeeds h self route (args x)) (k x)) s = (r, s')"
    and "evolves (asks (inspects route)) chk"
  obtains (stopped) "asks (inspects route) s s'" "\<not> is_ok r"
  | (ran) x t u c where "chk s = (Inr x, t)" "asks (inspects route) s t" "git_command route (args x) c"
      "launched u = launched t @ [c]" "staged u = staged s" "(\<not> is_ok r \<and> s' = u) \<or> (\<exists>out. k x out u = (r, s'))"
proof (cases "chk s")
  case (Pair a t)
  with assms(2) have 1: "asks (inspects route) s t" by (rule evolvesD)
  show thesis
  proof (cases a)
    case (Inl e)
    with Pair assms(1) 1 stopped show thesis by (auto simp: bindM_app)
  next
    case (Inr x)
    obtain q u where g: "git_succeeds h self route (args x) t = (q, u)" by (cases "git_succeeds h self route (args x) t")
    with Pair Inr assms(1) have rest: "(\<not> is_ok r \<and> (\<exists>e. q = Inl e) \<and> s' = u) \<or> (\<exists>out. q = Inr out \<and> k x out u = (r, s'))"
      by (auto simp: bindM_app split: sum.splits)
    from git_succeeds_once [OF g] show thesis
    proof
      assume "own_part u = own_part t \<and> (\<exists>e. q = Inl e)"
      with rest 1 stopped show thesis by (auto simp: asks_def own_part_def)
    next
      assume "issues route (args x) t u \<and> staged u = staged t"
      then obtain c where c: "git_command route (args x) c" "launched u = launched t @ [c]" "staged u = staged t"
        by (auto simp: issues_def)
      from c(3) 1 have "staged u = staged s" by (simp add: asks_def)
      moreover from rest have "(\<not> is_ok r \<and> s' = u) \<or> (\<exists>out. k x out u = (r, s'))" by blast
      ultimately show thesis using Pair Inr 1 c(1,2) by (intro ran [of x t c u]) simp_all
    qed
  qed
qed

lemma stage_checks_Inr:
  assumes "stage_checks h self route pid paths s = (Inr ps, t)"
  shows "audited h self route s \<and> list_all2 (named_exactly h route stage_item) paths ps \<and>
    (\<exists>current. listed h self route current t \<and> set current \<subseteq> set ps \<union> set (owned_paths pid t))"
proof -
  from assms obtain s1 s2 current where 1: "assert_safe_git_mutation h self route s = (Inr (), s1)"
    "exact_paths h self route stage_item paths s1 = (Inr ps, s2)" "staged_files h self route s2 = (Inr current, t)"
    and 2: "\<not> (\<exists>f \<in> set current. f \<notin> set ps \<and> f \<notin> set (owned_paths pid t))"
    unfolding stage_checks_def by (auto elim!: bindM_InrE split: if_splits)
  from 2 have "set current \<subseteq> set ps \<union> set (owned_paths pid t)" by blast
  with 1 show ?thesis using audited_now exact_paths_Inr unfolding listed_def by blast
qed

lemma stage_locked_runs:
  assumes "stage_locked h self route pid paths s = (r, s')"
  shows "(asks (inspects route) s s' \<and> \<not> is_ok r) \<or> staging h self route pid paths s (is_ok r) (own_part s')"
  using assms [unfolded stage_locked_def] stage_checks_inspects
proof (cases rule: checked_run)
  case (ran ps t u c)
  from stage_checks_Inr [OF ran(1)] obtain current where
    chk: "audited h self route s" "list_all2 (named_exactly h route stage_item) paths ps" "listed h self route current t"
      "set current \<subseteq> set ps \<union> set (owned_paths pid s)"
    by (auto simp: owned_frame [OF ran(2)])
  have "owned_paths pid u = owned_paths pid s" using ran(5) by (simp add: owned_paths_def)
  with ran(4-6) have "fst (own_part s') = launched t @ [c]"
    "snd (own_part s') = aset pid (remdups (owned_paths pid s @ ps)) (staged s) \<or> \<not> is_ok r \<and> snd (own_part s') = staged s"
    by (auto simp: own_part_def bindM_app)
  with chk ran(2,3) show ?thesis unfolding staging_def by blast
qed simp

lemma git_stage_runs:
  assumes "git_stage h self pid paths s = (r, s')" and "secluded h"
    and "get_route (registry self) pid = Some route"
  shows "(asks (inspects route) s s' \<and> (is_ok r \<longrightarrow> r = Inr (not_applicable ''GIT_STAGE'' pid))) \<or>
    staging h self route pid paths s (is_ok r) (own_part s')"
proof -
  have mono: "staging h self route pid paths s True p \<Longrightarrow> staging h self route pid paths s False p" for p
    by (auto simp: staging_def)
  have body: "(asks (inspects route) s1 s2 \<and> \<not> is_ok q) \<or> staging h self route pid paths s (is_ok q) (own_part s2)"
    if "own_part s1 = own_part s" "stage_locked h self route pid paths s1 = (q, s2)" for s1 q s2
    using stage_locked_runs [OF that(2)] that(1) by (simp add: staging_def audited_def asks_def own_part_def owned_paths_def)
  from in_repository_runs [OF assms(1) [unfolded git_stage_def] assms(3)]
  consider "own_part s' = own_part s" "is_ok r \<longrightarrow> r = Inr (not_applicable ''GIT_STAGE'' pid)"
    | "git_locked h self route (stage_locked h self route pid paths) s = (r, s')"
    by (auto split: if_splits simp: own_part_def)
  then show ?thesis
  proof cases
    case 2
    from git_locked_runs [OF this assms(2) body mono] show ?thesis by auto
  qed (simp add: asks_frame)
qed

section \<open>Committing\<close>

definition committing ::
    "host \<Rightarrow> executor \<Rightarrow> route \<Rightarrow> string \<Rightarrow> string \<Rightarrow> exec_state \<Rightarrow> bool \<Rightarrow>
     command list \<times> (string, string list) alist \<Rightarrow> bool" where
  "committing h self route pid msg s ok after \<longleftrightarrow>
     (\<exists>current t c. audited h self route s \<and> listed h self route current t \<and> current \<noteq> [] \<and>
        set current \<subseteq> set (owned_paths pid s) \<and>
        (\<forall>f \<in> set current. is_ok (permitted (symlinks (fs h)) (route_root h route) f)) \<and>
        asks (inspects route) s t \<and> git_command route [''commit'', ''-m'', msg] c \<and> fst after = launched t @ [c] \<and>
        (snd after = adel pid (staged s) \<or> \<not> ok \<and> snd after = staged s))"

lemma commit_checks_inspects: "evolves (asks (inspects route)) (commit_checks h self route pid)"
  unfolding commit_checks_def by (intro asking.combinators safe_mutation_inspects staged_files_inspects)

lemma mapR_ok: "mapR f xs = Inr ys \<Longrightarrow> x \<in> set xs \<Longrightarrow> is_ok (f x)"
  using mapR_all by (metis is_ok.simps(1))

lemma commit_checks_Inr:
  assumes "commit_checks h self route pid s = (Inr current, t)"
  shows "audited h self route s \<and> listed h self route current t \<and> current \<noteq> [] \<and>
    set current \<subseteq> set (owned_paths pid t) \<and>
    (\<forall>f \<in> set current. is_ok (permitted (symlinks (fs h)) (route_root h route) f))"
proof -
  from assms obtain s1 ys where 1: "assert_safe_git_mutation h self route s = (Inr (), s1)"
    "staged_files h self route s1 = (Inr current, t)" "current \<noteq> []" "set current \<subseteq> set (owned_paths pid t)"
    and 2: "mapR (permitted (symlinks (fs h)) (route_root h route)) current = Inr ys"
    unfolding commit_checks_def by (auto elim!: bindM_InrE split: if_splits)
  from 1 mapR_ok [OF 2] show ?thesis using audited_now unfolding listed_def by blast
qed

lemma commit_locked_runs:
  assumes "commit_locked h self route pid msg s = (r, s')"
  shows "(asks (inspects route) s s' \<and> \<not> is_ok r) \<or> committing h self route pid msg s (is_ok r) (own_part s')"
  using assms [unfolded commit_locked_def] commit_checks_inspects
proof (cases rule: checked_run)
  case (ran current t u c)
  from commit_checks_Inr [OF ran(1)] have
    chk: "audited h self route s" "listed h self route current t" "current \<noteq> []" "set current \<subseteq> set (owned_paths pid s)"
      "\<forall>f \<in> set current. is_ok (permitted (symlinks (fs h)) (route_root h route) f)"
    by (auto simp: owned_frame [OF ran(2)])
  from ran(4-6) have "fst (own_part s') = launched t @ [c]"
    "snd (own_part s') = adel pid (staged s) \<or> \<not> is_ok r \<and> snd (own_part s') = staged s"
    by (auto simp: own_part_def bindM_app)
  with chk ran(2,3) show ?thesis unfolding committing_def by blast
qed simp

lemma git_commit_runs:
  assumes "git_commit h self pid message s = (r, s')" and "secluded h"
    and "get_route (registry self) pid = Some route"
  shows "(asks (inspects route) s s' \<and> (is_ok r \<longrightarrow> r = Inr (not_applicable ''GIT_COMMIT'' pid))) \<or>
    (strip_ws message \<noteq> '''' \<and> \<not> search CONTROL_RE (strip_ws message) \<and>
     committing h self route pid (strip_ws message) s (is_ok r) (own_part s'))"
proof -
  let ?m = "strip_ws message"
  have mono: "committing h self route pid ?m s True p \<Longrightarrow> committing h self route pid ?m s False p" for p
    by (auto simp: committing_def)
  have body: "(asks (inspects route) s1 s2 \<and> \<not> is_ok q) \<or> committing h self route pid ?m s (is_ok q) (own_part s2)"
    if "own_part s1 = own_part s" "commit_locked h self route pid ?m s1 = (q, s2)" for s1 q s2
    using commit_locked_runs [OF that(2)] that(1) by (simp add: committing_def audited_def asks_def own_part_def owned_paths_def)
  from in_repository_runs [OF assms(1) [unfolded git_commit_def] assms(3)]
  consider "own_part s' = own_part s" "is_ok r \<longrightarrow> r = Inr (not_applicable ''GIT_COMMIT'' pid)"
    | "?m \<noteq> ''''" "\<not> search CONTROL_RE ?m" "git_locked h self route (commit_locked h self route pid ?m) s = (r, s')"
    by (auto split: if_splits simp: own_part_def Let_def)
  then show ?thesis
  proof cases
    case 2
    from git_locked_runs [OF 2(3) assms(2) body mono] 2 show ?thesis by auto
  qed (simp add: asks_frame)
qed

section \<open>Switching\<close>

text \<open>Git's list of the files a switch would touch, the last command before \<open>t\<close>, all permitted.\<close>

definition safe_switch :: "host \<Rightarrow> executor \<Rightarrow> route \<Rightarrow> string \<Rightarrow> exec_state \<Rightarrow> bool" where
  "safe_switch h self route branch t \<longleftrightarrow>
     (\<exists>s1 out err. run_git h self route [''diff'', ''--name-only'', ''-z'', ''HEAD'', branch, ''--''] s1 = (Inr (0, out, err), t) \<and>
        (\<forall>e \<in> set (zero_split out). is_ok (permitted (symlinks (fs h)) (route_root h route) (slashes e))))"

definition switching ::
    "host \<Rightarrow> executor \<Rightarrow> route \<Rightarrow> string \<Rightarrow> exec_state \<Rightarrow> command list \<times> (string, string list) alist \<Rightarrow> bool" where
  "switching h self route branch s after \<longleftrightarrow>
     (\<exists>exists t c s1 s2. audited h self route s \<and> dirty_worktree h self route s1 = (Inr [], s2) \<and>
        asks (inspects route) s s2 \<and> asks (inspects route) s2 t \<and> (exists \<longrightarrow> safe_switch h self route branch t) \<and>
        git_command route (''switch'' # (if exists then [branch] else [''-c'', branch])) c \<and>
        after = (launched t @ [c], staged s))"

lemma branch_checks_inspects: "evolves (asks (inspects route)) (branch_checks h self route branch)"
  unfolding branch_checks_def
  by (intro inspecting safe_mutation_inspects dirty_worktree_inspects switch_targets_inspects) (simp_all add: INSPECTIONS_def)

lemma switch_targets_Inr: "assert_switch_targets_safe h self route b s = (Inr (), t) \<Longrightarrow> safe_switch h self route b t"
proof -
  assume "assert_switch_targets_safe h self route b s = (Inr (), t)"
  then obtain out err ys where "run_git h self route [''diff'', ''--name-only'', ''-z'', ''HEAD'', b, ''--''] s = (Inr (0, out, err), t)"
    and m: "mapR (\<lambda>e. permitted (symlinks (fs h)) (route_root h route) (slashes e)) (zero_split out) = Inr ys"
    unfolding assert_switch_targets_safe_def by (auto elim!: bindM_InrE split: if_splits)
  with mapR_ok [OF m] show ?thesis unfolding safe_switch_def by blast
qed

lemma branch_checks_Inr:
  assumes "branch_checks h self route branch s = (Inr exists, t)"
  shows "audited h self route s \<and> (exists \<longrightarrow> safe_switch h self route branch t) \<and>
    (\<exists>s1 s2. dirty_worktree h self route s1 = (Inr [], s2) \<and> asks (inspects route) s s2 \<and> asks (inspects route) s2 t)"
proof -
  let ?ask = "\<lambda>args. run_git h self route args"
  from assms obtain s1 s2 s3 s4 out err found o2 e2 where 1: "assert_safe_git_mutation h self route s = (Inr (), s1)"
    "?ask [''check-ref-format'', ''--branch'', branch] s1 = (Inr (0, out, err), s2)"
    "dirty_worktree h self route s2 = (Inr [], s3)"
    "?ask [''show-ref'', ''--verify'', ''--quiet'', ''refs/heads/'' @ branch] s3 = (Inr (found, o2, e2), s4)"
    and 2: "(exists \<and> assert_switch_targets_safe h self route branch s4 = (Inr (), t)) \<or> (\<not> exists \<and> t = s4)"
    unfolding branch_checks_def by (auto elim!: bindM_InrE split: if_splits)
  have "asks (inspects route) s s1" "asks (inspects route) s1 s2" "asks (inspects route) s2 s3" "asks (inspects route) s3 s4"
    using evolvesD [OF safe_mutation_inspects 1(1)] evolvesD [OF inspection(1) 1(2)] evolvesD [OF dirty_worktree_inspects 1(3)]
      evolvesD [OF inspection(1) 1(4)] by (simp_all add: INSPECTIONS_def)
  moreover have "asks (inspects route) s4 t" using 2 evolvesD [OF switch_targets_inspects] asking.R_refl by blast
  ultimately have "asks (inspects route) s s3" "asks (inspects route) s3 t" by (blast intro: asking.R_trans)+
  with 1 2 show ?thesis using audited_now switch_targets_Inr by blast
qed

lemma branch_locked_runs:
  assumes "branch_locked h self route pid branch s = (r, s')"
  shows "(asks (inspects route) s s' \<and> \<not> is_ok r) \<or> switching h self route branch s (own_part s')"
  using assms [unfolded branch_locked_def] branch_checks_inspects
proof (cases rule: checked_run)
  case (ran exists t u c)
  from ran(4-6) have "own_part s' = (launched t @ [c], staged s)" by (auto simp: own_part_def)
  moreover have "git_command route (''switch'' # (if exists then [branch] else [''-c'', branch])) c"
    using ran(3) by (cases exists) simp_all
  ultimately show ?thesis using branch_checks_Inr [OF ran(1)] unfolding switching_def by blast
qed simp

lemma git_branch_runs:
  assumes "git_branch h self pid name s = (r, s')" and "secluded h"
    and "get_route (registry self) pid = Some route"
  shows "(asks (inspects route) s s' \<and> (is_ok r \<longrightarrow> r = Inr (not_applicable ''GIT_BRANCH'' pid))) \<or>
    (strip_ws name \<noteq> '''' \<and> \<not> startswith (strip_ws name) ''-'' \<and> \<not> search CONTROL_RE (strip_ws name) \<and>
     switching h self route (strip_ws name) s (own_part s'))"
proof -
  let ?b = "strip_ws name"
  have body: "(asks (inspects route) s1 s2 \<and> \<not> is_ok q) \<or> switching h self route ?b s (own_part s2)"
    if "own_part s1 = own_part s" "branch_locked h self route pid ?b s1 = (q, s2)" for s1 q s2
    using branch_locked_runs [OF that(2)] that(1) by (simp add: switching_def audited_def asks_def own_part_def)
  from in_repository_runs [OF assms(1) [unfolded git_branch_def] assms(3)]
  consider "own_part s' = own_part s" "is_ok r \<longrightarrow> r = Inr (not_applicable ''GIT_BRANCH'' pid)"
    | "?b \<noteq> ''''" "\<not> startswith ?b ''-''" "\<not> search CONTROL_RE ?b"
      "git_locked h self route (branch_locked h self route pid ?b) s = (r, s')"
    by (auto split: if_splits simp: own_part_def Let_def)
  then show ?thesis
  proof cases
    case 2
    from git_locked_runs [where Q = "\<lambda>_. switching h self route ?b s", OF 2(4) assms(2) body] 2 show ?thesis by blast
  qed (simp add: asks_frame)
qed

section \<open>Bounded reads\<close>

definition bounded :: "git_read \<Rightarrow> bool" where
  "bounded d \<longleftrightarrow> (\<exists>m. byte_limit d = JInt (int m) \<and> length (encode (shown d)) \<le> m) \<and>
     length (encode (error_output d)) \<le> ERROR_BYTES"

lemma read_report_Inr:
  assumes "read_report h self pid route args ps n s = (Inr v, s')"
  shows "\<exists>d. v = Read d \<and> bounded d \<and> read_paths d = ps"
proof -
  from assms obtain m rc out err t et where m: "validate_max_bytes n = Inr m"
    and v: "v = Read \<lparr>read_status = (if rc = 0 then ''PASS'' else ''FAIL''), read_project = pid, exit_code = rc,
      shown = fit_bytes out m, truncated = t, byte_limit = n, read_paths = ps,
      error_output = fit_bytes err ERROR_BYTES, error_truncated = et\<rparr>"
    unfolding read_report_def capped_git_read_def by (auto elim!: bindM_InrE)
  from m have "n = JInt (int m)" by (auto simp: validate_max_bytes_def split: json.splits if_splits)
  with v show ?thesis by (simp add: bounded_def fit_bytes_limit)
qed

lemma git_status_runs:
  assumes "git_status h self pid n s = (r, s')" and "get_route (registry self) pid = Some route"
  shows "asks (inspects route) s s' \<and> (\<forall>v. r = Inr v \<longrightarrow> v = not_applicable ''READ_INSPECTION'' pid \<or> (\<exists>d. v = Read d \<and> bounded d))"
proof -
  have "evolves (asks (inspects route)) (bindM (assert_safe_git_repo h self route) (\<lambda>_.
     read_report h self pid route [''status'', ''--porcelain=v1'', ''-b''] [] n))"
    by (intro asking.combinators safe_repo_inspects read_report_inspects) (simp_all add: INSPECTIONS_def)
  from evolvesD [OF this] in_repository_runs [OF assms(1) [unfolded git_status_def] assms(2)] show ?thesis
    using asking.R_refl by (auto elim!: bindM_InrE dest!: read_report_Inr)
qed

lemma git_log_runs:
  assumes "git_log h self pid c n s = (r, s')" and "get_route (registry self) pid = Some route"
  shows "asks (inspects route) s s' \<and> (\<forall>v. r = Inr v \<longrightarrow> v = not_applicable ''READ_INSPECTION'' pid \<or> (\<exists>d. v = Read d \<and> bounded d))"
proof -
  have "evolves (asks (inspects route)) (bindM (assert_safe_git_repo h self route) (\<lambda>_.
     read_report h self pid route [''log'', ''-n'' @ int_digits (min (max 1 c) 100), ''--oneline''] [] n))"
    by (intro asking.combinators safe_repo_inspects read_report_inspects) (simp_all add: INSPECTIONS_def)
  from evolvesD [OF this] in_repository_runs [OF assms(1) [unfolded git_log_def Let_def] assms(2)] show ?thesis
    using asking.R_refl by (auto elim!: bindM_InrE dest!: read_report_Inr)
qed

lemma git_diff_runs:
  assumes "git_diff h self pid path paths n s = (r, s')" and "get_route (registry self) pid = Some route"
  shows "asks (inspects route) s s' \<and> (\<forall>v. r = Inr v \<longrightarrow> v = not_applicable ''READ_INSPECTION'' pid \<or>
    (\<exists>d items. v = Read d \<and> bounded d \<and> requested_paths paths path = Inr items \<and> items \<noteq> [] \<and>
       list_all2 (named_exactly h route diff_item) items (read_paths d)))"
proof -
  let ?body = "bindM (readM (\<lambda>_. requested_paths paths path)) (\<lambda>requested.
     if requested = [] then raise ValueError
     else bindM (assert_safe_git_repo h self route) (\<lambda>_.
     bindM (exact_paths h self route diff_item requested) (\<lambda>resolved.
     read_report h self pid route ([''diff'', ''--no-ext-diff'', ''--no-textconv'', ''--''] @ resolved) resolved n)))"
  have ev: "evolves (asks (inspects route)) ?body"
    by (intro asking.combinators safe_repo_inspects exact_paths_inspects read_report_inspects) (simp_all add: INSPECTIONS_def)
  have res: "\<exists>d items. v = Read d \<and> bounded d \<and> requested_paths paths path = Inr items \<and> items \<noteq> [] \<and>
       list_all2 (named_exactly h route diff_item) items (read_paths d)" if "?body s = (Inr v, s')" for v
    using that by (fastforce elim!: bindM_InrE split: if_splits dest!: read_report_Inr dest: exact_paths_Inr)
  from in_repository_runs [OF assms(1) [unfolded git_diff_def] assms(2)] show ?thesis
  proof
    assume run: "?body s = (r, s')"
    show ?thesis using evolvesD [OF ev run] res run by blast
  qed (use asking.R_refl in auto)
qed

section \<open>Every call\<close>

datatype git_call =
    Status json | History int json | Difference json json json
  | Stage "string list" | Commit string | Switch string

fun git_step :: "host \<Rightarrow> executor \<Rightarrow> string \<Rightarrow> git_call \<Rightarrow> (exec_state, git_reply) M" where
  "git_step h self pid (Status n) = git_status h self pid n"
| "git_step h self pid (History c n) = git_log h self pid c n"
| "git_step h self pid (Difference path paths n) = git_diff h self pid path paths n"
| "git_step h self pid (Stage ps) = git_stage h self pid ps"
| "git_step h self pid (Commit m) = git_commit h self pid m"
| "git_step h self pid (Switch b) = git_branch h self pid b"

fun change_of :: "git_call \<Rightarrow> string option" where
  "change_of (Stage _) = Some ''add''"
| "change_of (Commit _) = Some ''commit''"
| "change_of (Switch _) = Some ''switch''"
| "change_of _ = None"

text \<open>C34. What a Git read returns is bounded: the text encodes to no more bytes than the requested
  maximum, a whole number that is not negative, and the error text to no more than 32 KiB. A diff names at
  least one file, and each is one the request names exactly and the boundary checks permit. Reads only
  inspect the repository.\<close>

theorem git_reads_bounded:
  assumes "change_of call = None" and "git_step h self pid call s = (Inr (Read d), s')"
    and "get_route (registry self) pid = Some route"
  shows "asks (inspects route) s s' \<and> bounded d \<and>
    (\<forall>path paths n. call = Difference path paths n \<longrightarrow> (\<exists>items. requested_paths paths path = Inr items \<and>
       items \<noteq> [] \<and> list_all2 (named_exactly h route diff_item) items (read_paths d)))"
proof (cases call)
  case (Status n)
  with assms(2) git_status_runs [OF _ assms(3)] show ?thesis by (fastforce simp: not_applicable_def)
next
  case (History c n)
  with assms(2) git_log_runs [OF _ assms(3)] show ?thesis by (fastforce simp: not_applicable_def)
next
  case (Difference path paths n)
  with assms(2) git_diff_runs [OF _ assms(3)] show ?thesis by (fastforce simp: not_applicable_def)
qed (use assms(1) in simp_all)

text \<open>A log that grew by commands of which all but the last inspect.\<close>

definition one_change :: "route \<Rightarrow> string option \<Rightarrow> exec_state \<Rightarrow> command list \<Rightarrow> bool" where
  "one_change route op s lg \<longleftrightarrow> (\<exists>cs. lg = launched s @ cs \<and>
     (\<forall>c \<in> set cs. inspects route c \<or> c = last cs \<and> (\<exists>args. git_command route args c \<and> args \<noteq> [] \<and> Some (hd args) = op)))"

lemma one_change_inspect: "asks (inspects route) s t \<Longrightarrow> one_change route op s (launched t)"
  by (auto simp: one_change_def asks_def)

lemma one_change_last:
  "asks (inspects route) s t \<Longrightarrow> git_command route (a # as) c \<Longrightarrow> one_change route (Some a) s (launched t @ [c])"
  by (fastforce simp: one_change_def asks_def)

lemma stage_change: "staging h self route pid ps s ok after \<Longrightarrow> one_change route (Some ''add'') s (fst after)"
  unfolding staging_def by (auto intro: one_change_last)

lemma commit_change: "committing h self route pid m s ok after \<Longrightarrow> one_change route (Some ''commit'') s (fst after)"
  unfolding committing_def by (auto intro: one_change_last)

lemma switch_change:
  assumes "switching h self route b s after"
  shows "one_change route (Some ''switch'') s (fst after)"
proof -
  from assms obtain exists t c s2 where "asks (inspects route) s s2" "asks (inspects route) s2 t"
    "git_command route (''switch'' # (if exists then [b] else [''-c'', b])) c" "after = (launched t @ [c], staged s)"
    unfolding switching_def by blast
  then show ?thesis by (auto intro: one_change_last asking.R_trans)
qed


text \<open>C31. If staging does anything but inspect, or reports success, then it starts \<open>git add\<close> once, as its last
  command, with files each of which the request names exactly and the boundary checks permit, after the audit
  passed and when Git listed nothing as staged that is not among them or owned by the session; exactly these
  files become owned.\<close>

theorem stage_adds_permitted_files:
  assumes "git_stage h self pid paths s = (r, s')" and "secluded h" and "get_route (registry self) pid = Some route"
    and "\<not> asks (inspects route) s s' \<or> (is_ok r \<and> r \<noteq> Inr (not_applicable ''GIT_STAGE'' pid))"
  shows "\<exists>ps current t c. audited h self route s \<and> list_all2 (named_exactly h route stage_item) paths ps \<and>
    listed h self route current t \<and> set current \<subseteq> set ps \<union> set (owned_paths pid s) \<and>
    asks (inspects route) s t \<and> git_command route ([''add'', ''--''] @ ps) c \<and> launched s' = launched t @ [c] \<and>
    (staged s' = aset pid (remdups (owned_paths pid s @ ps)) (staged s) \<or> \<not> is_ok r \<and> staged s' = staged s)"
proof -
  from git_stage_runs [OF assms(1-3)] assms(4) have "staging h self route pid paths s (is_ok r) (own_part s')" by blast
  then show ?thesis by (simp add: staging_def own_part_def)
qed

text \<open>C32. If committing does anything but inspect, or reports success, then it starts \<open>git commit\<close> once, as
  its last command, after the audit passed, and what Git listed as staged just before is not empty, owned by
  the session and permitted, file by file; the message has no control character. After a success the session
  owns nothing in the project.\<close>

theorem commit_takes_owned_files:
  assumes "git_commit h self pid message s = (r, s')" and "secluded h" and "get_route (registry self) pid = Some route"
    and "\<not> asks (inspects route) s s' \<or> (is_ok r \<and> r \<noteq> Inr (not_applicable ''GIT_COMMIT'' pid))"
  shows "strip_ws message \<noteq> '''' \<and> \<not> search CONTROL_RE (strip_ws message) \<and>
    (\<exists>current t c. audited h self route s \<and> listed h self route current t \<and> current \<noteq> [] \<and>
      set current \<subseteq> set (owned_paths pid s) \<and>
      (\<forall>f \<in> set current. is_ok (permitted (symlinks (fs h)) (route_root h route) f)) \<and>
      asks (inspects route) s t \<and> git_command route [''commit'', ''-m'', strip_ws message] c \<and>
      launched s' = launched t @ [c] \<and>
      (staged s' = adel pid (staged s) \<or> \<not> is_ok r \<and> staged s' = staged s))"
proof -
  from git_commit_runs [OF assms(1-3)] assms(4)
  have "strip_ws message \<noteq> '''' \<and> \<not> search CONTROL_RE (strip_ws message) \<and>
    committing h self route pid (strip_ws message) s (is_ok r) (own_part s')" by blast
  then show ?thesis by (simp add: committing_def own_part_def)
qed


section \<open>Examples\<close>

text \<open>A repository at \<open>/p\<close> with a branch and one file, answered for by a program that exits with 0.\<close>

definition git_answers :: launcher where
  "git_answers _ c w = (Exited 0 (case drop 11 (argv c) of
       [] \<Rightarrow> []
     | a # as \<Rightarrow> if a = ''rev-parse'' then ''/p'' @ [chr 10]
         else if a = ''diff'' \<and> ''--name-only'' \<in> set as then ''a'' @ [chr 0]
         else if a = ''log'' then ''c0ffee first'' else []) [], w)"

definition git_host :: host where
  "git_host = example_host\<lparr>plat := \<lparr>ambient = [], which = (\<lambda>_ _. Some ''/bin/git''), launcher = git_answers\<rparr>\<rparr>"

definition git_state :: exec_state where
  "git_state = example_state\<lparr>wd := small_world\<lparr>disk := [(''/p'', Dir), (''/p/.git'', Dir), (''/p/a'', Reg ''x'')]\<rparr>,
     staged := [(''p'', [''a''])]\<rparr>"

definition passes :: "git_reply result \<Rightarrow> bool" where
  "passes r = (case r of Inr (Plain d) \<Rightarrow> dget d ''status'' = JStr ''PASS'' | Inr (Read d) \<Rightarrow> read_status d = ''PASS'' | _ \<Rightarrow> False)"

lemma passes_done: "passes r \<Longrightarrow> is_ok r \<and> r \<noteq> Inr (not_applicable op pid)"
  by (auto simp: passes_def not_applicable_def split: sum.splits git_reply.splits)

lemma git_host_secluded: "secluded git_host"
  by (simp add: secluded_def git_host_def example_host_def)

lemma git_route: "get_route (registry (example_executor st)) ''p'' = Some (example_route st)"
  by (simp add: example_executor_def get_route_make example_route_def)

abbreviation git_executor :: executor where
  "git_executor \<equiv> example_executor ''active''"

abbreviation git_example :: route where
  "git_example \<equiv> example_route ''active''"

lemma split_run: "P (fst m) \<Longrightarrow> (\<And>r s. m = (r, s) \<Longrightarrow> P r \<Longrightarrow> thesis) \<Longrightarrow> thesis"
  by (cases m) simp

lemma ok_unit: "is_ok (fst m) \<Longrightarrow> m = (Inr (), snd m)"
  by (cases m) (auto elim: is_ok.elims)

lemma staged_run:
  obtains r s' where "git_stage git_host git_executor ''p'' [''a''] git_state = (r, s')" "passes r"
proof -
  have "passes (fst (git_stage git_host git_executor ''p'' [''a''] git_state))" by code_simp
  then show thesis using that by (rule split_run)
qed

lemma committed_run:
  obtains r s' where "git_commit git_host git_executor ''p'' '' fix '' git_state = (r, s')" "passes r"
proof -
  have "passes (fst (git_commit git_host git_executor ''p'' '' fix '' git_state))" by code_simp
  then show thesis using that by (rule split_run)
qed

lemma switched_run:
  obtains r s' where "git_branch git_host git_executor ''p'' ''dev'' git_state = (r, s')" "passes r"
proof -
  have "passes (fst (git_branch git_host git_executor ''p'' ''dev'' git_state))" by code_simp
  then show thesis using that by (rule split_run)
qed


theorem stage_adds_permitted_files_witness:
  "\<exists>s' ps c. list_all2 (named_exactly git_host git_example stage_item) [''a''] ps \<and>
     git_command git_example ([''add'', ''--''] @ ps) c \<and> last (launched s') = c \<and>
     snd (git_stage git_host git_executor ''p'' [''a''] git_state) = s'"
proof -
  obtain r s' where run: "git_stage git_host git_executor ''p'' [''a''] git_state = (r, s')" and r: "passes r"
    by (rule staged_run)
  from stage_adds_permitted_files [OF run git_host_secluded git_route disjI2 [OF passes_done [OF r]]]
  obtain ps c where "list_all2 (named_exactly git_host git_example stage_item) [''a''] ps"
    "git_command git_example ([''add'', ''--''] @ ps) c" "last (launched s') = c" by (elim exE conjE) (rule that, assumption+, simp)
  moreover from run have "snd (git_stage git_host git_executor ''p'' [''a''] git_state) = s'" by simp
  ultimately show ?thesis by (intro exI conjI)
qed

theorem commit_takes_owned_files_witness:
  "\<exists>s' current c. current \<noteq> [] \<and> set current \<subseteq> set (owned_paths ''p'' git_state) \<and>
     git_command git_example [''commit'', ''-m'', strip_ws '' fix ''] c \<and> last (launched s') = c \<and>
     snd (git_commit git_host git_executor ''p'' '' fix '' git_state) = s'"
proof -
  obtain r s' where run: "git_commit git_host git_executor ''p'' '' fix '' git_state = (r, s')" and r: "passes r"
    by (rule committed_run)
  from commit_takes_owned_files [OF run git_host_secluded git_route disjI2 [OF passes_done [OF r]]]
  obtain current c where "current \<noteq> []" "set current \<subseteq> set (owned_paths ''p'' git_state)"
    "git_command git_example [''commit'', ''-m'', strip_ws '' fix ''] c" "last (launched s') = c" by (elim exE conjE) (rule that, assumption+, simp)
  moreover from run have "snd (git_commit git_host git_executor ''p'' '' fix '' git_state) = s'" by simp
  ultimately show ?thesis by (intro exI conjI)
qed


lemma log_reads:
  obtains d s' where "git_log git_host git_executor ''p'' 0 (JInt 6) git_state = (Inr (Read d), s')"
proof -
  let ?args = "[''log'', CHR ''-'' # CHR ''n'' # int_digits 1, ''--oneline'']"
  let ?audit = "assert_safe_git_repo git_host git_executor git_example git_state"
  have "is_ok (fst ?audit)" by code_simp
  then obtain a where audit: "?audit = (Inr (), a)" by (blast dest: ok_unit)
  have "(case fst (launch_git git_host git_executor git_example ?args (snd ?audit)) of Inr (Exited rc so se) \<Rightarrow> True | _ \<Rightarrow> False)"
    by code_simp
  then obtain rc so se where "fst (launch_git git_host git_executor git_example ?args a) = Inr (Exited rc so se)"
    unfolding audit by (auto split: sum.splits run_outcome.splits)
  then obtain s2 where launch: "launch_git git_host git_executor git_example ?args a = (Inr (Exited rc so se), s2)"
    by (cases "launch_git git_host git_executor git_example ?args a") simp
  have "is_ok (resolve_project git_host git_executor ''p'' (wd git_state))" by code_simp
  then have route: "resolve_project git_host git_executor ''p'' (wd git_state) = Inr git_example"
    by (auto simp: resolve_project_def git_route split: if_splits)
  have dir: "has_git_dir git_host git_example git_state" by code_simp
  have n: "min (max 1 0) 100 = (1 :: int)" by simp
  have "\<exists>d s'. git_log git_host git_executor ''p'' 0 (JInt 6) git_state = (Inr (Read d), s')"
    unfolding git_log_def in_repository_def Let_def n
    by (simp add: bindM_app route dir audit launch read_report_def capped_git_read_def run_git_capped_def validate_max_bytes_def)
  with that show thesis by blast
qed

theorem git_reads_bounded_witness:
  "\<exists>d s'. git_step git_host git_executor ''p'' (History 0 (JInt 6)) git_state = (Inr (Read d), s') \<and> bounded d"
proof -
  obtain d s' where "git_log git_host git_executor ''p'' 0 (JInt 6) git_state = (Inr (Read d), s')" by (rule log_reads)
  then have run: "git_step git_host git_executor ''p'' (History 0 (JInt 6)) git_state = (Inr (Read d), s')" by simp
  with git_reads_bounded [OF _ run git_route] show ?thesis by auto
qed

section \<open>What the audit does not see\<close>

text \<open>
  The key of a configuration line ends at its first equality sign. The name of a filter driver may
  contain one: the line that Git prints for \<open>filter "a=:unset"\<close> is read as another, harmless key. And
  the value of an attribute is taken after the last colon: the same driver is read as \<open>unset\<close>.
\<close>

lemma driver_with_equals_passes:
  "case config_entry (''file:.git/config'' @ chr 9 # ''filter.a=:unset.clean=run this'') of None \<Rightarrow> False | Some e \<Rightarrow> \<not> unsafe_entry e"
  by code_simp

lemma plain_driver_denied:
  "case config_entry (''file:.git/config'' @ chr 9 # ''filter.a.clean=run this'') of None \<Rightarrow> False | Some e \<Rightarrow> unsafe_entry e"
  by code_simp

lemma driver_with_colon_passes: "attr_line_safe ''f.txt: filter: a=:unset'' \<and> \<not> attr_line_safe ''f.txt: filter: a''"
  by code_simp

text \<open>When the list of attribute files cannot be read, none is searched.\<close>

lemma unlisted_attributes_pass:
  assumes "run_git h self route [''ls-files'', ''-z'', ''--'', ''.gitattributes'', ''*/.gitattributes''] s = (Inr (rc, out, err), s')"
    and "rc \<noteq> 0"
  shows "assert_no_executable_gitattributes h self route s = (Inr (), s')"
  using assms by (simp add: assert_no_executable_gitattributes_def gitattributes_files_def bindM_app)

end
