(* ===== verification/Durable.thy ===== *)
theory Durable
  imports World
begin

text \<open>
  How the stores replace a file: a temporary file is written and synced, then renamed over the target
  (\<open>durable_write_bytes\<close>, \<open>durable_replace\<close> and \<open>fsync_dir\<close> of
  \<open>src/jvc/recovery/store.py\<close>, \<open>_durable_write_text\<close> and \<open>_sync_dir\<close> of
  \<open>src/jvc/policy/authority.py\<close>), call by call, with the system call that fails or loses power
  chosen by a schedule.

  A volume has what processes see (\<open>names\<close>, \<open>contents\<close>) and what a restart may find: one of the
  directories since the last sync of it (\<open>names\<close> or one of \<open>earlier\<close>), and the content of an
  inode only if it was synced; of any other inode the content is arbitrary.
\<close>

datatype fault = Fine | Refuses | Breaks nat | Outage

record volume =
  names :: "(string, nat) alist"
  earlier :: "(string, nat) alist list"
  contents :: "(nat, bytes) alist"
  synced :: "nat list"
  next_inode :: nat
  faults :: "fault list"

text \<open>One system call: \<open>left\<close> is what a broken or interrupted one leaves (\<open>Some n\<close>: after \<open>n\<close> bytes).\<close>

definition sys :: "(nat option \<Rightarrow> volume \<Rightarrow> volume) \<Rightarrow> (volume \<Rightarrow> volume) \<Rightarrow> (volume, unit) M" where
  "sys left full = (\<lambda>v. case faults v of
      [] \<Rightarrow> (Inr (), full v)
    | f # fs \<Rightarrow> (let u = v\<lparr>faults := fs\<rparr> in case f of
          Fine \<Rightarrow> (Inr (), full u)
        | Refuses \<Rightarrow> (Inl PermissionError, u)
        | Breaks n \<Rightarrow> (Inl OSError, left (Some n) u)
        | Outage \<Rightarrow> (Inl PowerLoss, left None u)))"

definition unchanged :: "nat option \<Rightarrow> volume \<Rightarrow> volume" where
  "unchanged _ v = v"

definition set_names :: "(string, nat) alist \<Rightarrow> volume \<Rightarrow> volume" where
  "set_names d v = v\<lparr>names := d, earlier := names v # earlier v\<rparr>"

section \<open>The calls\<close>

definition make_parents :: "(volume, unit) M" where
  "make_parents = sys unchanged (\<lambda>v. v)"

text \<open>\<open>tempfile.mkstemp\<close>: a name nobody uses, or \<open>FileExistsError\<close>.\<close>

definition new_file :: "string \<Rightarrow> volume \<Rightarrow> volume" where
  "new_file t v = (set_names (aset t (next_inode v) (names v)) v)
     \<lparr>contents := aset (next_inode v) [] (contents v), next_inode := Suc (next_inode v)\<rparr>"

definition mkstemp :: "string \<Rightarrow> (volume, nat) M" where
  "mkstemp t =
     bindM (readM (\<lambda>v. if aget (names v) t \<noteq> None then Inl FileExistsError else Inr (next_inode v))) (\<lambda>i.
     bindM (sys unchanged (new_file t)) (\<lambda>_. ret i))"

definition append_data :: "nat \<Rightarrow> bytes \<Rightarrow> volume \<Rightarrow> volume" where
  "append_data i b v = v\<lparr>contents := aset i ((case aget (contents v) i of None \<Rightarrow> [] | Some a \<Rightarrow> a) @ b) (contents v),
     synced := filter (\<lambda>j. j \<noteq> i) (synced v)\<rparr>"

text \<open>\<open>stream.write\<close> and \<open>stream.flush\<close>: the data reach the operating system when the buffer is flushed.\<close>

definition write_data :: "nat \<Rightarrow> bytes \<Rightarrow> (volume, unit) M" where
  "write_data i b = sys (\<lambda>n. append_data i (case n of None \<Rightarrow> b | Some k \<Rightarrow> take k b)) (append_data i b)"

definition sync_data :: "nat \<Rightarrow> (volume, unit) M" where
  "sync_data i = sys unchanged (\<lambda>v. v\<lparr>synced := i # synced v\<rparr>)"

text \<open>\<open>os.replace\<close>; power lost in the middle leaves the old or the new directory.\<close>

definition renamed :: "string \<Rightarrow> string \<Rightarrow> (string, nat) alist \<Rightarrow> (string, nat) alist" where
  "renamed src dst d = (case aget d src of None \<Rightarrow> d | Some i \<Rightarrow> aset dst i (adel src d))"

definition os_replace :: "string \<Rightarrow> string \<Rightarrow> (volume, unit) M" where
  "os_replace src dst = sys
     (\<lambda>n v. if n = None then v\<lparr>earlier := renamed src dst (names v) # earlier v\<rparr> else v)
     (\<lambda>v. set_names (renamed src dst (names v)) v)"

fun replace_loop :: "nat \<Rightarrow> string \<Rightarrow> string \<Rightarrow> (volume, unit) M" where
  "replace_loop 0 src dst = raise PermissionError"
| "replace_loop (Suc n) src dst = (\<lambda>v. case os_replace src dst v of
      (Inl e, v') \<Rightarrow> (if e = PermissionError \<and> n \<noteq> 0 then replace_loop n src dst v' else (Inl e, v'))
    | (Inr x, v') \<Rightarrow> (Inr x, v'))"

definition durable_replace :: "string \<Rightarrow> string \<Rightarrow> int \<Rightarrow> (volume, unit) M" where
  "durable_replace src dst attempts = replace_loop (nat (max 1 attempts)) src dst"

definition sync_names :: "(volume, unit) M" where
  "sync_names = sys unchanged (\<lambda>v. v\<lparr>earlier := []\<rparr>)"

definition fsync_dir :: "(volume, unit) M" where
  "fsync_dir = catchM (bindM (sys unchanged (\<lambda>v. v)) (\<lambda>_. sync_names)) [OSError] (ret ())"

definition sync_dir :: "(volume, string) M" where
  "sync_dir =
     bindM (catchM (bindM (sys unchanged (\<lambda>v. v)) (\<lambda>_. ret True)) [OSError] (ret False)) (\<lambda>opened.
     if \<not> opened then ret ''unsupported''
     else catchM (bindM sync_names (\<lambda>_. ret ''synced'')) [OSError] (ret ''failed''))"

definition unlink_name :: "string \<Rightarrow> (volume, unit) M" where
  "unlink_name t = sys unchanged (\<lambda>v. set_names (adel t (names v)) v)"

text \<open>\<open>finally: if temp_path.exists(): temp_path.unlink(missing_ok=True)\<close>.\<close>

definition removing :: "string \<Rightarrow> (volume, unit) M \<Rightarrow> (volume, unit) M" where
  "removing t m = (\<lambda>v. case m v of (r, v') \<Rightarrow>
     if r = Inl PowerLoss \<or> aget (names v') t = None then (r, v')
     else case unlink_name t v' of (Inl e, v'') \<Rightarrow> (Inl e, v'') | (Inr _, v'') \<Rightarrow> (r, v''))"

section \<open>The writers\<close>

text \<open>\<open>t\<close> is the name \<open>mkstemp\<close> chooses.\<close>

definition durable_write_bytes :: "string \<Rightarrow> string \<Rightarrow> bytes \<Rightarrow> (volume, unit) M" where
  "durable_write_bytes t p data =
     bindM make_parents (\<lambda>_.
     bindM (mkstemp t) (\<lambda>i.
     removing t (
       bindM (write_data i data) (\<lambda>_.
       bindM (sync_data i) (\<lambda>_.
       bindM (durable_replace t p 4) (\<lambda>_.
       fsync_dir))))))"

text \<open>\<open>_sync_file\<close> turns a failure of \<open>fsync\<close> into \<open>PersistenceError\<close>.\<close>

definition sync_file :: "nat \<Rightarrow> (volume, unit) M" where
  "sync_file i = catchM (sync_data i) [OSError] (raise PersistenceError)"

definition durable_write_text :: "string \<Rightarrow> string \<Rightarrow> string \<Rightarrow> (volume, unit) M" where
  "durable_write_text t p s =
     bindM make_parents (\<lambda>_.
     bindM (mkstemp t) (\<lambda>i.
     removing t (
       bindM (write_data i (utf8 s)) (\<lambda>_.
       bindM (sync_file i) (\<lambda>_.
       bindM (os_replace t p) (\<lambda>_.
       bindM sync_dir (\<lambda>_. ret ())))))))"

section \<open>What is seen and what may be found\<close>

definition visible :: "volume \<Rightarrow> string \<Rightarrow> bytes option" where
  "visible v p = (case aget (names v) p of None \<Rightarrow> None | Some i \<Rightarrow> aget (contents v) i)"

definition found :: "volume \<Rightarrow> string \<Rightarrow> bytes option \<Rightarrow> bool" where
  "found v p c \<longleftrightarrow> (\<exists>d \<in> set (names v # earlier v). case aget d p of
      None \<Rightarrow> c = None
    | Some i \<Rightarrow> c \<noteq> None \<and> (i \<in> set (synced v) \<longrightarrow> c = aget (contents v) i))"

text \<open>Inodes are given out once, and an inode with a name has a content.\<close>

definition sound :: "volume \<Rightarrow> bool" where
  "sound v \<longleftrightarrow> (\<forall>d \<in> set (names v # earlier v). \<forall>q i. aget d q = Some i \<longrightarrow> i < next_inode v \<and> aget (contents v) i \<noteq> None)"

text \<open>
  How a replacement of \<open>p\<close> by \<open>data\<close> through the new inode \<open>i\<close> stands: the other inodes are
  untouched, and a directory that may be found is an old one but for the temporary name, or names the new inode, complete and
  synced. \<open>full\<close> tells whether the rename has happened.
\<close>

definition replacing :: "string \<Rightarrow> string \<Rightarrow> bytes \<Rightarrow> nat \<Rightarrow> volume \<Rightarrow> bool \<Rightarrow> volume \<Rightarrow> bool" where
  "replacing t p data i v0 full v \<longleftrightarrow>
     (\<forall>j. j \<noteq> i \<longrightarrow> aget (contents v) j = aget (contents v0) j \<and> (j \<in> set (synced v) \<longleftrightarrow> j \<in> set (synced v0))) \<and>
     (\<forall>d \<in> set (names v # earlier v). \<exists>d0 \<in> set (names v0 # earlier v0). \<forall>q. q \<noteq> t \<longrightarrow>
        aget d q = aget d0 q \<or> q = p \<and> aget d q = Some i \<and> i \<in> set (synced v) \<and> aget (contents v) i = Some data) \<and>
     (\<forall>q. q \<noteq> t \<longrightarrow> aget (names v) q = (if full \<and> q = p then Some i else aget (names v0) q)) \<and>
     (full \<longrightarrow> aget (names v) t = None \<and> i \<in> set (synced v) \<and> aget (contents v) i = Some data)"

section \<open>Rules for the calls\<close>

definition triple :: "(volume \<Rightarrow> bool) \<Rightarrow> (volume, 'a) M \<Rightarrow> ('a \<Rightarrow> volume \<Rightarrow> bool) \<Rightarrow> (exn \<Rightarrow> volume \<Rightarrow> bool) \<Rightarrow> bool" where
  "triple P m Q E \<longleftrightarrow> (\<forall>v r v'. P v \<longrightarrow> m v = (r, v') \<longrightarrow> (case r of Inr x \<Rightarrow> Q x v' | Inl e \<Rightarrow> E e v'))"

lemma tripleD: "triple P m Q E \<Longrightarrow> P v \<Longrightarrow> m v = (r, v') \<Longrightarrow> (case r of Inr x \<Rightarrow> Q x v' | Inl e \<Rightarrow> E e v')"
  by (simp add: triple_def)

lemma triple_bind:
  assumes "triple P m Q E" and "\<And>x. triple (Q x) (f x) R E"
  shows "triple P (bindM m f) R E"
  unfolding triple_def
proof (intro allI impI)
  fix v r v'
  assume P: "P v" and run: "bindM m f v = (r, v')"
  obtain a u where m: "m v = (a, u)" by (cases "m v")
  from tripleD [OF assms(1) P m] run m show "case r of Inr x \<Rightarrow> R x v' | Inl e \<Rightarrow> E e v'"
    using tripleD [OF assms(2)] by (cases a) (auto simp: bindM_app)
qed

lemma triple_ret: "(\<And>v. P v \<Longrightarrow> Q x v) \<Longrightarrow> triple P (ret x) Q E"
  by (simp add: triple_def)

lemma triple_raise: "(\<And>v. P v \<Longrightarrow> E e v) \<Longrightarrow> triple P (raise e) Q E"
  by (simp add: triple_def)

lemma triple_catch:
  assumes "triple P m Q F" and "\<And>e v. F e v \<Longrightarrow> \<not> (\<exists>c \<in> set cs. is_a e c) \<Longrightarrow> E e v"
    and "triple (\<lambda>v. \<exists>e. F e v \<and> (\<exists>c \<in> set cs. is_a e c)) h Q E"
  shows "triple P (catchM m cs h) Q E"
  unfolding triple_def
proof (intro allI impI)
  fix v r v'
  assume P: "P v" and run: "catchM m cs h v = (r, v')"
  obtain a u where m: "m v = (a, u)" by (cases "m v")
  show "case r of Inr x \<Rightarrow> Q x v' | Inl e \<Rightarrow> E e v'"
  proof (cases a)
    case (Inl e)
    with tripleD [OF assms(1) P m] have F: "F e u" by simp
    show ?thesis
    proof (cases "\<exists>c \<in> set cs. is_a e c")
      case True
      with run m Inl have "h u = (r, v')" by (simp add: catchM_def)
      with tripleD [OF assms(3)] F True show ?thesis by blast
    next
      case False
      with run m Inl assms(2) [OF F] show ?thesis by (auto simp: catchM_def)
    qed
  next
    case (Inr x)
    with tripleD [OF assms(1) P m] run m show ?thesis by (auto simp: catchM_def)
  qed
qed

lemma triple_sys:
  assumes "\<And>v. P v \<Longrightarrow> Q () (full v)"
    and "\<And>v fs. P v \<Longrightarrow> P (v\<lparr>faults := fs\<rparr>)"
    and "\<And>v. P v \<Longrightarrow> E PermissionError v"
    and "\<And>v n. P v \<Longrightarrow> E OSError (left (Some n) v)"
    and "\<And>v. P v \<Longrightarrow> E PowerLoss (left None v)"
  shows "triple P (sys left full) Q E"
  using assms by (auto simp: triple_def sys_def Let_def split: list.splits fault.splits)

lemma triple_at: "triple P (m i) Q E \<Longrightarrow> triple (\<lambda>v. x = i \<and> P v) (m x) Q E"
  by (auto simp: triple_def)

section \<open>The replacement, call by call\<close>

text \<open>Before the rename: every directory that may be found is an old one but for the temporary name.\<close>

definition pending :: "string \<Rightarrow> nat \<Rightarrow> volume \<Rightarrow> volume \<Rightarrow> bool" where
  "pending t i v0 v \<longleftrightarrow>
     (\<forall>j. j \<noteq> i \<longrightarrow> aget (contents v) j = aget (contents v0) j \<and> (j \<in> set (synced v) \<longleftrightarrow> j \<in> set (synced v0))) \<and>
     (\<forall>d \<in> set (names v # earlier v). \<exists>d0 \<in> set (names v0 # earlier v0). \<forall>q. q \<noteq> t \<longrightarrow> aget d q = aget d0 q) \<and>
     (\<forall>q. q \<noteq> t \<longrightarrow> aget (names v) q = aget (names v0) q)"

lemma pending_replacing: "pending t i v0 v \<Longrightarrow> replacing t p data i v0 False v"
  unfolding pending_def replacing_def by (intro conjI) (blast, blast, simp, simp)

lemma replacing_faults [simp]: "replacing t p data i v0 b (v\<lparr>faults := fs\<rparr>) = replacing t p data i v0 b v"
  by (simp add: replacing_def)

lemma pending_start: "pending t i v0 v0"
  by (auto simp: pending_def)

lemma pending_faults [simp]: "pending t i v0 (v\<lparr>faults := fs\<rparr>) = pending t i v0 v"
  by (simp add: pending_def)

definition failed :: "string \<Rightarrow> string \<Rightarrow> bytes \<Rightarrow> nat \<Rightarrow> volume \<Rightarrow> exn \<Rightarrow> volume \<Rightarrow> bool" where
  "failed t p data i v0 e v \<longleftrightarrow>
     (if e = PowerLoss then \<exists>b. replacing t p data i v0 b v else is_a e OSError \<and> pending t i v0 v)"

lemma failed_pending: "pending t i v0 v \<Longrightarrow> e = PowerLoss \<or> is_a e OSError \<Longrightarrow> failed t p data i v0 e v"
  by (auto simp: failed_def intro: pending_replacing)

lemma is_a_os [simp]: "is_a PermissionError OSError" "is_a FileExistsError OSError" "is_a PersistenceError OSError"
  by (simp_all add: is_a_def)

definition holding_temp :: "string \<Rightarrow> nat \<Rightarrow> volume \<Rightarrow> bytes \<Rightarrow> volume \<Rightarrow> bool" where
  "holding_temp t i v0 b v \<longleftrightarrow> pending t i v0 v \<and> aget (names v) t = Some i \<and> aget (contents v) i = Some b"

lemma holding_temp_faults [simp]: "holding_temp t i v0 b (v\<lparr>faults := fs\<rparr>) = holding_temp t i v0 b v"
  by (simp add: holding_temp_def)

lemma make_parents_pending:
  "triple (\<lambda>v. pending t i v0 v \<and> next_inode v = i) make_parents (\<lambda>_ v. pending t i v0 v \<and> next_inode v = i) (failed t p data i v0)"
  unfolding make_parents_def by (rule triple_sys) (auto simp: unchanged_def intro: failed_pending)

lemma pending_append: "pending t i v0 v \<Longrightarrow> pending t i v0 (append_data i b v)"
  by (auto simp: pending_def append_data_def)

lemma pending_sync: "pending t i v0 v \<Longrightarrow> pending t i v0 (v\<lparr>synced := i # synced v\<rparr>)"
  by (auto simp: pending_def)

lemma pending_names:
  assumes "pending t i v0 v" and "\<And>q. q \<noteq> t \<Longrightarrow> aget d q = aget (names v) q"
  shows "pending t i v0 (set_names d v)"
proof -
  from assms have "\<exists>d0 \<in> set (names v0 # earlier v0). \<forall>q. q \<noteq> t \<longrightarrow> aget d q = aget d0 q"
    by (intro bexI [where x = "names v0"]) (simp_all add: pending_def)
  with assms show ?thesis by (simp add: pending_def set_names_def)
qed

lemma pending_unlink: "pending t i v0 v \<Longrightarrow> pending t i v0 (set_names (adel t (names v)) v)"
  by (rule pending_names) simp_all

lemma pending_content: "pending t i v0 v \<Longrightarrow> pending t i v0 (v\<lparr>contents := aset i b (contents v), next_inode := n\<rparr>)"
  by (simp add: pending_def)

lemma new_file_holds: "pending t (next_inode v) v0 v \<Longrightarrow> holding_temp t (next_inode v) v0 [] (new_file t v)"
proof -
  assume p: "pending t (next_inode v) v0 v"
  have "pending t (next_inode v) v0 (set_names (aset t (next_inode v) (names v)) v)" by (rule pending_names [OF p]) simp
  from pending_content [OF this, where b = "[]" and n = "Suc (next_inode v)"] show ?thesis
    by (simp add: holding_temp_def new_file_def set_names_def)
qed

lemma mkstemp_holds:
  "triple (\<lambda>v. pending t i v0 v \<and> next_inode v = i) (mkstemp t) (\<lambda>j v. j = i \<and> holding_temp t i v0 [] v)
     (failed t p data i v0)"
proof -
  have "triple (\<lambda>v. pending t i v0 v \<and> next_inode v = i) (sys unchanged (new_file t)) (\<lambda>_. holding_temp t i v0 []) (failed t p data i v0)"
    by (rule triple_sys) (use new_file_holds in \<open>auto simp: unchanged_def failed_pending\<close>)
  then have new: "triple (\<lambda>v. pending t i v0 v \<and> next_inode v = i) (bindM (sys unchanged (new_file t)) (\<lambda>_. ret i))
       (\<lambda>j v. j = i \<and> holding_temp t i v0 [] v) (failed t p data i v0)"
    by (rule triple_bind) (rule triple_ret, simp)
  show ?thesis
    unfolding triple_def
  proof (intro allI impI)
    fix v r v'
    assume v: "pending t i v0 v \<and> next_inode v = i" and run: "mkstemp t v = (r, v')"
    show "case r of Inr j \<Rightarrow> j = i \<and> holding_temp t i v0 [] v' | Inl e \<Rightarrow> failed t p data i v0 e v'"
    proof (cases "aget (names v) t")
      case None
      with v run show ?thesis by (intro tripleD [OF new]) (simp_all add: mkstemp_def bindM_readM)
    next
      case (Some k)
      with v run have "r = Inl FileExistsError" "v' = v" by (simp_all add: mkstemp_def bindM_readM)
      with v show ?thesis by (simp add: failed_pending)
    qed
  qed
qed

lemma write_data_holds:
  "triple (holding_temp t i v0 []) (write_data i data) (\<lambda>_. holding_temp t i v0 data) (failed t p data i v0)"
  unfolding write_data_def
  by (rule triple_sys) (auto simp: holding_temp_def intro: failed_pending pending_append, auto simp: append_data_def)

lemma sync_data_holds:
  "triple (holding_temp t i v0 data) (sync_data i) (\<lambda>_ v. holding_temp t i v0 data v \<and> i \<in> set (synced v)) (failed t p data i v0)"
  unfolding sync_data_def
  by (rule triple_sys) (auto simp: holding_temp_def unchanged_def intro: failed_pending pending_sync)

lemma renamed_get: "aget d src = Some i \<Longrightarrow> src \<noteq> dst \<Longrightarrow>
    aget (renamed src dst d) q = (if q = dst then Some i else if q = src then None else aget d q)"
  by (simp add: renamed_def)

lemma os_replace_done:
  assumes "t \<noteq> p"
  shows "triple (\<lambda>v. holding_temp t i v0 data v \<and> i \<in> set (synced v)) (os_replace t p) (\<lambda>_. replacing t p data i v0 True)
     (\<lambda>e v. failed t p data i v0 e v \<and> (e \<noteq> PowerLoss \<longrightarrow> holding_temp t i v0 data v \<and> i \<in> set (synced v)))"
  unfolding os_replace_def
proof (rule triple_sys)
  fix v
  assume "holding_temp t i v0 data v \<and> i \<in> set (synced v)"
  then have v: "pending t i v0 v" "aget (names v) t = Some i" "aget (contents v) i = Some data" "i \<in> set (synced v)"
    by (simp_all add: holding_temp_def)
  have ren: "aget (renamed t p (names v)) q = (if q = p then Some i else aget (names v0) q)" if "q \<noteq> t" for q
    using that v(1) renamed_get [OF v(2) assms] by (simp add: pending_def)
  have dirs: "\<forall>d \<in> set (renamed t p (names v) # names v # earlier v). \<exists>d0 \<in> set (names v0 # earlier v0). \<forall>q. q \<noteq> t \<longrightarrow>
        aget d q = aget d0 q \<or> q = p \<and> aget d q = Some i"
  proof
    fix d
    assume d: "d \<in> set (renamed t p (names v) # names v # earlier v)"
    show "\<exists>d0 \<in> set (names v0 # earlier v0). \<forall>q. q \<noteq> t \<longrightarrow> aget d q = aget d0 q \<or> q = p \<and> aget d q = Some i"
    proof (cases "d = renamed t p (names v)")
      case True
      with ren show ?thesis by (intro bexI [where x = "names v0"]) auto
    next
      case False
      with d v(1) show ?thesis unfolding pending_def by fastforce
    qed
  qed
  from v ren dirs renamed_get [OF v(2) assms, of t] assms
  show "replacing t p data i v0 True (set_names (renamed t p (names v)) v)"
    unfolding replacing_def set_names_def pending_def by simp
  from v ren dirs have "replacing t p data i v0 False (v\<lparr>earlier := renamed t p (names v) # earlier v\<rparr>)"
    unfolding replacing_def pending_def by simp
  then show "failed t p data i v0 PowerLoss (if None = None then v\<lparr>earlier := renamed t p (names v) # earlier v\<rparr> else v) \<and>
      (PowerLoss \<noteq> PowerLoss \<longrightarrow> holding_temp t i v0 data (if None = None then v\<lparr>earlier := renamed t p (names v) # earlier v\<rparr> else v) \<and>
        i \<in> set (synced (if None = None then v\<lparr>earlier := renamed t p (names v) # earlier v\<rparr> else v)))"
    unfolding failed_def by auto
qed (auto simp: holding_temp_def intro: failed_pending)

lemma replace_loop_done:
  assumes "t \<noteq> p"
  shows "triple (\<lambda>v. holding_temp t i v0 data v \<and> i \<in> set (synced v)) (replace_loop n t p) (\<lambda>_. replacing t p data i v0 True)
     (failed t p data i v0)"
proof (induction n)
  case 0
  show ?case unfolding replace_loop.simps by (rule triple_raise) (simp add: holding_temp_def failed_pending)
next
  case (Suc n)
  show ?case
    unfolding triple_def
  proof (intro allI impI)
    fix v r v'
    assume v: "holding_temp t i v0 data v \<and> i \<in> set (synced v)" and run: "replace_loop (Suc n) t p v = (r, v')"
    obtain a u where o: "os_replace t p v = (a, u)" by (cases "os_replace t p v")
    note res = tripleD [OF os_replace_done [OF assms] v o]
    show "case r of Inr x \<Rightarrow> replacing t p data i v0 True v' | Inl e \<Rightarrow> failed t p data i v0 e v'"
    proof (cases a)
      case (Inl e)
      show ?thesis
      proof (cases "e = PermissionError \<and> n \<noteq> 0")
        case True
        with o Inl run have "replace_loop n t p u = (r, v')" by simp
        with True Inl res show ?thesis by (intro tripleD [OF Suc.IH]) simp_all
      next
        case False
        with o Inl run res show ?thesis by auto
      qed
    qed (use o run res in auto)
  qed
qed

lemma replacing_sync: "replacing t p data i v0 True v \<Longrightarrow> replacing t p data i v0 True (v\<lparr>earlier := []\<rparr>)"
  by (auto simp: replacing_def)

lemma failed_full: "replacing t p data i v0 True v \<Longrightarrow> failed t p data i v0 PowerLoss v"
  by (auto simp: failed_def)

lemma sync_names_full:
  "triple (replacing t p data i v0 True) sync_names (\<lambda>_. replacing t p data i v0 True)
     (\<lambda>e v. replacing t p data i v0 True v \<and> (e = PowerLoss \<or> is_a e OSError))"
  unfolding sync_names_def by (rule triple_sys) (simp_all add: unchanged_def replacing_sync)

lemma open_dir_full:
  "triple (replacing t p data i v0 True) (sys unchanged (\<lambda>v. v)) (\<lambda>_. replacing t p data i v0 True)
     (\<lambda>e v. replacing t p data i v0 True v \<and> (e = PowerLoss \<or> is_a e OSError))"
  by (rule triple_sys) (simp_all add: unchanged_def)

lemma quiet_full:
  assumes "triple (replacing t p data i v0 True) m (\<lambda>_. replacing t p data i v0 True)
     (\<lambda>e v. replacing t p data i v0 True v \<and> (e = PowerLoss \<or> is_a e OSError))"
  shows "triple (replacing t p data i v0 True) (catchM m [OSError] (ret x)) (\<lambda>_. replacing t p data i v0 True)
     (failed t p data i v0)"
  by (rule triple_catch [OF assms]) (auto intro: failed_full triple_ret)

lemma fsync_dir_full:
  "triple (replacing t p data i v0 True) fsync_dir (\<lambda>_. replacing t p data i v0 True) (failed t p data i v0)"
  unfolding fsync_dir_def by (rule quiet_full, rule triple_bind [OF open_dir_full sync_names_full])

lemma sync_dir_full:
  "triple (replacing t p data i v0 True) sync_dir (\<lambda>_. replacing t p data i v0 True) (failed t p data i v0)"
  unfolding sync_dir_def
  by (rule triple_bind, rule quiet_full, rule triple_bind [OF open_dir_full triple_ret], assumption)
    (auto intro!: triple_ret quiet_full triple_bind [OF sync_names_full triple_ret])

lemma sync_file_holds:
  "triple (holding_temp t i v0 data) (sync_file i) (\<lambda>_ v. holding_temp t i v0 data v \<and> i \<in> set (synced v)) (failed t p data i v0)"
  unfolding sync_file_def
  by (rule triple_catch [OF sync_data_holds]) (auto intro!: triple_raise simp: failed_def)

lemma removing_full:
  assumes "triple P m (\<lambda>_. replacing t p data i v0 True) (failed t p data i v0)"
  shows "triple P (removing t m) (\<lambda>_. replacing t p data i v0 True) (failed t p data i v0)"
  unfolding triple_def
proof (intro allI impI)
  fix v r v'
  assume P: "P v" and run: "removing t m v = (r, v')"
  obtain a u where m: "m v = (a, u)" by (cases "m v")
  note body = tripleD [OF assms P m]
  show "case r of Inr x \<Rightarrow> replacing t p data i v0 True v' | Inl e \<Rightarrow> failed t p data i v0 e v'"
  proof (cases "a = Inl PowerLoss \<or> aget (names u) t = None")
    case True
    with m run body show ?thesis by (auto simp: removing_def)
  next
    case False
    with body obtain e where e: "a = Inl e" "is_a e OSError" and u: "pending t i v0 u"
      by (cases a) (auto simp: failed_def replacing_def split: if_splits)
    obtain b x where x: "unlink_name t u = (b, x)" by (cases "unlink_name t u")
    have "triple (pending t i v0) (unlink_name t) (\<lambda>_. pending t i v0) (failed t p data i v0)"
      unfolding unlink_name_def by (rule triple_sys) (auto simp: unchanged_def intro: failed_pending pending_unlink)
    from tripleD [OF this u x] m x e False run show ?thesis
      by (cases b) (auto simp: removing_def failed_pending split: sum.splits)
  qed
qed

lemma durable_write_bytes_stands:
  assumes "t \<noteq> p"
  shows "triple (\<lambda>v. pending t i v0 v \<and> next_inode v = i) (durable_write_bytes t p data)
     (\<lambda>_. replacing t p data i v0 True) (failed t p data i v0)"
  unfolding durable_write_bytes_def durable_replace_def
  by (rule triple_bind [OF make_parents_pending], rule triple_bind [OF mkstemp_holds], rule triple_at, rule removing_full)
    (intro triple_bind [OF write_data_holds] triple_bind [OF sync_data_holds]
       triple_bind [OF replace_loop_done [OF assms]] fsync_dir_full)

lemma durable_write_text_stands:
  assumes "t \<noteq> p"
  shows "triple (\<lambda>v. pending t i v0 v \<and> next_inode v = i) (durable_write_text t p s)
     (\<lambda>_. replacing t p (utf8 s) i v0 True) (failed t p (utf8 s) i v0)"
proof -
  have "triple (\<lambda>v. holding_temp t i v0 (utf8 s) v \<and> i \<in> set (synced v)) (os_replace t p)
     (\<lambda>_. replacing t p (utf8 s) i v0 True) (failed t p (utf8 s) i v0)"
    using os_replace_done [OF assms] unfolding triple_def by (fastforce split: sum.splits)
  note rename = this
  show ?thesis
    unfolding durable_write_text_def
    by (rule triple_bind [OF make_parents_pending], rule triple_bind [OF mkstemp_holds], rule triple_at, rule removing_full)
      (intro triple_bind [OF write_data_holds] triple_bind [OF sync_file_holds] triple_bind [OF rename]
         triple_bind [OF sync_dir_full] triple_ret, simp)
qed

section \<open>Old or new\<close>

lemma replacing_found:
  assumes "replacing t p data i v0 b v" and "sound v0" and "i = next_inode v0" and "q \<noteq> t" and "found v q c"
  shows "found v0 q c \<or> q = p \<and> c = Some data"
proof -
  from assms(5) obtain d where d: "d \<in> set (names v # earlier v)"
    and c: "case aget d q of None \<Rightarrow> c = None | Some j \<Rightarrow> c \<noteq> None \<and> (j \<in> set (synced v) \<longrightarrow> c = aget (contents v) j)"
    unfolding found_def by blast
  from assms(1) d assms(4) obtain d0 where d0: "d0 \<in> set (names v0 # earlier v0)"
    and eq: "aget d q = aget d0 q \<or> q = p \<and> aget d q = Some i \<and> i \<in> set (synced v) \<and> aget (contents v) i = Some data"
    unfolding replacing_def by blast
  show ?thesis
  proof (cases "aget d q = aget d0 q")
    case True
    have "j \<noteq> i" if "aget d0 q = Some j" for j
      using assms(2,3) d0 that unfolding sound_def by blast
    with assms(1) have same: "aget (contents v) j = aget (contents v0) j \<and> (j \<in> set (synced v) \<longleftrightarrow> j \<in> set (synced v0))"
      if "aget d0 q = Some j" for j using that unfolding replacing_def by blast
    have "case aget d0 q of None \<Rightarrow> c = None | Some j \<Rightarrow> c \<noteq> None \<and> (j \<in> set (synced v0) \<longrightarrow> c = aget (contents v0) j)"
      using c same unfolding True by (auto split: option.splits)
    with d0 have "found v0 q c" unfolding found_def by blast
    then show ?thesis ..
  next
    case False
    with eq c show ?thesis by auto
  qed
qed

lemma replacing_visible:
  assumes "replacing t p data i v0 b v" and "sound v0" and "i = next_inode v0" and "q \<noteq> t"
  shows "visible v q = (if b \<and> q = p then Some data else visible v0 q)"
proof (cases "b \<and> q = p")
  case True
  with assms(1,4) show ?thesis by (simp add: replacing_def visible_def)
next
  case False
  with assms(1,4) have n: "aget (names v) q = aget (names v0) q" unfolding replacing_def by auto
  have "aget (contents v) j = aget (contents v0) j" if "aget (names v0) q = Some j" for j
  proof -
    from assms(2,3) that have "j \<noteq> i" unfolding sound_def by auto
    with assms(1) show ?thesis by (simp add: replacing_def)
  qed
  with n False show ?thesis by (auto simp: visible_def split: option.splits)
qed

text \<open>The two writers, in the states they can be left in.\<close>

definition file_writer :: "string \<Rightarrow> string \<Rightarrow> bytes \<Rightarrow> (volume, unit) M \<Rightarrow> bool" where
  "file_writer t p data m \<longleftrightarrow> m = durable_write_bytes t p data \<or> (\<exists>s. data = utf8 s \<and> m = durable_write_text t p s)"

lemma file_writer_stands:
  assumes "file_writer t p data m" and "t \<noteq> p" and "m v = (r, v')"
  shows "case r of Inr x \<Rightarrow> replacing t p data (next_inode v) v True v' | Inl e \<Rightarrow> failed t p data (next_inode v) v e v'"
  using assms durable_write_bytes_stands [OF assms(2)] durable_write_text_stands [OF assms(2)]
  unfolding file_writer_def triple_def by (metis pending_start)

lemma sound_faults [simp]: "sound (v\<lparr>faults := fs\<rparr>) = sound v"
  by (simp add: sound_def)

lemma sys_sound:
  assumes "\<And>v. sound v \<Longrightarrow> sound (full v)" and "\<And>n v. sound v \<Longrightarrow> sound (left n v)"
  shows "evolves (carries sound) (sys left full)"
  using assms by (auto simp: evolves_def carries_def sys_def Let_def split: list.splits fault.splits)

lemma sound_names:
  assumes "sound v" and "\<And>q i. aget d q = Some i \<Longrightarrow> \<exists>q'. aget (names v) q' = Some i"
  shows "sound (set_names d v)" "sound (v\<lparr>earlier := d # earlier v\<rparr>)"
proof -
  have "i < next_inode v \<and> aget (contents v) i \<noteq> None" if d: "aget d q = Some i" for q i
  proof -
    from assms(2) [OF d] obtain q' where "aget (names v) q' = Some i" by blast
    with assms(1) show ?thesis unfolding sound_def by simp
  qed
  with assms(1) show "sound (set_names d v)" "sound (v\<lparr>earlier := d # earlier v\<rparr>)"
    unfolding sound_def set_names_def by simp_all
qed

lemma renamed_sound: "sound v \<Longrightarrow> sound (set_names (renamed src dst (names v)) v)"
    "sound v \<Longrightarrow> sound (v\<lparr>earlier := renamed src dst (names v) # earlier v\<rparr>)"
  by (rule sound_names, assumption, auto simp: renamed_def split: option.splits if_splits)+

lemma sound_synced: "sound v \<Longrightarrow> sound (v\<lparr>synced := l\<rparr>)"
  by (simp add: sound_def)

lemma sound_earlier: "sound v \<Longrightarrow> sound (v\<lparr>earlier := []\<rparr>)"
  by (simp add: sound_def)

lemma sound_append: "sound v \<Longrightarrow> sound (append_data i b v)"
  by (auto simp: sound_def append_data_def)

lemma sound_new: "sound v \<Longrightarrow> sound (new_file t v)"
  unfolding sound_def new_file_def set_names_def by (auto intro: less_SucI split: if_splits)

lemma mkstemp_sound: "evolves (carries sound) (mkstemp t)"
  unfolding mkstemp_def by (intro carry.combinators sys_sound) (simp_all add: unchanged_def sound_new)

lemma os_replace_sound: "evolves (carries sound) (os_replace src dst)"
  unfolding os_replace_def by (rule sys_sound) (auto intro: renamed_sound)

lemma replace_loop_sound: "evolves (carries sound) (replace_loop n src dst)"
proof (induction n)
  case 0
  show ?case unfolding replace_loop.simps by (rule carry.raise_evolves)
next
  case (Suc n)
  with os_replace_sound [of src dst] show ?case
    by (auto simp: evolves_def carries_def split: prod.splits sum.splits)
qed

lemma removing_sound: "evolves (carries sound) m \<Longrightarrow> evolves (carries sound) (removing t m)"
proof -
  assume m: "evolves (carries sound) m"
  have "evolves (carries sound) (unlink_name t)"
    unfolding unlink_name_def by (rule sys_sound) (auto simp: unchanged_def intro!: sound_names split: if_splits)
  with m show ?thesis
    by (auto simp: evolves_def carries_def removing_def split: prod.splits sum.splits)
qed

lemmas sounds = carry.combinators sys_sound mkstemp_sound replace_loop_sound os_replace_sound removing_sound

lemma file_writer_sound: "file_writer t p data m \<Longrightarrow> evolves (carries sound) m"
  unfolding file_writer_def durable_write_bytes_def durable_write_text_def make_parents_def write_data_def sync_data_def sync_file_def
    durable_replace_def fsync_dir_def sync_dir_def sync_names_def
  by (elim disjE exE conjE, simp_all only:) (intro sounds, simp_all add: unchanged_def sound_append sound_synced sound_earlier)+

text \<open>Without faults every call goes through.\<close>

lemma calm_sys:
  assumes "\<And>v. P v \<Longrightarrow> faults v = []" and "\<And>v. P v \<Longrightarrow> Q () (full v)"
  shows "triple P (sys left full) Q E"
  using assms by (auto simp: triple_def sys_def)

definition calm :: "string \<Rightarrow> nat option \<Rightarrow> volume \<Rightarrow> bool" where
  "calm t x v \<longleftrightarrow> faults v = [] \<and> aget (names v) t = x"

definition tidy :: "string \<Rightarrow> volume \<Rightarrow> bool" where
  "tidy t v \<longleftrightarrow> calm t None v \<and> earlier v = []"

lemma calm_mkstemp: "triple (calm t None) (mkstemp t) (\<lambda>j. calm t (Some j)) (\<lambda>_ _. False)"
proof -
  have "triple (\<lambda>v. calm t None v \<and> next_inode v = i) (bindM (sys unchanged (new_file t)) (\<lambda>_. ret i)) (\<lambda>j. calm t (Some j)) (\<lambda>_ _. False)" for i
    by (rule triple_bind [OF calm_sys [where Q = "\<lambda>_. calm t (Some i)"] triple_ret])
      (auto simp: calm_def new_file_def set_names_def)
  then show ?thesis unfolding triple_def mkstemp_def by (auto simp: bindM_readM calm_def)
qed

lemma calm_os_replace: "t \<noteq> p \<Longrightarrow> triple (calm t (Some i)) (os_replace t p) (\<lambda>_. calm t None) (\<lambda>_ _. False)"
  unfolding os_replace_def by (rule calm_sys) (simp_all add: calm_def renamed_def set_names_def)

lemma calm_replace: "t \<noteq> p \<Longrightarrow> triple (calm t (Some i)) (durable_replace t p 4) (\<lambda>_. calm t None) (\<lambda>_ _. False)"
proof -
  assume tp: "t \<noteq> p"
  have "nat (max 1 4) = Suc 3" by simp
  then have "durable_replace t p 4 = replace_loop (Suc 3) t p" by (simp only: durable_replace_def)
  moreover have "triple (calm t (Some i)) (replace_loop (Suc n) t p) (\<lambda>_. calm t None) (\<lambda>_ _. False)" for n
    unfolding triple_def
  proof (intro allI impI)
    fix v r v'
    assume v: "calm t (Some i) v" and run: "replace_loop (Suc n) t p v = (r, v')"
    obtain a u where o: "os_replace t p v = (a, u)" by (cases "os_replace t p v")
    from tripleD [OF calm_os_replace [OF tp] v o] run o show "case r of Inl e \<Rightarrow> False | Inr x \<Rightarrow> calm t None v'"
      by (cases a) auto
  qed
  ultimately show ?thesis by (simp only:)
qed

lemma calm_catch: "triple P m Q (\<lambda>_ _. False) \<Longrightarrow> triple P (catchM m cs h) Q (\<lambda>_ _. False)"
  by (rule triple_catch) (auto simp: triple_def)

lemma calm_names: "triple (calm t None) sync_names (\<lambda>_. tidy t) (\<lambda>_ _. False)"
  unfolding sync_names_def by (rule calm_sys) (simp_all add: calm_def tidy_def)

lemma calm_fsync_dir: "triple (calm t None) fsync_dir (\<lambda>_. tidy t) (\<lambda>_ _. False)"
  unfolding fsync_dir_def by (rule calm_catch, rule triple_bind [OF calm_sys calm_names]) (simp_all add: calm_def)

lemma calm_sync_dir: "triple (calm t None) sync_dir (\<lambda>_. tidy t) (\<lambda>_ _. False)"
proof -
  have "triple (calm t None) (catchM (bindM (sys unchanged (\<lambda>v. v)) (\<lambda>_. ret True)) [OSError] (ret False))
      (\<lambda>b v. b \<and> calm t None v) (\<lambda>_ _. False)"
    by (rule calm_catch, rule triple_bind [OF calm_sys [where Q = "\<lambda>_. calm t None"] triple_ret]) (simp_all add: calm_def)
  then show ?thesis
    unfolding sync_dir_def
  proof (rule triple_bind)
    fix b
    have "triple (calm t None) (catchM (bindM sync_names (\<lambda>_. ret ''synced'')) [OSError] (ret ''failed'')) (\<lambda>_. tidy t) (\<lambda>_ _. False)"
      by (rule calm_catch, rule triple_bind [OF calm_names triple_ret])
    then show "triple (\<lambda>v. b \<and> calm t None v) (if \<not> b then ret ''unsupported''
        else catchM (bindM sync_names (\<lambda>_. ret ''synced'')) [OSError] (ret ''failed'')) (\<lambda>_. tidy t) (\<lambda>_ _. False)"
      by (cases b) (auto simp: triple_def)
  qed
qed

lemma calm_removing: "triple P m (\<lambda>_. tidy t) (\<lambda>_ _. False) \<Longrightarrow> triple P (removing t m) (\<lambda>_. tidy t) (\<lambda>_ _. False)"
  by (fastforce simp: triple_def removing_def tidy_def calm_def split: prod.splits sum.splits)

lemma calm_data:
  "triple (calm t (Some i)) (write_data i b) (\<lambda>_. calm t (Some i)) (\<lambda>_ _. False)"
  "triple (calm t (Some i)) (sync_data i) (\<lambda>_. calm t (Some i)) (\<lambda>_ _. False)"
  "triple (calm t None) make_parents (\<lambda>_. calm t None) (\<lambda>_ _. False)"
  unfolding write_data_def sync_data_def make_parents_def
  by (rule calm_sys; simp add: calm_def append_data_def)+

lemma calm_writer:
  assumes "file_writer t p data m" and "t \<noteq> p" and "m v = (r, v')" and "calm t None v"
  shows "r = Inr () \<and> earlier v' = []"
proof -
  have "triple (calm t None) (durable_write_bytes t p data) (\<lambda>_. tidy t) (\<lambda>_ _. False)"
    unfolding durable_write_bytes_def
    by (intro triple_bind [OF calm_data(3)] triple_bind [OF calm_mkstemp] calm_removing triple_bind [OF calm_data(1)]
        triple_bind [OF calm_data(2)] triple_bind [OF calm_replace] calm_fsync_dir assms(2))
  moreover have "triple (calm t None) (durable_write_text t p s) (\<lambda>_. tidy t) (\<lambda>_ _. False)" for s
    unfolding durable_write_text_def sync_file_def
    by (intro triple_bind [OF calm_data(3)] triple_bind [OF calm_mkstemp] calm_removing triple_bind [OF calm_data(1)]
        triple_bind [OF calm_catch [OF calm_data(2)]] triple_bind [OF calm_os_replace] triple_bind [OF calm_sync_dir] triple_ret assms(2))
  ultimately have "triple (calm t None) m (\<lambda>_. tidy t) (\<lambda>_ _. False)" using assms(1) unfolding file_writer_def by blast
  from tripleD [OF this assms(4,3)] show ?thesis by (cases r) (simp_all add: tidy_def)
qed

text \<open>C3. Whatever system call of the replacement of a file fails, and wherever the power is lost, a restart finds
  the old content of the file or the complete new one, and of every other file what it could find before.
  A replacement that reports success shows the new content and leaves no temporary file; one that raises
  shows the old content; no other file changes. Without a fault it succeeds, and then only the new content
  can be found. The volume stays sound.\<close>

theorem replacement_is_atomic:
  assumes "file_writer t p data m" and "t \<noteq> p" and "sound v" and "m v = (r, v')"
  shows "(\<forall>c. found v' p c \<longrightarrow> found v p c \<or> c = Some data) \<and>
    (\<forall>q c. q \<noteq> p \<and> q \<noteq> t \<and> found v' q c \<longrightarrow> found v q c) \<and>
    (r = Inr () \<longrightarrow> visible v' p = Some data \<and> aget (names v') t = None) \<and>
    (r \<noteq> Inr () \<and> r \<noteq> Inl PowerLoss \<longrightarrow> visible v' p = visible v p) \<and>
    (\<forall>q. q \<noteq> p \<and> q \<noteq> t \<longrightarrow> visible v' q = visible v q) \<and>
    (faults v = [] \<and> aget (names v) t = None \<longrightarrow> r = Inr () \<and> (\<forall>c. found v' p c \<longrightarrow> c = Some data)) \<and> sound v'"
proof -
  let ?i = "next_inode v"
  note stands = file_writer_stands [OF assms(1,2,4)]
  then obtain b where b: "replacing t p data ?i v b v'" "r = Inr () \<longrightarrow> b" "r \<noteq> Inr () \<and> r \<noteq> Inl PowerLoss \<longrightarrow> \<not> b"
    by (cases r) (auto simp: failed_def intro: pending_replacing split: if_splits)
  note found = replacing_found [OF b(1) assms(3) refl] and seen = replacing_visible [OF b(1) assms(3) refl]
  have calm: "r = Inr () \<and> (\<forall>c. found v' p c \<longrightarrow> c = Some data)" if "faults v = [] \<and> aget (names v) t = None"
  proof -
    have "r = Inr () \<and> earlier v' = []" by (rule calm_writer [OF assms(1,2,4)]) (use that in \<open>simp add: calm_def\<close>)
    moreover from this b assms(2) have "aget (names v') p = Some ?i" "?i \<in> set (synced v')" "aget (contents v') ?i = Some data"
      by (simp_all add: replacing_def)
    ultimately show ?thesis by (auto simp: found_def)
  qed
  have "sound v'" using evolvesD [OF file_writer_sound [OF assms(1)] assms(4)] assms(3) by (simp add: carries_def)
  moreover have "found v p c \<or> c = Some data" if "found v' p c" for c using found [OF _ that] assms(2) by auto
  moreover have "found v q c" if "q \<noteq> p \<and> q \<noteq> t \<and> found v' q c" for q c using found [of q c] that by auto
  moreover have "r \<noteq> Inr () \<and> r \<noteq> Inl PowerLoss \<longrightarrow> visible v' p = visible v p"
    "\<forall>q. q \<noteq> p \<and> q \<noteq> t \<longrightarrow> visible v' q = visible v q"
    using seen b(3) assms(2) by auto
  moreover have "r = Inr () \<longrightarrow> visible v' p = Some data \<and> aget (names v') t = None"
    using seen b(1,2) assms(2) by (auto simp: replacing_def)
  ultimately show ?thesis using calm by (intro conjI impI allI) simp_all
qed

section \<open>Refinement of the atomic effect\<close>

text \<open>
  The other theories write a file with \<open>write_bytes\<close>, one atomic effect that the operating system may
  refuse and before which the power may fail. A volume corresponds to a world that has the same files,
  the temporary name apart.
\<close>

definition corresponds :: "string \<Rightarrow> volume \<Rightarrow> world \<Rightarrow> bool" where
  "corresponds t v w \<longleftrightarrow> (\<forall>q. q \<noteq> t \<longrightarrow> aget (disk w) q = map_option Reg (visible v q))"

text \<open>The outcomes agree; the power lost after the rename is an effect that happened, with no further one to come.\<close>

definition same_outcome :: "unit result \<Rightarrow> unit result \<Rightarrow> world \<Rightarrow> bool" where
  "same_outcome r a w \<longleftrightarrow> a = r \<or> (\<exists>e. r = Inl e \<and> is_a e OSError \<and> a = Inl OSError) \<or>
     (r = Inl PowerLoss \<and> a = Inr () \<and> budget w = Some 0)"

text \<open>C35. The replacement of a file through a temporary one refines the atomic effect the recovery store is
  modelled with: whatever system call fails and wherever the power is lost, there are refusals and a point
  of power loss with which the effect has the same outcome and leaves the same files.\<close>

theorem replacement_refines_effect:
  assumes "file_writer t p data m" and "t \<noteq> p" and "sound v" and "m v = (r, v')" and "corresponds t v w"
  shows "\<exists>refused power a w'. write_bytes p data (w\<lparr>denied := refused, budget := power\<rparr>) = (a, w') \<and>
    corresponds t v' w' \<and> same_outcome r a w'"
proof -
  let ?i = "next_inode v"
  have plain: "\<not> is_dir p w" using assms(2,5) by (auto simp: corresponds_def is_dir_def)
  note stands = file_writer_stands [OF assms(1,2,4)]
  have kept: "corresponds t v' (w\<lparr>denied := d, budget := b\<rparr>)" if "replacing t p data ?i v False v'" for d b
    using replacing_visible [OF that assms(3) refl] assms(5) by (simp add: corresponds_def)
  have full: "corresponds t v' (w\<lparr>denied := [], budget := b, disk := aset p (Reg data) (disk w)\<rparr>)" if "replacing t p data ?i v True v'" for b
    using replacing_visible [OF that assms(3) refl] assms(2,5) by (simp add: corresponds_def)
  have outcome: ?thesis if "write_bytes p data (w\<lparr>denied := d, budget := b\<rparr>) = (a, w')" "corresponds t v' w'" "same_outcome r a w'" for d b a w'
    using that by blast
  show ?thesis
  proof (cases r)
    case (Inr x)
    with stands have "replacing t p data ?i v True v'" by simp
    from full [OF this, of None] Inr plain show ?thesis
      by (intro outcome [where d = "[]" and b = None]) (auto simp: write_bytes_def effect_def write_refused_def is_dir_def same_outcome_def)
  next
    case (Inl e)
    show ?thesis
    proof (cases "e = PowerLoss")
      case False
      with stands Inl have e: "is_a e OSError" "replacing t p data ?i v False v'" by (auto simp: failed_def intro: pending_replacing)
      from kept [OF e(2), where d = "[p]" and b = None] e Inl show ?thesis
        by (intro outcome [where d = "[p]" and b = None]) (auto simp: write_bytes_def effect_def write_refused_def same_outcome_def)
    next
      case True
      with stands Inl obtain c where c: "replacing t p data ?i v c v'" by (auto simp: failed_def)
      show ?thesis
      proof (cases c)
        case True
        with c full [of "Some 0"] \<open>e = PowerLoss\<close> Inl plain show ?thesis
          by (intro outcome [where d = "[]" and b = "Some 1"]) (auto simp: write_bytes_def effect_def write_refused_def is_dir_def same_outcome_def)
      next
        case False
        with c kept [where d = "[]" and b = "Some 0"] \<open>e = PowerLoss\<close> Inl show ?thesis
          by (intro outcome [where d = "[]" and b = "Some 0"]) (auto simp: write_bytes_def effect_def same_outcome_def)
      qed
    qed
  qed
qed

section \<open>Example\<close>

text \<open>The power fails during the rename, after the sharing violation of a first attempt.\<close>

definition small_volume :: volume where
  "small_volume = \<lparr>names = [(''/a'', 0)], earlier = [], contents = [(0, ''old'')], synced = [0], next_inode = 1,
     faults = [Fine, Fine, Fine, Fine, Refuses, Outage]\<rparr>"

definition volume_world :: world where
  "volume_world = \<lparr>disk = [(''/a'', Reg ''old'')], journal = [], denied = [], now = 0, now_ns = 0, stamp = [],
     draws = (\<lambda>_. []), drawn = 0, budget = None\<rparr>"

lemma small_volume_sound: "sound small_volume"
  by (simp add: sound_def small_volume_def)

lemma small_volume_run:
  obtains v' where "durable_write_bytes ''/t'' ''/a'' ''new'' small_volume = (Inl PowerLoss, v')"
proof -
  have "fst (durable_write_bytes ''/t'' ''/a'' ''new'' small_volume) = Inl PowerLoss" by code_simp
  then show thesis using that by (metis prod.collapse)
qed

theorem replacement_is_atomic_witness:
  "\<exists>v'. durable_write_bytes ''/t'' ''/a'' ''new'' small_volume = (Inl PowerLoss, v') \<and>
     (\<forall>c. found v' ''/a'' c \<longrightarrow> c = Some ''old'' \<or> c = Some ''new'') \<and>
     found v' ''/a'' (Some ''old'') \<and> found v' ''/a'' (Some ''new'')"
proof -
  obtain v' where run: "durable_write_bytes ''/t'' ''/a'' ''new'' small_volume = (Inl PowerLoss, v')"
    by (rule small_volume_run)
  have "file_writer ''/t'' ''/a'' ''new'' (durable_write_bytes ''/t'' ''/a'' ''new'')" by (simp add: file_writer_def)
  from replacement_is_atomic [OF this _ small_volume_sound run]
  have "\<forall>c. found v' ''/a'' c \<longrightarrow> found small_volume ''/a'' c \<or> c = Some ''new''" by simp
  moreover have "c = Some ''old''" if "found small_volume ''/a'' c" for c
    using that by (auto simp: found_def small_volume_def)
  moreover have "found (snd (durable_write_bytes ''/t'' ''/a'' ''new'' small_volume)) ''/a'' (Some ''old'') \<and>
      found (snd (durable_write_bytes ''/t'' ''/a'' ''new'' small_volume)) ''/a'' (Some ''new'')" by code_simp
  ultimately show ?thesis using run by auto
qed

theorem replacement_refines_effect_witness:
  "\<exists>v' refused power a w'. durable_write_bytes ''/t'' ''/a'' ''new'' small_volume = (Inl PowerLoss, v') \<and>
     write_bytes ''/a'' ''new'' (volume_world\<lparr>denied := refused, budget := power\<rparr>) = (a, w') \<and>
     corresponds ''/t'' v' w' \<and> same_outcome (Inl PowerLoss) a w'"
proof -
  obtain v' where run: "durable_write_bytes ''/t'' ''/a'' ''new'' small_volume = (Inl PowerLoss, v')"
    by (rule small_volume_run)
  have writer: "file_writer ''/t'' ''/a'' ''new'' (durable_write_bytes ''/t'' ''/a'' ''new'')" by (simp add: file_writer_def)
  have "corresponds ''/t'' small_volume volume_world"
    by (simp add: corresponds_def visible_def small_volume_def volume_world_def)
  from replacement_refines_effect [OF writer _ small_volume_sound run this] run show ?thesis by auto
qed

end
