(* ===== verification/Pretty.thy ===== *)
theory Pretty
  imports Jsontext
begin

text \<open>
  \<open>json.dumps(report, indent=2)\<close>, the form in which the command line prints a report: members in
  their order, one to a line, text in ASCII. A report that is printed reads back as it was.
\<close>

section \<open>Printing\<close>

text \<open>With \<open>ensure_ascii\<close>, everything beyond the printable ASCII characters is escaped.\<close>

definition escape_ascii :: "char \<Rightarrow> string" where
  "escape_ascii c =
     (if code c < 127 then escape_char c
      else [chr 92, CHR ''u'', CHR ''0'', CHR ''0'', hex_digit (code c div 16), hex_digit (code c mod 16)])"

definition quote_ascii :: "string \<Rightarrow> string" where
  "quote_ascii s = chr 34 # concat (map escape_ascii s) @ [chr 34]"

definition new_line :: "nat \<Rightarrow> string" where
  "new_line n = chr 10 # replicate n CHR '' ''"

definition block :: "nat \<Rightarrow> string list \<Rightarrow> string" where
  "block n items = new_line (n + 2) @ join (CHR '','' # new_line (n + 2)) items @ new_line n"

function pretty :: "nat \<Rightarrow> json \<Rightarrow> string" where
  "pretty n v = (case v of
      JArr xs \<Rightarrow> if xs = [] then ''[]'' else ''['' @ block n (map (pretty (n + 2)) xs) @ '']''
    | JObj d \<Rightarrow> if d = [] then ''{}''
        else ''{'' @ block n (map (\<lambda>p. quote_ascii (fst p) @ '': '' @ pretty (n + 2) (snd p)) d) @ ''}''
    | JStr s \<Rightarrow> quote_ascii s
    | _ \<Rightarrow> dumps v)"
  by pat_completeness auto
termination
proof (relation "measure (\<lambda>p. size (snd p))")
  show "((n + 2, snd p), n, v) \<in> measure (\<lambda>p. size (snd p))"
    if "v = JObj d" "p \<in> set d" for n v d and p :: "string \<times> json"
    using that size_dict_value [of "fst p" "snd p" d] by simp
qed (auto simp: less_Suc_eq_le size_list_estimation')

declare pretty.simps [simp del]

section \<open>Reading it back\<close>

lemma scan_escape_ascii: "scan_string (escape_ascii c @ s) = map_option (\<lambda>(t, r). (c # t, r)) (scan_string s)"
proof (cases "code c < 127")
  case True
  then show ?thesis by (simp add: escape_ascii_def scan_escape)
next
  case False
  have "code c div 16 < 16" "code c mod 16 < 16" by (simp_all add: div_less_iff_less_mult)
  then have "hex4 (CHR ''0'') (CHR ''0'') (hex_digit (code c div 16)) (hex_digit (code c mod 16)) = Some c"
    by (simp add: hex4_def hex_value_zero hex_value_digit)
  with False show ?thesis by (auto simp: escape_ascii_def split: option.split)
qed

lemma scan_quoted_ascii: "scan_string (concat (map escape_ascii s) @ chr 34 # rest) = Some (s, rest)"
  by (induction s) (auto simp: scan_escape_ascii)

lemma is_ws_blanks [simp]: "is_ws (chr 10)" "is_ws (CHR '' '')"
  by code_simp+

lemma skip_ws_new_line [simp]: "skip_ws (new_line n @ s) = skip_ws s"
  by (induction n) (simp_all add: new_line_def skip_ws_def)

lemma stops_new_line [simp]: "stops (new_line n @ s)"
proof -
  have "\<not> is_digit (chr 10)" "chr 10 \<notin> {CHR ''.'', CHR ''e'', CHR ''E''}" by code_simp+
  then show ?thesis by (simp add: new_line_def stops_def)
qed

text \<open>A value printed at depth \<open>n\<close> is read back, and starts with a character of its own.\<close>

definition legible :: "nat \<Rightarrow> json \<Rightarrow> bool" where
  "legible n v \<longleftrightarrow> (\<forall>k s. stops s \<and> 2 * length (pretty n v) < k \<longrightarrow> parse_value k (pretty n v @ s) = Some (v, s)) \<and>
     (\<exists>c cs. pretty n v = c # cs \<and> \<not> is_ws c \<and> c \<noteq> CHR '']'' \<and> c \<noteq> CHR ''}'')"

lemma legibleD: "legible n v \<Longrightarrow> stops s \<Longrightarrow> 2 * length (pretty n v) < k \<Longrightarrow> parse_value k (pretty n v @ s) = Some (v, s)"
  by (simp add: legible_def)

lemma legible_skip: "legible n v \<Longrightarrow> skip_ws (pretty n v @ s) = pretty n v @ s"
  by (auto simp: legible_def)

abbreviation lines :: "nat \<Rightarrow> string list \<Rightarrow> string" where
  "lines n \<equiv> join (CHR '','' # new_line n)"

lemma parse_elems_lines:
  assumes "xs \<noteq> []" and "\<forall>x \<in> set xs. legible m x" and "2 * length (lines m (map (pretty m) xs)) + 1 < k"
  shows "parse_elems k (lines m (map (pretty m) xs) @ new_line n @ CHR '']'' # s) = Some (xs, s)"
  using assms
proof (induction xs arbitrary: k)
  case (Cons x xs)
  obtain j where k: "k = Suc j" using Cons.prems(3) by (cases k) auto
  show ?case
  proof (cases "xs = []")
    case True
    with Cons.prems k have "parse_value j (pretty m x @ new_line n @ CHR '']'' # s) = Some (x, new_line n @ CHR '']'' # s)"
      by (intro legibleD) simp_all
    with True k show ?thesis by simp
  next
    case False
    let ?t = "lines m (map (pretty m) xs) @ new_line n @ CHR '']'' # s"
    have eq: "lines m (map (pretty m) (x # xs)) = pretty m x @ CHR '','' # new_line m @ lines m (map (pretty m) xs)"
      using False by (simp add: join_Cons)
    have len: "2 * length (pretty m x) < j" "2 * length (lines m (map (pretty m) xs)) + 1 < j"
      using Cons.prems(3) unfolding eq k by simp_all
    have "parse_value j (pretty m x @ CHR '','' # new_line m @ ?t) = Some (x, CHR '','' # new_line m @ ?t)"
      using Cons.prems(2) len(1) by (intro legibleD) simp_all
    moreover have "parse_elems j ?t = Some (xs, s)"
      using Cons.IH [OF False _ len(2)] Cons.prems(2) by simp
    moreover have "skip_ws ?t = ?t"
      using False Cons.prems(2) by (cases xs; cases "tl xs") (simp_all add: legible_skip)
    ultimately show ?thesis unfolding eq k by simp
  qed
qed simp

definition member_line :: "nat \<Rightarrow> string \<times> json \<Rightarrow> string" where
  "member_line n p = quote_ascii (fst p) @ '': '' @ pretty n (snd p)"

lemma member_line_app:
  "member_line n p @ u = chr 34 # concat (map escape_ascii (fst p)) @ chr 34 # CHR '':'' # CHR '' '' # pretty n (snd p) @ u"
  by (simp add: member_line_def quote_ascii_def)

lemma skip_ws_member: "skip_ws (member_line n p @ u) = member_line n p @ u"
  by (simp add: member_line_app)

lemma skip_ws_blank [simp]: "skip_ws (CHR '' '' # s) = skip_ws s"
  by (simp add: skip_ws_def)

lemma parse_members_lines:
  assumes "d \<noteq> []" and "\<forall>p \<in> set d. legible m (snd p)" and "2 * length (lines m (map (member_line m) d)) + 1 < k"
  shows "parse_members k (lines m (map (member_line m) d) @ new_line n @ CHR ''}'' # s) = Some (d, s)"
  using assms
proof (induction d arbitrary: k)
  case (Cons p d)
  obtain j where k: "k = Suc j" using Cons.prems(3) by (cases k) auto
  have lp: "length (pretty m (snd p)) \<le> length (member_line m p)" by (simp add: member_line_def)
  show ?case
  proof (cases "d = []")
    case True
    with Cons.prems k lp have
      "parse_value j (pretty m (snd p) @ new_line n @ CHR ''}'' # s) = Some (snd p, new_line n @ CHR ''}'' # s)"
      by (intro legibleD) simp_all
    with True k Cons.prems(2) show ?thesis by (simp add: member_line_app scan_quoted_ascii legible_skip)
  next
    case False
    let ?t = "lines m (map (member_line m) d) @ new_line n @ CHR ''}'' # s"
    have eq: "lines m (map (member_line m) (p # d)) = member_line m p @ CHR '','' # new_line m @ lines m (map (member_line m) d)"
      using False by (simp add: join_Cons)
    have len: "2 * length (pretty m (snd p)) < j" "2 * length (lines m (map (member_line m) d)) + 1 < j"
      using Cons.prems(3) lp unfolding eq k by simp_all
    have "parse_value j (pretty m (snd p) @ CHR '','' # new_line m @ ?t) = Some (snd p, CHR '','' # new_line m @ ?t)"
      using Cons.prems(2) len(1) by (intro legibleD) simp_all
    moreover have "parse_members j ?t = Some (d, s)"
      using Cons.IH [OF False _ len(2)] Cons.prems(2) by simp
    moreover have "skip_ws ?t = ?t"
      using False by (cases d; cases "tl d") (simp_all add: skip_ws_member)
    ultimately show ?thesis using Cons.prems(2) unfolding eq k by (simp add: member_line_app scan_quoted_ascii legible_skip)
  qed
qed simp

lemma pretty_arr: "xs \<noteq> [] \<Longrightarrow> pretty n (JArr xs) = CHR ''['' # new_line (n + 2) @ lines (n + 2) (map (pretty (n + 2)) xs) @ new_line n @ '']''"
  by (subst pretty.simps) (simp add: block_def)

lemma pretty_obj: "d \<noteq> [] \<Longrightarrow> pretty n (JObj d) = CHR ''{'' # new_line (n + 2) @ lines (n + 2) (map (member_line (n + 2)) d) @ new_line n @ ''}''"
  by (subst pretty.simps) (simp add: block_def member_line_def [abs_def])

lemma legible_leaf:
  assumes "plain_json v" and "pretty n v = dumps v" and "sorted_json v = v"
  shows "legible n v"
proof -
  obtain c cs where "dumps v = c # cs" "\<not> is_ws c" "c \<noteq> CHR '']''" "c \<noteq> CHR ''}''"
    using assms(1) by (rule dumps_head)
  with reads_plain [OF assms(1)] assms(2,3) show ?thesis by (simp add: legible_def reads_def)
qed

lemma pretty_plain: "plain_json v \<Longrightarrow> legible n v"
proof (induction "size v" arbitrary: v n rule: less_induct)
  case less
  show ?case
  proof (cases "\<exists>xs. v = JArr xs \<and> xs \<noteq> []")
    case True
    then obtain xs where v: "v = JArr xs" "xs \<noteq> []" by blast
    have all: "\<forall>x \<in> set xs. legible (n + 2) x"
      using less v by (simp add: less_Suc_eq_le size_list_estimation')
    obtain y ys where y: "xs = y # ys" using v(2) by (cases xs) auto
    have skip: "skip_ws (lines (n + 2) (map (pretty (n + 2)) xs) @ u) = lines (n + 2) (map (pretty (n + 2)) xs) @ u"
      and first: "take 1 (lines (n + 2) (map (pretty (n + 2)) xs) @ u) \<noteq> '']''" for u
      using all unfolding y legible_def by (cases ys; auto)+
    have "parse_value k (pretty n v @ s) = Some (v, s)" if "2 * length (pretty n v) < k" for k s
    proof -
      from that obtain j where k: "k = Suc j" by (cases k) (simp_all add: pretty_arr pretty_obj v)
      have "parse_elems j (lines (n + 2) (map (pretty (n + 2)) xs) @ new_line n @ CHR '']'' # s) = Some (xs, s)"
        using that k v by (intro parse_elems_lines all) (simp_all add: pretty_arr)
      with skip first show ?thesis unfolding k v(1) pretty_arr [OF v(2)] by (simp del: take_append)
    qed
    then show ?thesis using v by (simp add: legible_def pretty_arr is_ws_def)
  next
    case arr: False
    show ?thesis
    proof (cases "\<exists>d. v = JObj d \<and> d \<noteq> []")
      case True
      then obtain d where v: "v = JObj d" "d \<noteq> []" by blast
      have all: "\<forall>p \<in> set d. legible (n + 2) (snd p)"
        using less v size_dict_value by fastforce
      obtain y ys where y: "d = y # ys" using v(2) by (cases d) auto
      have skip: "skip_ws (lines (n + 2) (map (member_line (n + 2)) d) @ u) = lines (n + 2) (map (member_line (n + 2)) d) @ u" for u
        unfolding y by (cases ys) (simp_all add: skip_ws_member)
      have first: "take 1 (lines (n + 2) (map (member_line (n + 2)) d) @ u) \<noteq> ''}''" for u
        unfolding y by (cases ys) (simp_all add: member_line_app del: take_append)
      have "parse_value k (pretty n v @ s) = Some (v, s)" if "2 * length (pretty n v) < k" for k s
      proof -
        from that obtain j where k: "k = Suc j" by (cases k) (simp_all add: pretty_arr pretty_obj v)
        have "parse_members j (lines (n + 2) (map (member_line (n + 2)) d) @ new_line n @ CHR ''}'' # s) = Some (d, s)"
          using that k v by (intro parse_members_lines all) (simp_all add: pretty_obj)
        moreover have "dict_of d = d" using less.prems v by (intro dict_of_distinct) simp
        ultimately show ?thesis using skip first unfolding k v(1) pretty_obj [OF v(2)] by (simp del: take_append)
      qed
      then show ?thesis using v by (simp add: legible_def pretty_obj is_ws_def)
    next
      case obj: False
      show ?thesis
      proof (cases v)
        case (JStr t)
        have "parse_value k (quote_ascii t @ s) = Some (JStr t, s)" if "2 * length (quote_ascii t) < k" for k s
          using that by (cases k) (simp_all add: quote_ascii_def scan_quoted_ascii)
        moreover have "pretty n v = quote_ascii t" using JStr by (simp add: pretty.simps [of n "JStr t"])
        moreover have "quote_ascii t = chr 34 # concat (map escape_ascii t) @ [chr 34]" by (rule quote_ascii_def)
        ultimately show ?thesis using JStr by (simp add: legible_def)
      next
        case (JArr xs)
        with arr have "v = JArr []" by simp
        moreover have "parse_value k (''[]'' @ s) = Some (JArr [], s)" if "4 < k" for k s
          using that by (cases k) simp_all
        ultimately show ?thesis by (auto simp: legible_def pretty.simps [of n "JArr []"] is_ws_def)
      next
        case (JObj d)
        with obj have "v = JObj []" by simp
        moreover have "parse_value k (''{}'' @ s) = Some (JObj [], s)" if "4 < k" for k s
          using that by (cases k) (simp_all add: dict_of_def)
        ultimately show ?thesis by (auto simp: legible_def pretty.simps [of n "JObj []"] is_ws_def)
      qed (use less.prems in \<open>simp_all add: legible_leaf pretty.simps [of n JNull] pretty.simps [of n "JBool _"] pretty.simps [of n "JInt _"]\<close>)
    qed
  qed
qed

lemma loads_pretty:
  assumes "plain_json v"
  shows "loads (pretty 0 v) = Some v"
proof -
  note l = pretty_plain [OF assms, of 0]
  have "parse_value (2 * length (pretty 0 v) + 2) (pretty 0 v @ []) = Some (v, [])"
    by (rule legibleD [OF l]) simp_all
  moreover from legible_skip [OF l, of "[]"] have "skip_ws (pretty 0 v) = pretty 0 v" by simp
  ultimately show ?thesis by (simp only: loads_def append_Nil2) (simp add: skip_ws_def)
qed

end
