(* ===== verification/Commands.thy ===== *)
theory Commands
  imports Routing Pretty
begin

text \<open>
  \<open>src/jvc/cli.py\<close> with the readers of \<open>src/jvc/configuration.py\<close> it calls: a registry and a
  policy read from a file, and the commands \<open>route\<close> and \<open>validate-routes\<close>, from the parsed
  arguments to the text they print and the exit code.
\<close>

section \<open>Reading a registry\<close>

definition parent_path :: "pypath \<Rightarrow> pypath" where
  "parent_path p = p\<lparr>parts := butlast (parts p)\<rparr>"

definition suffix_of :: "pypath \<Rightarrow> string" where
  "suffix_of p = (if parts p = [] then '''' else path_suffix (last (parts p)))"

text \<open>\<open>path.read_text(encoding="utf-8-sig")\<close>.\<close>

definition text_in :: "fsview \<Rightarrow> pypath \<Rightarrow> world \<Rightarrow> string result" where
  "text_in F p w = bindR (read_in F p w) (\<lambda>b. read_text (drop_bom b))"

definition loads_in :: "string \<Rightarrow> json result" where
  "loads_in text = (case loads text of None \<Rightarrow> Inl JSONDecodeError | Some v \<Rightarrow> Inr v)"

definition registry_from_file :: "fsview \<Rightarrow> pypath \<Rightarrow> world \<Rightarrow> registry result" where
  "registry_from_file F p w =
     bindR (text_in F p w) (\<lambda>text.
     if lower (suffix_of p) = ''.json'' then bindR (loads_in text) (registry_of_json F)
     else registry_of_table F text (parent_path p))"

section \<open>The governance policy\<close>

text \<open>The fields are not checked when they are read: each holds whatever the document has.\<close>

record policy =
  policy_version :: json
  policy_id :: json
  fail_closed :: json
  model_facing :: json
  mutation :: json
  secret_classes :: json
  protected_surfaces :: json

definition switches :: "bool \<Rightarrow> string list \<Rightarrow> json" where
  "switches b names = JObj (map (\<lambda>k. (k, JBool b)) names)"

definition default_policy :: policy where
  "default_policy = \<lparr>policy_version = JInt 1, policy_id = JStr ''jvc-governed-execution-v1'', fail_closed = JBool True,
     model_facing = switches False [''raw_shell'', ''generic_command'', ''operator_authorization'',
       ''caller_authority_upgrade_fields''],
     mutation = switches True [''registered_routes_only'', ''canonical_containment_required'', ''mandatory_secret_deny'',
       ''cas_required_for_overwrite'', ''recovery_after_authorization_only'', ''git_stage_exact_files_only''],
     secret_classes = JArr (map JStr [''.env'', ''.env.*'', ''credential.*'', ''credentials.*'', ''secret.*'', ''secrets.*'',
       ''token.*'', ''tokens.*'', ''auth.*'', ''*.pem'', ''*.key'', ''*.ppk'', ''*.p12'', ''*.pfx'', ''ssh credentials'',
       ''recovery phrase'', ''recovery seed'', ''provider credential settings'']),
     protected_surfaces = JArr (map JStr [''.git'', ''.continuity'', ''_config'', ''contracts''])\<rparr>"

definition policy_of_json :: "json \<Rightarrow> policy result" where
  "policy_of_json data = (case data of
      JObj d \<Rightarrow> Inr \<lparr>
        policy_version = get_default d ''schema_version'' (JInt 1),
        policy_id = get_default d ''policy_id'' (JStr ''jvc-governed-execution-v1''),
        fail_closed = get_default d ''fail_closed'' (JBool True),
        model_facing = get_default d ''model_facing'' (JObj []),
        mutation = get_default d ''mutation'' (JObj []),
        secret_classes = get_default d ''secret_classes'' (JArr []),
        protected_surfaces = get_default d ''protected_surfaces'' (JArr [])\<rparr>
    | _ \<Rightarrow> Inl AttributeError)"

definition policy_from_file :: "fsview \<Rightarrow> pypath \<Rightarrow> world \<Rightarrow> policy result" where
  "policy_from_file F p w = bindR (text_in F p w) (\<lambda>text. bindR (loads_in text) policy_of_json)"

definition policy_to_dict :: "policy \<Rightarrow> dict" where
  "policy_to_dict q =
     [(''schema_version'', policy_version q), (''policy_id'', policy_id q), (''fail_closed'', fail_closed q),
      (''model_facing'', model_facing q), (''mutation'', mutation q), (''secret_classes'', secret_classes q),
      (''protected_surfaces'', protected_surfaces q)]"

lemma policy_of_to_dict: "policy_of_json (JObj (policy_to_dict q)) = Inr q"
  by (cases q) (simp add: policy_of_json_def policy_to_dict_def get_default_def)

text \<open>A document that leaves the rules out gets none, not the declared ones.\<close>

lemma absent_rules_are_empty:
  "policy_of_json (JObj []) = Inr (default_policy\<lparr>model_facing := JObj [], mutation := JObj [],
     secret_classes := JArr [], protected_surfaces := JArr []\<rparr>)"
  by (simp add: policy_of_json_def default_policy_def get_default_def)

section \<open>The commands\<close>

text \<open>What \<open>parse_args\<close> hands over for the two commands.\<close>

datatype arguments = Route_args (query: string) (registry: pypath) (json_report: bool)
  | Validate_args (registry: pypath) (json_report: bool)

text \<open>What is printed to the standard streams, one entry for each \<open>print\<close>, and the exit code.\<close>

record outcome =
  out :: "string list"
  err :: "string list"
  exit_code :: int

definition print_route :: "bool \<Rightarrow> dict \<Rightarrow> outcome" where
  "print_route as_json report =
     \<lparr>out = [if as_json then pretty 0 (JObj report) else format_human report], err = [],
      exit_code = (if dget report ''status'' \<in> {JStr ''ROUTED'', JStr ''MULTI_ROUTE''} then 0 else 2)\<rparr>"

definition run_route :: "fsview \<Rightarrow> platform \<Rightarrow> (exn \<Rightarrow> string) \<Rightarrow> world \<Rightarrow> string \<Rightarrow> pypath \<Rightarrow> bool \<Rightarrow> outcome" where
  "run_route F P explain w q f as_json =
     (case bindR (registry_from_file F f w) (\<lambda>g. resolve_query F P explain w q (list_routes g)) of
        Inr report \<Rightarrow> print_route as_json report
      | Inl e \<Rightarrow> \<lparr>out = [], err = [''Error resolving route: '' @ explain e], exit_code = 1\<rparr>)"

definition validation_report :: "validation \<Rightarrow> dict" where
  "validation_report v =
     [(''status'', JStr (verdict v)), (''route_count'', JInt (int (route_count v))),
      (''alias_count'', JInt (int (alias_count v))), (''errors'', JArr (map JStr (error_list v)))]"

definition print_validation :: "bool \<Rightarrow> validation \<Rightarrow> outcome" where
  "print_validation as_json v =
     \<lparr>out = (if as_json then [pretty 0 (JObj (validation_report v))]
        else if verdict v = ''PASS''
        then [''PASS: routes='' @ nat_digits (route_count v) @ ''; aliases='' @ nat_digits (alias_count v)]
        else ''FAIL:'' # map (\<lambda>e. ''- '' @ e) (error_list v)),
      err = [], exit_code = (if verdict v = ''PASS'' then 0 else 1)\<rparr>"

definition run_validate :: "fsview \<Rightarrow> (exn \<Rightarrow> string) \<Rightarrow> world \<Rightarrow> pypath \<Rightarrow> bool \<Rightarrow> outcome" where
  "run_validate F explain w f as_json =
     (case bindR (registry_from_file F f w) (\<lambda>g. validate F g True True) of
        Inr v \<Rightarrow> print_validation as_json v
      | Inl e \<Rightarrow> \<lparr>out = [], err = [''Error validating routes: '' @ explain e], exit_code = 1\<rparr>)"

definition main :: "fsview \<Rightarrow> platform \<Rightarrow> (exn \<Rightarrow> string) \<Rightarrow> world \<Rightarrow> arguments \<Rightarrow> outcome" where
  "main F P explain w args = (case args of
      Route_args q f as_json \<Rightarrow> run_route F P explain w q f as_json
    | Validate_args f as_json \<Rightarrow> run_validate F explain w f as_json)"

section \<open>What the exit codes and the output tell\<close>

lemma registry_from_file_made:
  assumes "registry_from_file F f w = Inr g"
  obtains rs where "g = make_registry rs"
proof -
  have "\<exists>rs. h = make_registry rs" if "registry_of_json F v = Inr h" for h v
    using that by (cases v) (auto simp: registry_of_json_def bindR_Inr_iff)
  with assms have "\<exists>rs. g = make_registry rs"
    by (auto simp: registry_from_file_def registry_of_table_def bindR_Inr_iff split: if_splits)
  then show thesis using that by blast
qed

lemma routing_status_goes_on:
  "routing_status q rs \<in> {''ROUTED'', ''MULTI_ROUTE''} \<longleftrightarrow>
     length (filter (named q) rs) = 1 \<or> 1 < length (filter (named q) rs) \<and> fullmatch MULTI_MARKERS q"
  by (auto simp: routing_status_def split: nat.splits)

lemma route_exit_zero:
  "exit_code (run_route F P explain w q f as_json) = 0 \<longleftrightarrow>
     (\<exists>g report. registry_from_file F f w = Inr g \<and> resolve_query F P explain w q (list_routes g) = Inr report \<and>
        routing_status q (list_routes g) \<in> {''ROUTED'', ''MULTI_ROUTE''})"
proof (cases "bindR (registry_from_file F f w) (\<lambda>g. resolve_query F P explain w q (list_routes g))")
  case (Inl e)
  then show ?thesis by (auto simp: run_route_def)
next
  case (Inr report)
  then obtain g where g: "registry_from_file F f w = Inr g" "resolve_query F P explain w q (list_routes g) = Inr report"
    by (auto simp: bindR_Inr_iff)
  with Inr resolve_query_report [OF g(2)] show ?thesis by (auto simp: run_route_def print_route_def)
qed

lemma validate_exit_zero:
  "exit_code (run_validate F explain w f as_json) = 0 \<longleftrightarrow>
     (\<exists>g v. registry_from_file F f w = Inr g \<and> validate F g True True = Inr v \<and> verdict v = ''PASS'')"
proof (cases "bindR (registry_from_file F f w) (\<lambda>g. validate F g True True)")
  case (Inl e)
  then show ?thesis by (auto simp: run_validate_def)
next
  case (Inr v)
  then show ?thesis by (auto simp: run_validate_def print_validation_def bindR_Inr_iff split: if_splits)
qed

lemma plain_texts [simp]: "plain_json (JArr (map JStr ss))"
  by simp

lemma plain_validation_report: "plain_json (JObj (validation_report v))"
  by (simp add: validation_report_def)

text \<open>C36. The exit code of a command tells what was decided. \<open>route\<close> exits with 0 exactly when the
  registry can be read, the query is answered and names one registered project, or several with a marker
  that asks for several; \<open>validate-routes\<close> exits with 0 exactly when the registry can be read and validates,
  and then every project in it is identified without ambiguity. Errors are reported on the error stream,
  with exit code 1 and no other output.\<close>

theorem exit_codes_tell:
  "(exit_code (main F P explain w (Route_args q f as_json)) = 0 \<longleftrightarrow>
     (\<exists>g report. registry_from_file F f w = Inr g \<and> resolve_query F P explain w q (list_routes g) = Inr report \<and>
        (length (filter (named q) (list_routes g)) = 1 \<or>
         1 < length (filter (named q) (list_routes g)) \<and> fullmatch MULTI_MARKERS q))) \<and>
   (exit_code (main F P explain w (Validate_args f as_json)) = 0 \<longleftrightarrow>
     (\<exists>g v. registry_from_file F f w = Inr g \<and> validate F g True True = Inr v \<and> verdict v = ''PASS'')) \<and>
   (exit_code (main F P explain w (Validate_args f as_json)) = 0 \<longrightarrow>
     (\<exists>rs. registry_from_file F f w = Inr (make_registry rs) \<and> distinct (map project_id rs) \<and>
        distinct (map (root_key F True) rs) \<and>
        (\<forall>r \<in> set rs. sound_route F True True r \<and> get_route (make_registry rs) (project_id r) = Some r) \<and>
        (\<forall>r \<in> set rs. \<forall>s \<in> set rs. set (aliases r) \<inter> set (aliases s) \<noteq> {} \<longrightarrow> r = s))) \<and>
   (err (main F P explain w args) \<noteq> [] \<longrightarrow>
     exit_code (main F P explain w args) = 1 \<and> out (main F P explain w args) = [])"
proof (intro conjI)
  show "exit_code (main F P explain w (Validate_args f as_json)) = 0 \<longrightarrow>
     (\<exists>rs. registry_from_file F f w = Inr (make_registry rs) \<and> distinct (map project_id rs) \<and>
        distinct (map (root_key F True) rs) \<and>
        (\<forall>r \<in> set rs. sound_route F True True r \<and> get_route (make_registry rs) (project_id r) = Some r) \<and>
        (\<forall>r \<in> set rs. \<forall>s \<in> set rs. set (aliases r) \<inter> set (aliases s) \<noteq> {} \<longrightarrow> r = s))"
  proof
    assume "exit_code (main F P explain w (Validate_args f as_json)) = 0"
    then obtain g v where g: "registry_from_file F f w = Inr g" and v: "validate F g True True = Inr v" "verdict v = ''PASS''"
      by (auto simp: main_def validate_exit_zero)
    obtain rs where "g = make_registry rs" using g by (rule registry_from_file_made)
    with g v validation_unambiguous show "\<exists>rs. registry_from_file F f w = Inr (make_registry rs) \<and> distinct (map project_id rs) \<and>
        distinct (map (root_key F True) rs) \<and>
        (\<forall>r \<in> set rs. sound_route F True True r \<and> get_route (make_registry rs) (project_id r) = Some r) \<and>
        (\<forall>r \<in> set rs. \<forall>s \<in> set rs. set (aliases r) \<inter> set (aliases s) \<noteq> {} \<longrightarrow> r = s)" by blast
  qed
  show "err (main F P explain w args) \<noteq> [] \<longrightarrow>
     exit_code (main F P explain w args) = 1 \<and> out (main F P explain w args) = []"
    by (auto simp: main_def run_route_def run_validate_def print_route_def print_validation_def
        split: arguments.splits sum.splits)
qed (simp_all only: main_def arguments.case route_exit_zero validate_exit_zero routing_status_goes_on)

text \<open>What a command prints with \<open>--json\<close> is one JSON document that reads back as exactly the report:
  the routing report, as long as it holds no float, and always the validation report.\<close>

theorem json_report_reads_back:
  assumes "registry_from_file F f w = Inr g"
  shows "(\<forall>report. resolve_query F P explain w q (list_routes g) = Inr report \<and> plain_json (JObj report) \<longrightarrow>
      (\<exists>s. out (main F P explain w (Route_args q f True)) = [s] \<and> loads s = Some (JObj report))) \<and>
    (\<forall>v. validate F g True True = Inr v \<longrightarrow>
      (\<exists>s. out (main F P explain w (Validate_args f True)) = [s] \<and> loads s = Some (JObj (validation_report v))))"
proof (intro conjI allI impI)
  fix report
  assume "resolve_query F P explain w q (list_routes g) = Inr report \<and> plain_json (JObj report)"
  with assms show "\<exists>s. out (main F P explain w (Route_args q f True)) = [s] \<and> loads s = Some (JObj report)"
    by (simp add: main_def run_route_def print_route_def loads_pretty del: plain_json.simps)
next
  fix v
  assume "validate F g True True = Inr v"
  with assms show "\<exists>s. out (main F P explain w (Validate_args f True)) = [s] \<and> loads s = Some (JObj (validation_report v))"
    by (simp add: main_def run_validate_def print_validation_def loads_pretty plain_validation_report del: plain_json.simps)
qed

section \<open>Example\<close>

definition table_world :: world where
  "table_world = (surroundings example_procs)\<lparr>disk := [(''/srv/projects.md'', Reg example_table)]\<rparr>"

definition table_file :: pypath where
  "table_file = mk_path ''/srv/projects.md''"

lemma table_file_read: "registry_from_file example_view table_file table_world = Inr (make_registry Registry.example_routes)"
proof -
  have "text_in example_view table_file table_world = Inr example_table" by code_simp
  moreover have "lower (suffix_of table_file) \<noteq> ''.json''" "parent_path table_file = mk_path ''/srv''" by code_simp+
  ultimately show ?thesis
    by (simp add: registry_from_file_def registry_of_table_def example_table_parses)
qed

theorem exit_codes_tell_witness:
  "exit_code (main example_view example_platform (\<lambda>_. ''missing'') table_world (Validate_args table_file False)) = 0 \<and>
   (\<exists>rs. registry_from_file example_view table_file table_world = Inr (make_registry rs) \<and> distinct (map project_id rs)) \<and>
   exit_code (main example_view example_platform (\<lambda>_. ''missing'') table_world (Validate_args (mk_path ''/none'') False)) = 1 \<and>
   out (main example_view example_platform (\<lambda>_. ''missing'') table_world (Validate_args (mk_path ''/none'') False)) = []"
proof -
  have 0: "exit_code (main example_view example_platform (\<lambda>_. ''missing'') table_world (Validate_args table_file False)) = 0"
    using table_file_read example_routes_validate by (simp add: main_def validate_exit_zero)
  have "err (main example_view example_platform (\<lambda>_. ''missing'') table_world (Validate_args (mk_path ''/none'') False)) \<noteq> []"
    by code_simp
  with 0 exit_codes_tell [of example_view example_platform "\<lambda>_. ''missing''" table_world "[]" table_file False
      "Validate_args (mk_path ''/none'') False"]
  show ?thesis by blast
qed

theorem json_report_reads_back_witness:
  "\<exists>s. out (main example_view example_platform (\<lambda>_. ''missing'') table_world (Validate_args table_file True)) = [s] \<and>
     loads s = Some (JObj (validation_report \<lparr>verdict = ''PASS'', route_count = 2, alias_count = 3, error_list = []\<rparr>))"
proof -
  from json_report_reads_back [OF table_file_read] example_routes_validate show ?thesis by blast
qed

end
