(* ===== verification/Progress.thy ===== *)
theory Progress
  imports Writes
begin

text \<open>
  What a governed write needs to go through: with nothing failing, a journal whose receipts are valid and
  closed for the target, and names that are not taken, a write that gives the right preimage succeeds, and
  leaves the next one the same chances.
\<close>

section \<open>A settled journal\<close>

definition settled_journal :: "string \<Rightarrow> string \<Rightarrow> world \<Rightarrow> bool" where
  "settled_journal pid t w \<longleftrightarrow> (\<forall>n \<in> set (iter_receipt_files w). \<exists>d. receipt_at n w = Some d \<and>
     (concerns pid t d \<longrightarrow> tx_state d \<in> set TERMINAL_STATES))"

lemma terminal_closed: "st \<in> set TERMINAL_STATES \<Longrightarrow> st \<notin> set INCOMPLETE_STATES \<and> st \<notin> set BLOCKING_STATES"
  by (auto simp: TERMINAL_STATES_def INCOMPLETE_STATES_def BLOCKING_STATES_def)

lemma settled_journal_cong: "journal w' = journal w \<Longrightarrow> settled_journal pid t w' = settled_journal pid t w"
  by (simp add: settled_journal_def iter_receipt_files_def glob_journal_def receipt_at_cong [of w' w])

lemma collect_all:
  assumes "\<And>n. n \<in> set ns \<Longrightarrow> f n = Inr (g n)"
  shows "collect f ns = Inr (map (\<lambda>n. (n, g n)) ns)"
  using assms by (induction ns) simp_all

lemma corrupt_none:
  assumes "\<And>n. n \<in> set ns \<Longrightarrow> f n = Inr (g n)"
  shows "corrupt_of f ns = Inr []"
  using assms by (induction ns) simp_all

lemma reconcile_settled:
  assumes "settled_journal pid t w"
  shows "reconcile_target H store pid t w = (Inr ([], []), w)"
proof -
  have "foldM (reconcile_target_one H store pid t) ([], []) ns w = (Inr ([], []), w)"
    if "set ns \<subseteq> set (iter_receipt_files w)" for ns
    using that
  proof (induction ns)
    case (Cons n ns)
    then obtain d where d: "read_validated n w = Inr d" and st: "concerns pid t d \<longrightarrow> tx_state d \<in> set TERMINAL_STATES"
      using assms by (auto simp: settled_journal_def read_validated_Inr)
    have "reconcile_target_one H store pid t ([], []) n w = (Inr ([], []), w)"
      using st terminal_closed [of "tx_state d"] by (auto simp: reconcile_target_one_def bindM_readM d)
    with Cons show ?case by (simp add: bindM_app)
  qed simp
  then show ?thesis by (simp add: reconcile_target_def bindM_readM)
qed

lemma settled_receipts:
  assumes "settled_journal pid t w"
  obtains g where "\<And>n. n \<in> set (iter_receipt_files w) \<Longrightarrow> receipt_at n w = Some (g n)"
    "\<And>n. n \<in> set (iter_receipt_files w) \<Longrightarrow> concerns pid t (g n) \<Longrightarrow> tx_state (g n) \<in> set TERMINAL_STATES"
  using assms unfolding settled_journal_def by metis

lemma blocking_settled:
  assumes "settled_journal pid t w"
  shows "has_blocking_state pid t w = Inr None"
proof -
  obtain g where g: "\<And>n. n \<in> set (iter_receipt_files w) \<Longrightarrow> receipt_at n w = Some (g n)"
    and st: "\<And>n. n \<in> set (iter_receipt_files w) \<Longrightarrow> concerns pid t (g n) \<Longrightarrow> tx_state (g n) \<in> set TERMINAL_STATES"
    using assms by (rule settled_receipts) blast
  have l: "n \<in> set (iter_receipt_files w) \<Longrightarrow> load_validated n w = Inr (g n)" for n
    using g by (simp add: load_validated_Inr)
  have "filter (\<lambda>d. concerns pid t d \<and> tx_state d \<in> set BLOCKING_STATES) (map g (iter_receipt_files w)) = []"
    using st terminal_closed by (fastforce simp: filter_empty_conv)
  with collect_all [OF l] corrupt_none [OF l] show ?thesis
    by (simp add: has_blocking_state_def corrupt_receipt_files_def comp_def)
qed

lemma superseded_settled:
  assumes "settled_journal pid t w"
  shows "\<exists>prev. find_superseded_id H pid t c w = Inr prev"
proof -
  obtain g where "\<And>n. n \<in> set (iter_receipt_files w) \<Longrightarrow> receipt_at n w = Some (g n)"
    using assms by (rule settled_receipts) blast
  then have "\<And>n. n \<in> set (iter_receipt_files w) \<Longrightarrow> read_validated n w = Inr (g n)"
    by (simp add: read_validated_Inr)
  from collect_all [OF this] show ?thesis
    by (cases c) (auto simp: find_superseded_id_def chain_references_def all_valid_receipts_def Let_def)
qed

section \<open>The steps where nothing fails\<close>

definition with_receipt :: "string \<Rightarrow> dict \<Rightarrow> world \<Rightarrow> world" where
  "with_receipt rid d w = w\<lparr>journal := aset (json_name rid) \<lparr>jdoc = Doc (JObj d), jmtime = now w\<rparr> (journal w)\<rparr>"

lemma with_receipt_simps [simp]:
  "disk (with_receipt rid d w) = disk w" "drawn (with_receipt rid d w) = drawn w" "draws (with_receipt rid d w) = draws w"
  "calm store (with_receipt rid d w) = calm store w" "load_doc (json_name rid) (with_receipt rid d w) = Inr (JObj d)"
  "with_receipt rid e (with_receipt rid d w) = with_receipt rid e w"
  by (simp_all add: with_receipt_def load_doc_def aset_twice)

lemma put_receipt_with: "calm store w \<Longrightarrow> put_receipt store (json_name rid) d w = (Inr (), with_receipt rid d w)"
  by (simp add: put_receipt_calm with_receipt_def)

lemma note_target_replaced_calm:
  assumes "calm store w" and "load_doc (json_name rid) w = Inr (JObj d)" and "dget d ''tx_state'' = JStr ''PREPARED''"
  shows "note_target_replaced store rid post w = (Inr (), with_receipt rid (set_post (upper post) ''APPLIED'' d) w)"
  using assms by (simp add: note_target_replaced_def bindM_readM as_dict_def put_receipt_with set_post_def)

lemma record_postimage_calm:
  assumes "calm store w" and "load_doc (json_name rid) w = Inr (JObj d)" and "dget d ''tx_state'' = JStr ''APPLIED''"
    and "dget d ''path'' = JStr t" and "sha256_file H t w = Inr (upper post)"
  shows "record_postimage H store rid post w = (Inr (), with_receipt rid (set_post (upper post) ''VERIFIED'' d) w)"
proof -
  let ?a = "set_post (upper post) ''APPLIED'' d" and ?w = "with_receipt rid (set_post (upper post) ''APPLIED'' d) w"
  have there: "aget (journal w) (json_name rid) \<noteq> None"
    using assms(2) by (auto simp: load_doc_def split: option.splits)
  have p: "aget ?a ''path'' \<noteq> None" "sget ?a ''path'' = t"
    using assms(4) by (auto simp: set_post_def set_state_def sget_def dget_def split: option.splits)
  have "sha256_file H t ?w = Inr (upper post)"
    using assms(5) by (simp add: sha256_file_def read_bytes_def)
  with p assms(1) have "settle_postimage H store (json_name rid) ?a (upper post) ?w =
      (Inr (), with_receipt rid (set_state ''VERIFIED'' ?a) w)"
    by (simp add: settle_postimage_def bindM_readM put_receipt_with)
  moreover have "set_state ''VERIFIED'' ?a = set_post (upper post) ''VERIFIED'' d"
    by (simp add: set_post_def set_state_def aset_twice)
  moreover have "set_state ''APPLIED'' (aset ''postimage_sha256'' (JStr (upper post)) d) = ?a"
    by (simp add: set_post_def)
  ultimately show ?thesis
    using there assms(1-3)
    by (simp add: record_postimage_def bindM_readM as_dict_def Let_def bindM_app put_receipt_with failpoint_calm)
qed

lemma replace_target_calm:
  assumes "calm store w" and "aget (disk w) t \<noteq> Some Dir" and "load_doc (json_name rid) w = Inr (JObj d)"
    and "dget d ''tx_state'' = JStr ''PREPARED''" and "dget d ''path'' = JStr t" and "dget d ''receipt_id'' = JStr rid"
    and "upper (H (utf8 content)) = H (utf8 content)"
  shows "replace_target H store t d content w = (Inr (H (utf8 content)),
    with_receipt rid (set_post (H (utf8 content)) ''VERIFIED'' d) (w\<lparr>disk := aset t (Reg (utf8 content)) (disk w)\<rparr>))"
proof -
  let ?h = "H (utf8 content)" and ?w = "w\<lparr>disk := aset t (Reg (utf8 content)) (disk w)\<rparr>"
  have rid: "sget d ''receipt_id'' = rid" using assms(6) by (simp add: sget_def)
  have h: "sha256_file H t ?w = Inr ?h" by (simp add: sha256_file_def read_bytes_def)
  have noted: "note_target_replaced store rid ?h ?w = (Inr (), with_receipt rid (set_post ?h ''APPLIED'' d) ?w)"
    using note_target_replaced_calm [of store ?w rid d ?h] assms by simp
  have "record_postimage H store rid ?h (with_receipt rid (set_post ?h ''APPLIED'' d) ?w) =
      (Inr (), with_receipt rid (set_post ?h ''VERIFIED'' d) ?w)"
    using record_postimage_calm [of store "with_receipt rid (set_post ?h ''APPLIED'' d) ?w" rid "set_post ?h ''APPLIED'' d" t H ?h]
      assms h by (simp add: sha256_file_def read_bytes_def set_post_twice)
  with assms(1,2) noted h show ?thesis
    by (simp add: replace_target_def bindM_app write_bytes_calm failpoint_calm rid)
qed

section \<open>A write that is ready\<close>

text \<open>Names no receipt and no backup has, the target's neither.\<close>

definition fresh_names :: "recovery_store \<Rightarrow> string \<Rightarrow> string \<Rightarrow> world \<Rightarrow> bool" where
  "fresh_names store pid t w \<longleftrightarrow> inj (draws w) \<and> (\<forall>k \<ge> drawn w.
     let rid = ''recovery-'' @ pid @ ''-'' @ draws w k
     in aget (journal w) (json_name rid) = None \<and> aget (disk w) (bak_path store rid) = None \<and> bak_path store rid \<noteq> t)"

definition writable :: "recovery_store \<Rightarrow> string \<Rightarrow> string \<Rightarrow> world \<Rightarrow> bool" where
  "writable store pid t w \<longleftrightarrow> calm store w \<and> settled_journal pid t w \<and> fresh_names store pid t w \<and>
     aget (disk w) t \<noteq> Some Dir"

text \<open>The digest is upper-case text without blanks around it.\<close>

definition digest_text :: "hash \<Rightarrow> bool" where
  "digest_text H \<longleftrightarrow> (\<forall>b. H b \<noteq> [] \<and> upper (H b) = H b \<and> strip_ws (H b) = H b)"

lemma fresh_first:
  assumes "fresh_names store pid t w" and "rid = first_id ''recovery'' pid w"
  shows "aget (journal w) (json_name rid) = None" "aget (disk w) (bak_path store rid) = None" "bak_path store rid \<noteq> t"
  using assms by (auto simp: fresh_names_def first_id_def Let_def)

lemma fresh_next:
  assumes "fresh_names store pid t w" and "rid = first_id ''recovery'' pid w"
    and "journal w' = aset (json_name rid) f (journal w)" and "draws w' = draws w" and "drawn w' = Suc (drawn w)"
    and "\<And>p. p \<noteq> t \<Longrightarrow> p \<noteq> bak_path store rid \<Longrightarrow> aget (disk w') p = aget (disk w) p"
  shows "fresh_names store pid t w'"
  unfolding fresh_names_def Let_def
proof (intro conjI allI impI)
  show "inj (draws w')" using assms(1,4) by (simp add: fresh_names_def)
  fix k
  assume "drawn w' \<le> k"
  with assms(5) have k: "drawn w \<le> k" "k \<noteq> drawn w" by simp_all
  let ?r = "''recovery-'' @ pid @ ''-'' @ draws w k"
  from k(1) assms(1) have f: "aget (journal w) (json_name ?r) = None" "aget (disk w) (bak_path store ?r) = None"
    "bak_path store ?r \<noteq> t"
    by (simp_all add: fresh_names_def Let_def)
  have "draws w k \<noteq> draws w (drawn w)"
    using k(2) assms(1) by (auto simp: fresh_names_def dest: injD)
  then have ne: "?r \<noteq> rid" using assms(2) by (simp add: first_id_def)
  then have "json_name ?r \<noteq> json_name rid" "bak_path store ?r \<noteq> bak_path store rid"
    by (simp_all add: json_name_def bak_path_def)
  with f assms(3,4,6) show "aget (journal w') (json_name (''recovery-'' @ pid @ ''-'' @ draws w' k)) = None"
    "aget (disk w') (bak_path store (''recovery-'' @ pid @ ''-'' @ draws w' k)) = None"
    "bak_path store (''recovery-'' @ pid @ ''-'' @ draws w' k) \<noteq> t"
    by simp_all
qed

lemma settled_next:
  assumes "settled_journal pid t w" and "journal w' = aset n \<lparr>jdoc = Doc (JObj d), jmtime = m\<rparr> (journal w)"
    and "valid_receipt d" and "tx_state d \<in> set TERMINAL_STATES"
  shows "settled_journal pid t w'"
  unfolding settled_journal_def
proof
  fix k
  assume k: "k \<in> set (iter_receipt_files w')"
  show "\<exists>d. receipt_at k w' = Some d \<and> (concerns pid t d \<longrightarrow> tx_state d \<in> set TERMINAL_STATES)"
  proof (cases "k = n")
    case True
    with assms(2-4) show ?thesis by (simp add: receipt_at_Some load_doc_def)
  next
    case False
    with k assms(2) have "k \<in> set (iter_receipt_files w)"
      by (auto simp: iter_receipt_files_def glob_journal_def fst_set_aset)
    moreover have "receipt_at k w' = receipt_at k w"
      using False assms(2) by (simp add: receipt_at_def load_doc_def)
    ultimately show ?thesis using assms(1) by (simp add: settled_journal_def)
  qed
qed

lemma prepared_record:
  assumes "r = prepared_receipt H store rid pid t c prev w" and "pid \<noteq> ''''" and "t \<noteq> ''''" and "rid \<noteq> ''''"
  shows "dget r ''tx_state'' = JStr ''PREPARED''" "dget r ''path'' = JStr t" "dget r ''receipt_id'' = JStr rid"
    "valid_receipt (set_post p ''VERIFIED'' r)" "tx_state (set_post p ''VERIFIED'' r) \<in> set TERMINAL_STATES"
  using assms by (simp_all add: prepared_valid valid_set_post KNOWN_STATES_def TERMINAL_STATES_def)

lemma write_goes_through:
  assumes ready: "writable store pid t w" and names: "pid \<noteq> ''''" "t \<noteq> ''''" and H: "digest_text H"
    and cas: "cas_check H t expected w = Inr pre"
    and size: "\<And>b. pre = Some b \<Longrightarrow> int (length b) \<le> MAX_BACKUP_BYTES"
  obtains reply w' where "write_locked H store pid t crel content expected w = (Inr reply, w')"
    "writable store pid t w'" "spares t w w'" "aget (disk w') t = Some (Reg (utf8 content))"
proof -
  let ?rid = "first_id ''recovery'' pid w" and ?h = "H (utf8 content)"
  let ?w2 = "with_backup store ?rid pre (w\<lparr>drawn := Suc (drawn w)\<rparr>)"
  have c: "calm store w" and s: "settled_journal pid t w" and f: "fresh_names store pid t w" and d: "aget (disk w) t \<noteq> Some Dir"
    using ready by (simp_all add: writable_def)
  note fr = fresh_first [OF f refl]
  have j2: "journal ?w2 = journal w" "draws ?w2 = draws w" "drawn ?w2 = Suc (drawn w)"
    by (simp_all add: with_backup_def split: option.split)
  then have "settled_journal pid t ?w2" using s settled_journal_cong [of ?w2 w] by simp
  then obtain prev where prev: "find_superseded_id H pid t pre ?w2 = Inr prev" using superseded_settled by blast
  obtain r where r: "r = prepared_receipt H store ?rid pid t pre prev ?w2" by blast
  let ?w3 = "with_receipt ?rid r ?w2"
  have save: "save_preimage H store pid t pre w = (Inr r, ?w3)"
    using save_preimage_calm [OF c refl fr(1,2) size refl prev r] by (simp add: with_receipt_def)
  have rid: "?rid \<noteq> ''''" by (simp add: first_id_def)
  note p = prepared_record [OF r names rid]
  have d3: "aget (disk ?w3) t \<noteq> Some Dir"
    using d fr(3) by (auto simp: with_backup_def split: option.split)
  let ?w4 = "with_receipt ?rid (set_post ?h ''VERIFIED'' r) (?w3\<lparr>disk := aset t (Reg (utf8 content)) (disk ?w3)\<rparr>)"
  have rep: "replace_target H store t r content ?w3 = (Inr ?h, ?w4)"
    using c d3 p(1-3) H by (intro replace_target_calm) (simp_all add: digest_text_def)
  have run: "write_locked H store pid t crel content expected w = (Inr (write_reply H pid crel r pre ?h), ?w4)"
    using reconcile_settled [OF s] blocking_settled [OF s] cas save rep
    by (simp add: write_locked_def bindM_app)
  have j4: "journal ?w4 = aset (json_name ?rid) \<lparr>jdoc = Doc (JObj (set_post ?h ''VERIFIED'' r)), jmtime = now ?w2\<rparr> (journal w)"
    using j2 by (simp add: with_receipt_def aset_twice)
  have "fresh_names store pid t ?w4"
    by (rule fresh_next [OF f refl j4]) (auto simp: j2 with_backup_def split: option.split)
  moreover have "settled_journal pid t ?w4" by (rule settled_next [OF s j4 p(4,5)])
  moreover have t4: "aget (disk ?w4) t = Some (Reg (utf8 content))" by simp
  ultimately have "writable store pid t ?w4" using c by (simp add: writable_def)
  from run this evolvesD [OF write_locked_spares run] t4 show thesis by (rule that)
qed

section \<open>Edits through the executor\<close>

text \<open>The lock of the target can be taken: its file is accepted and opens, nobody holds it, and a release works.\<close>

definition lockable :: "host \<Rightarrow> resource_lock result \<Rightarrow> exec_state \<Rightarrow> bool" where
  "lockable h lk s \<longleftrightarrow> (case bindR lk (validate_lock (fs h) (mkdir_ok h)) of
      Inr f \<Rightarrow> path_str f \<notin> set (unopenable s) \<and> aget (owner s) (path_str f) = None \<and> \<not> unlock_fails s
    | Inl _ \<Rightarrow> False)"

lemma poll_free: "lock_free f fd s \<Longrightarrow> poll_lock oth f fd n k s = (Inr (), grant f fd s)"
  by (cases n) simp_all

lemma granted_gone: "aget d f = None \<Longrightarrow> aget (filter (\<lambda>p. snd p \<noteq> fd) (aset f fd d)) f = None"
  by (induction d) (auto split: if_splits)

lemma under_lock_runs_body:
  assumes "lockable h lk s" and "\<And>s'. wd s' = wd s \<Longrightarrow> \<exists>w'. body s' = (Inr x, s'\<lparr>wd := w'\<rparr>) \<and> Q w'"
  obtains s' where "under_lock h lk body s = (Inr x, s')" "Q (wd s')" "lockable h lk s'" "tr s' = tr s"
proof -
  obtain l f where l: "lk = Inr l" and v: "validate_lock (fs h) (mkdir_ok h) l = Inr f"
    and s: "path_str f \<notin> set (unopenable s)" "aget (owner s) (path_str f) = None" "\<not> unlock_fails s"
    using assms(1) by (cases lk) (auto simp: lockable_def split: sum.splits)
  let ?f = "path_str f" and ?fd = "next_fd s"
  let ?s1 = "grant ?f ?fd (s\<lparr>next_fd := Suc ?fd\<rparr>)"
  have acq: "acquire (fs h) (mkdir_ok h) (others h) (retries h) l s = (Inr (l\<lparr>lock_path := Some f, handle := Some ?fd\<rparr>), ?s1)"
    using v s by (simp add: acquire_def bindM_app poll_free lock_free_def)
  have "wd ?s1 = wd s" by (simp add: grant_def)
  then obtain w' where b: "body ?s1 = (Inr x, ?s1\<lparr>wd := w'\<rparr>)" "Q w'" using assms(2) by blast
  let ?s2 = "close_fd ?fd (?s1\<lparr>wd := w'\<rparr>)"
  have "under_lock h lk body s = (Inr x, ?s2)"
    using acq b l s by (simp add: under_lock_def bindM_app with_lock_eq grant_def)
  moreover have "lockable h lk ?s2"
    using l v s by (simp add: lockable_def close_fd_def grant_def granted_gone)
  moreover have "wd ?s2 = w'" "tr ?s2 = tr s" by (simp_all add: close_fd_def grant_def)
  ultimately show thesis using that b(2) by simp
qed

definition holds_content :: "string \<Rightarrow> bytes option \<Rightarrow> world \<Rightarrow> bool" where
  "holds_content t c w \<longleftrightarrow> aget (disk w) t = map_option Reg c"

definition editable :: "host \<Rightarrow> executor \<Rightarrow> string \<Rightarrow> string \<Rightarrow> int \<Rightarrow> path \<Rightarrow> exec_state \<Rightarrow> bool" where
  "editable h self pid rel lt target s \<longleftrightarrow> (\<exists>route crel. resolve_project h self pid (wd s) = Inr route \<and>
     lifecycle route \<noteq> ''held'' \<and> \<not> control_plane rel \<and>
     assert_permitted_path (symlinks (fs h)) (route_root h route) rel False None None = Inr (target, crel) \<and>
     outside_host_stores h self target = Inr () \<and> lockable h (target_lock h self target lt) s \<and>
     writable (recovery_store self) pid (path_str target) (wd s))"

text \<open>Edits one after the other, each giving the content it starts from.\<close>

definition edit_all ::
    "host \<Rightarrow> executor \<Rightarrow> string \<Rightarrow> string \<Rightarrow> int \<Rightarrow> bytes option \<Rightarrow> string list \<Rightarrow> (exec_state, bytes option) M" where
  "edit_all h self pid rel lt = foldM (\<lambda>pre content.
     bindM (fs_write h self pid rel content (map_option (sha h) pre) None None lt []) (\<lambda>_. ret (Some (utf8 content))))"

lemma cas_holds: "digest_text H \<Longrightarrow> holds_content t pre w \<Longrightarrow> cas_check H t (map_option H pre) w = Inr pre"
  by (cases pre) (simp_all add: cas_check_def holds_content_def is_file_def read_bytes_def given_def digest_text_def)

lemma path_str_not_empty: "path_str p \<noteq> ''''"
  by (cases p) (simp_all add: path_str_def)

lemma spares_project:
  assumes "resolve_project h self pid w = Inr route" and "spares t w w'" and "aget (disk w) t \<noteq> Some Dir"
  shows "resolve_project h self pid w' = Inr route"
  using assms
  by (auto simp: resolve_project_def dir_in_def is_dir_def spares_def split: option.splits if_splits)

lemma one_edit:
  assumes ready: "editable h self pid rel lt target s" and "pid \<noteq> ''''" and "digest_text (sha h)"
    and pre: "holds_content (path_str target) pre (wd s)"
    and size: "\<And>b. pre = Some b \<Longrightarrow> int (length b) \<le> MAX_BACKUP_BYTES"
  obtains reply s' where "fs_write h self pid rel content (map_option (sha h) pre) None None lt [] s = (Inr reply, s')"
    "editable h self pid rel lt target s'" "holds_content (path_str target) (Some (utf8 content)) (wd s')"
proof -
  let ?t = "path_str target" and ?lk = "target_lock h self target lt"
  obtain route crel where route: "resolve_project h self pid (wd s) = Inr route" "lifecycle route \<noteq> ''held''" "\<not> control_plane rel"
    and perm: "assert_permitted_path (symlinks (fs h)) (route_root h route) rel False None None = Inr (target, crel)"
      "outside_host_stores h self target = Inr ()"
    and lock: "lockable h ?lk s" and wr: "writable (recovery_store self) pid ?t (wd s)"
    using ready by (auto simp: editable_def)
  let ?body = "write_locked (sha h) (recovery_store self) pid ?t crel content (map_option (sha h) pre)"
  from wr assms(2) path_str_not_empty assms(3) cas_holds [OF assms(3) pre] size
  obtain reply w' where run: "?body (wd s) = (Inr reply, w')" and
    next_ok: "writable (recovery_store self) pid ?t w'" "spares ?t (wd s) w'" "aget (disk w') ?t = Some (Reg (utf8 content))"
    by (rule write_goes_through)
  have "\<exists>v. in_world ?body s1 = (Inr reply, s1\<lparr>wd := v\<rparr>) \<and> v = w'" if "wd s1 = wd s" for s1
    using that run by (simp add: in_world_def)
  with lock obtain s' where s': "under_lock h ?lk (in_world ?body) s = (Inr reply, s')" "wd s' = w'" "lockable h ?lk s'"
    by (rule under_lock_runs_body [where Q = "\<lambda>v. v = w'"])
  have "fs_write h self pid rel content (map_option (sha h) pre) None None lt [] s = (Inr reply, s')"
    using route perm s'(1) by (simp add: fs_write_def write_gate_def bindM_app)
  moreover have "aget (disk (wd s)) ?t \<noteq> Some Dir" using wr by (simp add: writable_def)
  with route(1) next_ok(2) have "resolve_project h self pid w' = Inr route" by (rule spares_project)
  with route(2,3) perm s'(2,3) next_ok(1) have "editable h self pid rel lt target s'" unfolding editable_def by blast
  moreover have "holds_content ?t (Some (utf8 content)) (wd s')" using next_ok s' by (simp add: holds_content_def)
  ultimately show thesis by (rule that)
qed

text \<open>C5. An undisturbed edit goes through, and so does every later one: where nothing fails, the project is
  registered and not held, the path permitted, the lock free, the journal valid and closed for the target, and the
  names still to be drawn unused, any sequence of governed writes, each giving the digest of the content before it,
  succeeds; the file ends with the last content, and the next edit is as ready as the first was.\<close>

theorem edits_go_through:
  assumes "editable h self pid rel lt target s" and "pid \<noteq> ''''" and "digest_text (sha h)"
    and "holds_content (path_str target) pre (wd s)"
    and "\<forall>b \<in> set_option pre \<union> utf8 ` set contents. int (length b) \<le> MAX_BACKUP_BYTES"
  shows "\<exists>s'. edit_all h self pid rel lt pre contents s = (Inr (last (pre # map (\<lambda>c. Some (utf8 c)) contents)), s') \<and>
    editable h self pid rel lt target s' \<and>
    holds_content (path_str target) (last (pre # map (\<lambda>c. Some (utf8 c)) contents)) (wd s')"
  using assms
proof (induction contents arbitrary: pre s)
  case (Cons c cs)
  have size: "int (length b) \<le> MAX_BACKUP_BYTES" if "pre = Some b" for b
    using Cons.prems(5) that by simp
  obtain reply s1 where run: "fs_write h self pid rel c (map_option (sha h) pre) None None lt [] s = (Inr reply, s1)"
    and 1: "editable h self pid rel lt target s1" "holds_content (path_str target) (Some (utf8 c)) (wd s1)"
    using Cons.prems(1-4) size by (rule one_edit)
  have "\<forall>b \<in> set_option (Some (utf8 c)) \<union> utf8 ` set cs. int (length b) \<le> MAX_BACKUP_BYTES"
    using Cons.prems(5) by simp
  from Cons.IH [OF 1(1) Cons.prems(2,3) 1(2) this] run show ?case
    by (simp add: edit_all_def bindM_app)
qed (simp add: edit_all_def)

section \<open>Example\<close>

text \<open>A digest that only counts, and names that grow.\<close>

definition tally :: hash where
  "tally b = replicate (Suc (length b)) CHR ''A''"

definition edit_host :: host where
  "edit_host = example_host\<lparr>sha := tally\<rparr>"

definition edit_world :: world where
  "edit_world = small_world\<lparr>draws := \<lambda>n. replicate n CHR ''b''\<rparr>"

definition edit_state :: exec_state where
  "edit_state = example_state\<lparr>wd := edit_world\<rparr>"

lemma tally_digest: "digest_text tally"
proof -
  have A: "upper_char CHR ''A'' = CHR ''A''" "\<not> is_space CHR ''A''" by code_simp+
  have "strip_ws (replicate (Suc n) CHR ''A'') = replicate (Suc n) CHR ''A''" for n
    using A(2) by (simp add: strip_def rstrip_def lstrip_def replicate_append_same)
  with A(1) show ?thesis by (simp add: digest_text_def tally_def upper_def)
qed

lemma edit_fresh: "fresh_names example_store ''p'' ''/p/a'' edit_world"
proof -
  have "inj (\<lambda>n. replicate n CHR ''b'')" by (rule injI) (metis length_replicate)
  then show ?thesis
    by (simp add: fresh_names_def edit_world_def small_world_def bak_path_def example_store_def)
qed

lemma edit_ready: "editable edit_host (example_executor ''active'') ''p'' ''a'' 30 [''p'', ''a''] edit_state"
proof -
  let ?h = edit_host and ?x = "example_executor ''active''" and ?r = "example_route ''active''"
  have "(case resolve_project ?h ?x ''p'' edit_world of Inr r \<Rightarrow> r = ?r | Inl e \<Rightarrow> False)" by code_simp
  then have 1: "resolve_project ?h ?x ''p'' (wd edit_state) = Inr ?r"
    by (simp add: edit_state_def split: sum.splits)
  have 2: "lifecycle ?r \<noteq> ''held''" "\<not> control_plane ''a''" by code_simp+
  have 3: "assert_permitted_path (symlinks (fs ?h)) (route_root ?h ?r) ''a'' False None None = Inr ([''p'', ''a''], ''a'')"
    "outside_host_stores ?h ?x [''p'', ''a''] = Inr ()" "lockable ?h (target_lock ?h ?x [''p'', ''a''] 30) edit_state"
    by code_simp+
  have "calm example_store edit_world" by (simp add: calm_def edit_world_def small_world_def example_store_def)
  moreover have "settled_journal ''p'' ''/p/a'' edit_world"
    by (simp add: settled_journal_def iter_receipt_files_def glob_journal_def edit_world_def small_world_def)
  ultimately have "writable (recovery_store ?x) ''p'' (path_str [''p'', ''a'']) (wd edit_state)"
    using edit_fresh by (simp add: writable_def path_str_def example_executor_def edit_state_def edit_world_def small_world_def)
  with 1 2 3 show ?thesis unfolding editable_def by blast
qed

theorem edits_go_through_witness:
  "\<exists>s'. edit_all edit_host (example_executor ''active'') ''p'' ''a'' 30 (Some ''x'') [''y'', ''''] edit_state = (Inr (Some ''''), s') \<and>
     aget (disk (wd s')) ''/p/a'' = Some (Reg '''')"
proof -
  have p: "path_str [''p'', ''a''] = ''/p/a''" by (simp add: path_str_def)
  have "holds_content ''/p/a'' (Some ''x'') (wd edit_state)"
    by (simp add: holds_content_def edit_state_def edit_world_def small_world_def)
  moreover have "digest_text (sha edit_host)" by (simp add: edit_host_def tally_digest)
  moreover have u: "utf8 ''y'' = ''y''" "utf8 '''' = ''''" by code_simp+
  ultimately have "\<exists>s'. edit_all edit_host (example_executor ''active'') ''p'' ''a'' 30 (Some ''x'') [''y'', ''''] edit_state = (Inr (Some ''''), s') \<and>
      editable edit_host (example_executor ''active'') ''p'' ''a'' 30 [''p'', ''a''] s' \<and> holds_content ''/p/a'' (Some '''') (wd s')"
    using edits_go_through [OF edit_ready, where pre = "Some ''x''" and contents = "[''y'', '''']"] p
    by (simp add: MAX_BACKUP_BYTES_def)
  then show ?thesis by (auto simp: holds_content_def)
qed
end
