(* ===== verification/Demo.thy ===== *)
theory Demo
  imports Gitops Continuity Routing Pretty
begin

text \<open>
  \<open>src/jvc/demo.py\<close>: two projects in a directory of their own, and fifteen steps through all
  components: registry, routing, a declared check, governed writes and a rollback, staging and committing,
  and the continuity state.

  \<open>demo_state\<close> puts together what the executor works on and the JSON files below the
  \<open>.continuity\<close> directory of the first project. \<open>stage\<close> is what the process finds: the
  host, the same for the continuity manager, \<open>sys.executable\<close>, what waiting for a lock at
  startup comes to, and the texts of exceptions, which depend on where they are raised. Of the temporary directory,
  whose name is \<open>base\<close>, only the files in it are recorded; its removal is one effect.
\<close>

record demo_state =
  es :: exec_state
  state_files :: "(string, jfile) alist"

record stage =
  host_of :: host
  surface_of :: surface
  executable :: string
  await_target :: "string \<Rightarrow> (world, unit) M"
  exception_text :: "exec_state \<Rightarrow> exn \<Rightarrow> string"

definition in_exec :: "(exec_state, 'a) M \<Rightarrow> (demo_state, 'a) M" where
  "in_exec m = (\<lambda>s. case m (es s) of (r, e) \<Rightarrow> (r, s\<lparr>es := e\<rparr>))"

text \<open>The continuity manager sees the same files, with the JSON files of its own directory.\<close>

definition in_continuity :: "(continuity_state, 'a) M \<Rightarrow> (demo_state, 'a) M" where
  "in_continuity m = (\<lambda>s.
     let e = es s;
         c = \<lparr>owner = owner e, next_fd = next_fd e, unopenable = unopenable e, unlock_fails = unlock_fails e,
              cw = (wd e)\<lparr>journal := state_files s\<rparr>\<rparr>
     in case m c of (r, c') \<Rightarrow> (r, s\<lparr>
          es := e\<lparr>owner := owner c', next_fd := next_fd c', unopenable := unopenable c', unlock_fails := unlock_fails c',
                   wd := (cw c')\<lparr>journal := journal (wd e)\<rparr>\<rparr>,
          state_files := journal (cw c')\<rparr>))"

section \<open>Fixtures\<close>

definition located :: "fsview \<Rightarrow> path \<Rightarrow> (world, string) M" where
  "located F p = readM (\<lambda>_. bindR (resolved_path (symlinks F) p) (\<lambda>q. Inr (path_str q)))"

text \<open>\<open>mkdir(parents=True, exist_ok=True)\<close>.\<close>

definition make_dir :: "fsview \<Rightarrow> path \<Rightarrow> (world, unit) M" where
  "make_dir F p = bindM (located F p) (\<lambda>d w. case aget (disk w) d of
      Some Dir \<Rightarrow> (Inr (), w)
    | Some _ \<Rightarrow> (Inl FileExistsError, w)
    | None \<Rightarrow> effect (\<lambda>w. d \<in> set (denied w)) (\<lambda>w. w\<lparr>disk := aset d Dir (disk w)\<rparr>) w)"

definition write_text :: "fsview \<Rightarrow> path \<Rightarrow> string \<Rightarrow> (world, unit) M" where
  "write_text F p text = bindM (located F p) (\<lambda>f. write_bytes f (utf8 text))"

text \<open>\<open>subprocess.run(args, cwd=d, check=True, capture_output=True)\<close>.\<close>

definition run_checked :: "platform \<Rightarrow> string \<Rightarrow> string list \<Rightarrow> (procs, unit) M" where
  "run_checked P d as =
     bindM (start P \<lparr>argv = as, directory = Some d, time_limit = None, environment = None\<rparr>) (\<lambda>out. case out of
       Exited rc so se \<Rightarrow> if rc \<noteq> 0 then raise CalledProcessError else ret ()
     | TimedOut m so se \<Rightarrow> raise TimeoutExpired
     | CannotStart m \<Rightarrow> raise OSError)"

definition GIT_SETUP :: "string list list" where
  "GIT_SETUP =
     [[''git'', ''init''], [''git'', ''config'', ''core.autocrlf'', ''false''],
      [''git'', ''config'', ''user.name'', ''Demo User''], [''git'', ''config'', ''user.email'', ''demo@example.invalid'']]"

definition nl :: string where
  "nl = [chr 10]"

text \<open>\<open>print('...')\<close>.\<close>

definition print_of :: "string \<Rightarrow> string" where
  "print_of s = ''print('' @ [CHR 0x27] @ s @ [CHR 0x27] @ '')''"

definition app_contract :: "string \<Rightarrow> string \<Rightarrow> dict" where
  "app_contract exe dir_text =
     [(''schema_version'', JInt 1), (''project_id'', JStr ''demo-app''), (''cwd'', JStr dir_text),
      (''persistence'', JStr ''git''), (''privacy'', JStr ''standard''), (''permission_class'', JStr ''read-test''),
      (''runtime'', JObj [(''kind'', JStr ''python''), (''candidates'', JArr [JArr [JStr exe]]),
         (''probe_argv'', JArr [JStr ''-c'', JStr (print_of ''ready'')])]),
      (''preflight'', JObj [(''argv'', JArr [JStr ''{runtime}'', JStr ''-c'',
            JStr (print_of ''PASS: demo preflight ready'')]),
         (''timeout_seconds'', JInt 10), (''expected_exit'', JInt 0),
         (''expected_contains'', JStr ''PASS: demo preflight ready'')]),
      (''verify'', JNull), (''write_policy'', JStr ''governed writes only'')]"

definition lib_contract :: "string \<Rightarrow> dict" where
  "lib_contract dir_text =
     [(''schema_version'', JInt 1), (''project_id'', JStr ''demo-library''), (''cwd'', JStr dir_text),
      (''persistence'', JStr ''git''), (''privacy'', JStr ''standard''), (''permission_class'', JStr ''docs-only''),
      (''runtime'', JObj [(''kind'', JStr ''none''), (''candidates'', JArr []), (''probe_argv'', JArr [])]),
      (''preflight'', JNull), (''verify'', JNull), (''write_policy'', JStr ''governed writes only'')]"

definition agents_text :: "string \<Rightarrow> dict \<Rightarrow> string" where
  "agents_text title contract =
     title @ nl @ nl @ ''<!-- ICM_EXECUTION_START -->'' @ nl @ replicate 3 CHR 0x60 @ ''json'' @ nl @
     pretty 0 (JObj contract) @ nl @ replicate 3 CHR 0x60 @ nl @ ''<!-- ICM_EXECUTION_END -->'' @ nl"

definition demo_route :: "string \<Rightarrow> string list \<Rightarrow> path \<Rightarrow> route" where
  "demo_route pid names r = \<lparr>project_id = pid, aliases = names, root_path = \<lparr>anchored = True, parts = r\<rparr>,
     startup = [''AGENTS.md'', ''CONTEXT.md'', ''HANDOFF.md''], handoff = ''HANDOFF.md'', status = ''active''\<rparr>"

definition demo_registry :: "path \<Rightarrow> path \<Rightarrow> registry" where
  "demo_registry app lib = make_registry
     [demo_route ''demo-app'' [''demo-app'', ''app'', ''application''] app,
      demo_route ''demo-library'' [''demo-library'', ''lib'', ''library'', ''helper''] lib]"

definition app_files :: "string \<Rightarrow> string \<Rightarrow> (string \<times> string) list" where
  "app_files exe dir_text =
     [(''AGENTS.md'', agents_text ''# Demo App Agents'' (app_contract exe dir_text)),
      (''CONTEXT.md'', ''# Demo App Context'' @ nl),
      (''HANDOFF.md'', ''# Demo App Handoff'' @ nl @ nl @ ''Initial state.'' @ nl),
      (''app.py'', print_of ''hello demo'' @ nl)]"

definition lib_files :: "string \<Rightarrow> (string \<times> string) list" where
  "lib_files dir_text =
     [(''AGENTS.md'', agents_text ''# Demo Library Agents'' (lib_contract dir_text)),
      (''CONTEXT.md'', ''# Demo Library Context'' @ nl),
      (''HANDOFF.md'', ''# Demo Library Handoff'' @ nl @ nl @ ''Library state.'' @ nl),
      (''lib.py'', ''def helper(): return 42'' @ nl)]"

definition write_files :: "fsview \<Rightarrow> path \<Rightarrow> (string \<times> string) list \<Rightarrow> (world, unit) M" where
  "write_files F d files = foldM (\<lambda>_ (name, text). write_text F (d @ [name]) text) () files"

definition setup_demo_fixtures :: "stage \<Rightarrow> path \<Rightarrow> (exec_state, path \<times> registry) M" where
  "setup_demo_fixtures E base =
     (let h = host_of E; F = fs h; app = base @ [''demo-app'']; lib = base @ [''demo-library''] in
      bindM (in_world (make_dir F app)) (\<lambda>_.
      bindM (in_world (make_dir F lib)) (\<lambda>_.
      bindM (foldM (\<lambda>_ d. foldM (\<lambda>_ as. in_procs (run_checked (plat h) (path_str d) as)) () GIT_SETUP) () [app, lib]) (\<lambda>_.
      bindM (readM (\<lambda>_. resolved_path (symlinks F) app)) (\<lambda>app_root.
      bindM (in_world (write_files F app (app_files (executable E) (path_str app_root)))) (\<lambda>_.
      bindM (readM (\<lambda>_. resolved_path (symlinks F) lib)) (\<lambda>lib_root.
      bindM (in_world (write_files F lib (lib_files (path_str lib_root)))) (\<lambda>_.
      ret (app, demo_registry app_root lib_root)))))))))"

section \<open>The steps\<close>

definition result_of :: "string \<Rightarrow> bool \<Rightarrow> string \<Rightarrow> dict" where
  "result_of label ok text =
     [(''name'', JStr label), (''status'', JStr (if ok then ''PASS'' else ''FAIL'')), (''detail'', JStr text)]"

text \<open>The directories and files as they are now.\<close>

definition view_of :: "fsview \<Rightarrow> world \<Rightarrow> fsview" where
  "view_of F w = F\<lparr>dirs := \<lambda>p. is_dir (path_str p) w, regular := \<lambda>p. is_file (path_str p) w\<rparr>"

definition load_registry_step :: "host \<Rightarrow> registry \<Rightarrow> (exec_state, dict) M" where
  "load_registry_step h g = readM (\<lambda>s.
     bindR (validate (view_of (fs h) (wd s)) g True True) (\<lambda>v.
     Inr (result_of ''create/load project registry'' (Registry.verdict v = ''PASS'' \<and> route_count v = 2)
       (''routes='' @ nat_digits (route_count v) @ '', aliases='' @ nat_digits (alias_count v)))))"

definition routed :: "dict \<Rightarrow> json list" where
  "routed r = (case dget r ''routes'' of JArr rs \<Rightarrow> rs | _ \<Rightarrow> [])"

definition first_project :: "dict \<Rightarrow> json" where
  "first_project r = (case routed r of JObj d # _ \<Rightarrow> dget d ''project_id'' | _ \<Rightarrow> JNull)"

definition query_step :: "stage \<Rightarrow> registry \<Rightarrow> string \<Rightarrow> (dict \<Rightarrow> dict) \<Rightarrow> (exec_state, dict) M" where
  "query_step E g q judged = readM (\<lambda>s.
     bindR (resolve_query (fs (host_of E)) (plat (host_of E)) (exception_text E s) (wd s) q (list_routes g))
       (\<lambda>r. Inr (judged r)))"

definition routed_to :: "string \<Rightarrow> dict \<Rightarrow> dict" where
  "routed_to pid r = result_of (''route '' @ pid) (dget r ''status'' = JStr ''ROUTED'' \<and> first_project r = JStr pid)
     (''status='' @ py_str (dget r ''status'') @ '', routed_to='' @ py_str (first_project r))"

definition unknown_route :: "dict \<Rightarrow> dict" where
  "unknown_route r = result_of ''reject unknown route'' (dget r ''status'' = JStr ''UNKNOWN'' \<and> length (routed r) = 0)
     (''status='' @ py_str (dget r ''status'') @ '', routes_count='' @ nat_digits (length (routed r)))"

definition ambiguous_route :: "dict \<Rightarrow> dict" where
  "ambiguous_route r =
     result_of ''reject intentionally ambiguous route'' (dget r ''status'' = JStr ''AMBIGUOUS'' \<and> length (routed r) = 2)
       (''status='' @ py_str (dget r ''status'') @ '', matches='' @ nat_digits (length (routed r)))"

text \<open>\<open>d["status"] == "PASS"\<close> with what must hold besides, looked at only then.\<close>

definition passes :: "dict \<Rightarrow> bool result \<Rightarrow> bool result" where
  "passes d rest = bindR (item_get d ''status'') (\<lambda>v. if v = JStr ''PASS'' then rest else Inr False)"

definition preflight_step :: "stage \<Rightarrow> path \<Rightarrow> (exec_state, dict) M" where
  "preflight_step E app =
     (let h = host_of E; agents = \<lparr>anchored = True, parts = app @ [''AGENTS.md'']\<rparr>;
          runtime = [(''status'', JStr ''PASS''), (''kind'', JStr ''python''), (''argv'', JArr [JStr (executable E)]),
                     (''detail'', JStr (executable E))]
      in bindM (readM (\<lambda>s. load_contract (fs h) (plat h) agents (wd s))) (\<lambda>c.
         bindM (in_procs (run_check (plat h) (to_dict c) ''preflight'' runtime (path_str app) None)) (\<lambda>res.
         bindM (readM (\<lambda>_. passes res (bindR (item_get res ''returncode'') (\<lambda>rc. Inr (py_eq rc (JInt 0)))))) (\<lambda>ok.
         ret (result_of ''run declared preflight'' ok
           (''status='' @ py_str (dget res ''status'') @ '', exit_code='' @ py_str (dget res ''returncode'')))))))"

text \<open>\<open>except PermissionError\<close>, then \<open>except Exception\<close>.\<close>

definition refused :: "exn \<Rightarrow> ('s, 'a) M \<Rightarrow> ('s, bool) M" where
  "refused c m = (\<lambda>s. case m s of
      (Inr _, s') \<Rightarrow> (Inr False, s')
    | (Inl e, s') \<Rightarrow> if e = PowerLoss then (Inl e, s') else (Inr (is_a e c), s'))"

text \<open>\<open>except c as exc: passed = needle in str(exc)\<close>.\<close>

definition refused_saying :: "('s \<Rightarrow> exn \<Rightarrow> string) \<Rightarrow> exn \<Rightarrow> string \<Rightarrow> ('s, 'a) M \<Rightarrow> ('s, bool) M" where
  "refused_saying say c needle m = (\<lambda>s. case m s of
      (Inr _, s') \<Rightarrow> (Inr False, s')
    | (Inl e, s') \<Rightarrow> if is_a e c then (Inr (contains needle (say s' e)), s') else (Inl e, s'))"

definition governed_write :: "stage \<Rightarrow> executor \<Rightarrow> string \<Rightarrow> string \<Rightarrow> string option \<Rightarrow> (exec_state, dict) M" where
  "governed_write E x rel content expected = fs_write (host_of E) x ''demo-app'' rel content expected None None 30 []"

definition protected_step :: "stage \<Rightarrow> executor \<Rightarrow> (exec_state, dict) M" where
  "protected_step E x =
     bindM (refused PermissionError (governed_write E x ''.git/hooks/pre-commit'' ''# malicious hook'' None)) (\<lambda>ok.
     ret (result_of ''attempt a protected write and reject it'' ok
       ''control-plane path .git/hooks/pre-commit correctly rejected with PermissionError''))"

text \<open>\<open>sha256_file\<close> and \<open>read_text\<close> of a file of the first project.\<close>

definition hash_in :: "stage \<Rightarrow> path \<Rightarrow> string \<Rightarrow> (exec_state, string) M" where
  "hash_in E app rel = readM (\<lambda>s. bindR (read_in (fs (host_of E)) \<lparr>anchored = True, parts = app @ [rel]\<rparr> (wd s))
     (\<lambda>b. Inr (sha (host_of E) b)))"

definition text_of_file :: "stage \<Rightarrow> path \<Rightarrow> string \<Rightarrow> exec_state \<Rightarrow> string result" where
  "text_of_file E app rel s = bindR (read_in (fs (host_of E)) \<lparr>anchored = True, parts = app @ [rel]\<rparr> (wd s)) read_text"

definition write_step :: "stage \<Rightarrow> executor \<Rightarrow> path \<Rightarrow> string \<Rightarrow> (exec_state, dict) M" where
  "write_step E x app initial =
     (let content = print_of ''hello updated demo'' @ nl in
      bindM (governed_write E x ''app.py'' content (Some initial)) (\<lambda>w_res.
      bindM (readM (\<lambda>s. passes w_res (bindR (text_of_file E app ''app.py'' s) (\<lambda>t. Inr (t = content))))) (\<lambda>ok.
      ret (result_of ''perform an authorized governed write'' ok
        (''write receipt_id='' @ py_str (dget w_res ''receipt_id'') @ '', postimage='' @
         py_str (dget w_res ''postimage_sha256''))))))"

definition stale_step :: "stage \<Rightarrow> executor \<Rightarrow> string \<Rightarrow> (exec_state, dict) M" where
  "stale_step E x initial =
     bindM (refused_saying (exception_text E) ValueError ''preimage CAS conflict''
       (governed_write E x ''app.py'' (print_of ''stale edit'' @ nl) (Some initial))) (\<lambda>ok.
     ret (result_of ''retry with stale preimage and reject it'' ok ''stale preimage CAS conflict rejected with ValueError''))"

definition rollback_step :: "stage \<Rightarrow> executor \<Rightarrow> path \<Rightarrow> string \<Rightarrow> (exec_state, dict) M" where
  "rollback_step E x app initial =
     bindM (hash_in E app ''app.py'') (\<lambda>current.
     bindM (fs_rollback (host_of E) x ''demo-app'' ''app.py'' current 30) (\<lambda>rb_res.
     bindM (hash_in E app ''app.py'') (\<lambda>restored.
     bindM (readM (\<lambda>_. item_get rb_res ''status'')) (\<lambda>st.
     ret (result_of ''rollback'' (st = JStr ''ROLLED_BACK'' \<and> restored = initial)
       (''restored_sha256='' @ take 16 restored @ ''... matches initial='' @ take 16 initial @ ''...''))))))"

definition plain_reply :: "git_reply \<Rightarrow> dict" where
  "plain_reply r = (case r of Plain d \<Rightarrow> d | Read _ \<Rightarrow> [])"

definition stage_step :: "stage \<Rightarrow> executor \<Rightarrow> path \<Rightarrow> string \<Rightarrow> (exec_state, dict) M" where
  "stage_step E x app initial =
     bindM (governed_write E x ''app.py'' (print_of ''feature branch demo'' @ nl) (Some initial)) (\<lambda>_.
     bindM (git_stage (host_of E) x ''demo-app'' [''app.py'']) (\<lambda>reply.
     let stage_res = plain_reply reply in
     bindM (staged_files (host_of E) x (demo_route ''demo-app'' [] app)) (\<lambda>names.
     bindM (readM (\<lambda>_. passes stage_res (Inr (''app.py'' \<in> set names)))) (\<lambda>ok.
     ret (result_of ''stage the exact owned file'' ok (''staged_paths='' @ py_str (dget stage_res ''staged_paths'')))))))"

definition commit_step :: "stage \<Rightarrow> executor \<Rightarrow> (exec_state, dict) M" where
  "commit_step E x =
     bindM (git_commit (host_of E) x ''demo-app'' ''feat: update app for demo'') (\<lambda>reply.
     let commit_res = plain_reply reply in
     bindM (readM (\<lambda>_. passes commit_res
       (bindR (iterate (get_default commit_res ''committed_paths'' (JArr []))) (\<lambda>ps. Inr (JStr ''app.py'' \<in> set ps))))) (\<lambda>ok.
     ret (result_of ''commit the exact owned file'' ok
       (''committed_paths='' @ py_str (dget commit_res ''committed_paths'')))))"

definition init_step :: "stage \<Rightarrow> manager \<Rightarrow> (demo_state, dict) M" where
  "init_step E cm =
     bindM (in_continuity (init_state (surface_of E) cm ''demo-app'' ''git'' ''standard'' 30)) (\<lambda>init_res.
     bindM (readM (\<lambda>s. passes init_res (Inr (aget (state_files s) STATE_FILE \<noteq> None)))) (\<lambda>ok.
     ret (result_of ''initialize continuity'' ok (''initialized revision='' @ py_str (dget init_res ''revision'')))))"

definition checkpoint_step :: "stage \<Rightarrow> manager \<Rightarrow> string \<Rightarrow> (demo_state, dict) M" where
  "checkpoint_step E cm cur_h_sha =
     bindM (in_continuity (checkpoint (surface_of E) cm cur_h_sha
       (JObj [(''summary'', JStr ''Demo step 14 checkpoint'')]) (JInt 1) 30)) (\<lambda>cp_res.
     bindM (readM (\<lambda>_. passes cp_res (bindR (item_get cp_res ''metadata_revision'') (\<lambda>v. Inr (py_eq v (JInt 2)))))) (\<lambda>ok.
     ret (result_of ''mutate revision'' ok
       (''advanced metadata_revision to '' @ py_str (dget cp_res ''metadata_revision'')))))"

definition stale_checkpoint_step :: "stage \<Rightarrow> manager \<Rightarrow> string \<Rightarrow> (demo_state, dict) M" where
  "stale_checkpoint_step E cm cur_h_sha =
     bindM (refused_saying (\<lambda>s. exception_text E (es s)) ConflictError ''revision conflict''
       (in_continuity (checkpoint (surface_of E) cm cur_h_sha
         (JObj [(''summary'', JStr ''Stale checkpoint'')]) (JInt 1) 30))) (\<lambda>ok.
     ret (result_of ''reject stale continuity revision'' ok ''stale metadata revision 1 rejected with ConflictError''))"

section \<open>The demonstration\<close>

definition start_executor :: "stage \<Rightarrow> path \<Rightarrow> registry \<Rightarrow> (exec_state, executor) M" where
  "start_executor E base g =
     (let h = host_of E in
      bindM (readM (\<lambda>_. new_executor (fs h) g (base @ [''recovery'']) None [] None [] (temp_dir h @ [''jvc-locks'']))) (\<lambda>x.
      bindM (\<lambda>s. (Inr (), s\<lparr>staged := []\<rparr>)) (\<lambda>_.
      bindM (in_world (startup_recovery h x (await_target E))) (\<lambda>_.
      ret x))))"

text \<open>Steps 1 to 12, on the executor, and 13 to 15, on the continuity manager.\<close>

definition feature_steps :: "stage \<Rightarrow> path \<Rightarrow> registry \<Rightarrow> executor \<Rightarrow> (exec_state, dict list) M" where
  "feature_steps E app g x =
     bindM (load_registry_step (host_of E) g) (\<lambda>r1.
     bindM (query_step E g ''work on demo app features'' (routed_to ''demo-app'')) (\<lambda>r2.
     bindM (query_step E g ''inspect the library helper module'' (routed_to ''demo-library'')) (\<lambda>r3.
     bindM (query_step E g ''update payments system'' unknown_route) (\<lambda>r4.
     bindM (query_step E g ''check app library'' ambiguous_route) (\<lambda>r5.
     bindM (preflight_step E app) (\<lambda>r6.
     bindM (protected_step E x) (\<lambda>r7.
     bindM (hash_in E app ''app.py'') (\<lambda>initial.
     bindM (write_step E x app initial) (\<lambda>r8.
     bindM (stale_step E x initial) (\<lambda>r9.
     bindM (rollback_step E x app initial) (\<lambda>r10.
     bindM (stage_step E x app initial) (\<lambda>r11.
     bindM (commit_step E x) (\<lambda>r12.
     ret [r1, r2, r3, r4, r5, r6, r7, r8, r9, r10, r11, r12])))))))))))))"

definition executor_steps :: "stage \<Rightarrow> path \<Rightarrow> (exec_state, path \<times> dict list) M" where
  "executor_steps E base =
     bindM (setup_demo_fixtures E base) (\<lambda>(app, g).
     bindM (start_executor E base g) (\<lambda>x.
     bindM (feature_steps E app g x) (\<lambda>rs.
     ret (app, rs))))"

definition continuity_steps :: "stage \<Rightarrow> path \<Rightarrow> (demo_state, dict list) M" where
  "continuity_steps E app =
     bindM (readM (\<lambda>_. new_manager (fs (host_of E)) app (temp_dir (host_of E) @ [''jvc-locks'']))) (\<lambda>cm.
     bindM (init_step E cm) (\<lambda>r13.
     bindM (in_exec (hash_in E app ''HANDOFF.md'')) (\<lambda>cur_h_sha.
     bindM (checkpoint_step E cm cur_h_sha) (\<lambda>r14.
     bindM (stale_checkpoint_step E cm cur_h_sha) (\<lambda>r15.
     ret [r13, r14, r15])))))"

definition demo_steps :: "stage \<Rightarrow> path \<Rightarrow> (demo_state, (nat \<times> dict) list) M" where
  "demo_steps E base =
     bindM (in_exec (executor_steps E base)) (\<lambda>(app, rs).
     bindM (continuity_steps E app) (\<lambda>last_three.
     ret (enumerate 1 (rs @ last_three))))"

definition below :: "path \<Rightarrow> string \<Rightarrow> bool" where
  "below base p \<longleftrightarrow> p = path_str base \<or> startswith p (path_str base @ ''/'')"

definition cleanup :: "path \<Rightarrow> (demo_state, unit) M" where
  "cleanup base =
     bindM (in_exec (in_world (effect (\<lambda>w. \<exists>p \<in> set (denied w). below base p)
       (\<lambda>w. w\<lparr>disk := filter (\<lambda>e. \<not> below base (fst e)) (disk w), journal := []\<rparr>)))) (\<lambda>_.
     (\<lambda>s. (Inr (), s\<lparr>state_files := []\<rparr>)))"

text \<open>In a temporary directory, removed at the end however the steps end, or in the given one.\<close>

definition run_demo :: "stage \<Rightarrow> path option \<Rightarrow> path \<Rightarrow> (demo_state, (nat \<times> dict) list) M" where
  "run_demo E base_dir temp = (case base_dir of
      Some d \<Rightarrow> bindM (readM (\<lambda>_. resolved_path (symlinks (fs (host_of E))) d)) (demo_steps E)
    | None \<Rightarrow> (\<lambda>s. case demo_steps E temp s of (r, s') \<Rightarrow>
        if r = Inl PowerLoss then (r, s')
        else case cleanup temp s' of (Inl e, s'') \<Rightarrow> (Inl e, s'') | (Inr _, s'') \<Rightarrow> (r, s'')))"

definition all_passed :: "(nat \<times> dict) list \<Rightarrow> bool" where
  "all_passed rs \<longleftrightarrow> (\<forall>(n, r) \<in> set rs. dget r ''status'' = JStr ''PASS'')"

definition printed :: "(nat \<times> dict) list \<Rightarrow> string list" where
  "printed rs =
     (let rule = replicate 50 CHR ''='' in
      [rule, ''       JVC Core Synthetic Demo Verification       '', rule] @
      concat (map (\<lambda>(n, r).
        [''Step '' @ zero_pad 2 (nat_digits n) @ '': ['' @ (if dget r ''status'' = JStr ''PASS'' then ''PASS'' else ''FAIL'') @
           ''] '' @ py_str (dget r ''name''),
         ''         Detail: '' @ py_str (dget r ''detail'')]) rs) @
      [rule, ''Result: '' @ (if all_passed rs then ''ALL 15 STEPS PASSED'' else ''SOME STEPS FAILED''), rule])"

text \<open>What is printed, and the exit code; an exception ends the process with a traceback.\<close>

definition demo_main :: "stage \<Rightarrow> path \<Rightarrow> (demo_state, string list \<times> int) M" where
  "demo_main E temp =
     bindM (run_demo E None temp) (\<lambda>rs. ret (printed rs, if all_passed rs then 0 else 1))"

section \<open>The demonstration keeps to its directory\<close>

definition outer :: "path \<Rightarrow> world \<Rightarrow> string \<Rightarrow> node option" where
  "outer base w = aget (disk w) |` {p. \<not> below base p}"

abbreviation outer_e :: "path \<Rightarrow> exec_state \<Rightarrow> string \<Rightarrow> node option" where
  "outer_e base s \<equiv> outer base (wd s)"

abbreviation outer_d :: "path \<Rightarrow> demo_state \<Rightarrow> string \<Rightarrow> node option" where
  "outer_d base s \<equiv> outer base (wd (es s))"

text \<open>
  Programs and other processes leave the files outside the directory alone, no link below it
  leads out of it, and waiting at startup changes no file.
\<close>

definition harmless :: "host \<Rightarrow> path \<Rightarrow> bool" where
  "harmless h base \<longleftrightarrow>
     (\<forall>cs c w. outer base (snd (launcher (plat h) cs c w)) = outer base w) \<and>
     (\<forall>k s. outer base (wd (others h k s)) = outer base (wd s))"

definition confined :: "stage \<Rightarrow> path \<Rightarrow> bool" where
  "confined E base \<longleftrightarrow> base \<noteq> [] \<and> harmless (host_of E) base \<and>
     (\<forall>k s. outer base (cw (smeddle (surface_of E) k s)) = outer base (cw s)) \<and>
     (\<forall>p q. (\<forall>c \<in> set p. plain_name c) \<longrightarrow> resolve (symlinks (fs (host_of E))) (base @ p) = Some q \<longrightarrow>
        is_prefix_list base q) \<and>
     (\<forall>t. evolves (frames disk) (await_target E t))"

lemma path_str_below: "base \<noteq> [] \<Longrightarrow> is_prefix_list base p \<Longrightarrow> below base (path_str p)"
proof -
  assume b: "base \<noteq> []" and "is_prefix_list base p"
  then obtain r where p: "p = base @ r" by (auto simp: is_prefix_list_iff)
  show "below base (path_str p)"
  proof (cases r)
    case Nil
    with p show ?thesis by (simp add: below_def)
  next
    case (Cons c cs)
    with p b show ?thesis by (simp add: below_def path_str_def is_prefix_list_iff)
  qed
qed

subsection \<open>Files\<close>

lemma outer_aset [simp]: "below base d \<Longrightarrow> outer base (w\<lparr>disk := aset d v (disk w)\<rparr>) = outer base w"
  by (auto simp: outer_def restrict_map_def)

lemma outer_simps [simp]:
  "outer base (w\<lparr>journal := j\<rparr>) = outer base w" "outer base (w\<lparr>budget := b\<rparr>) = outer base w"
  "outer base (w\<lparr>drawn := n\<rparr>) = outer base w"
  by (simp_all add: outer_def)

lemma outer_disk: "evolves (frames disk) m \<Longrightarrow> evolves (frames (outer base)) m"
  by (simp add: evolves_def frames_def outer_def)

lemma outer_but: "evolves (frames (files_but t)) m \<Longrightarrow> below base t \<Longrightarrow> evolves (frames (outer base)) m"
  unfolding evolves_def frames_def outer_def files_but_def restrict_map_def by (auto simp: fun_eq_iff) metis

lemma write_bytes_outer: "below base p \<Longrightarrow> evolves (frames (outer base)) (write_bytes p b)"
  by (rule outer_but [OF write_bytes_but])

lemma make_dir_outer:
  assumes "\<And>q. resolve (symlinks F) p = Some q \<Longrightarrow> below base (path_str q)"
  shows "evolves (frames (outer base)) (make_dir F p)"
  unfolding make_dir_def located_def
proof (rule frame.readM_evolves_at)
  fix d w
  assume "bindR (resolved_path (symlinks F) p) (\<lambda>q. Inr (path_str q)) = Inr d"
  then have b: "below base d" using assms by (auto simp: bindR_Inr_iff resolved_path_def split: option.splits)
  have "evolves (frames (outer base)) (effect (\<lambda>w. d \<in> set (denied w)) (\<lambda>w. w\<lparr>disk := aset d Dir (disk w)\<rparr>))"
    using b by (intro effect_evolves frame.evolution_axioms) (simp_all add: frames_def)
  then show "frames (outer base) w (snd (case aget (disk w) d of None \<Rightarrow>
      effect (\<lambda>w. d \<in> set (denied w)) (\<lambda>w. w\<lparr>disk := aset d Dir (disk w)\<rparr>) w
    | Some Dir \<Rightarrow> (Inr (), w) | Some _ \<Rightarrow> (Inl FileExistsError, w)))"
    by (auto simp: evolves_def frames_def split: option.split node.split)
qed

lemma write_text_outer:
  assumes "\<And>q. resolve (symlinks F) p = Some q \<Longrightarrow> below base (path_str q)"
  shows "evolves (frames (outer base)) (write_text F p text)"
  unfolding write_text_def located_def
proof (rule frame.readM_evolves_at)
  fix f w
  assume "bindR (resolved_path (symlinks F) p) (\<lambda>q. Inr (path_str q)) = Inr f"
  then have "below base f" using assms by (auto simp: bindR_Inr_iff resolved_path_def split: option.splits)
  then show "frames (outer base) w (snd (write_bytes f (utf8 text) w))"
    using write_bytes_outer by (simp add: evolves_def)
qed

lemma write_files_outer:
  assumes "\<And>n text q. (n, text) \<in> set files \<Longrightarrow> resolve (symlinks F) (d @ [n]) = Some q \<Longrightarrow> below base (path_str q)"
  shows "evolves (frames (outer base)) (write_files F d files)"
  using assms
proof (induction files)
  case Nil
  show ?case unfolding write_files_def foldM.simps by (rule frame.ret_evolves)
next
  case (Cons x files)
  obtain n t where x: "x = (n, t)" by (cases x)
  have "evolves (frames (outer base)) (bindM (write_text F (d @ [n]) t) (\<lambda>_. write_files F d files))"
    using Cons x by (intro frame.bindM_evolves write_text_outer) auto
  with x show ?case by (simp add: write_files_def)
qed

subsection \<open>Lifting to the states of the executor and of the demonstration\<close>

lemma in_world_outer: "evolves (frames (outer base)) m \<Longrightarrow> evolves (frames (outer_e base)) (in_world m)"
  by (auto simp: evolves_def frames_def in_world_def split: prod.split) (metis snd_conv)

lemma in_exec_outer: "evolves (frames (outer_e base)) m \<Longrightarrow> evolves (frames (outer_d base)) (in_exec m)"
  by (auto simp: evolves_def frames_def in_exec_def split: prod.split) (metis snd_conv)

lemma in_procs_outer:
  "evolves (frames (\<lambda>s. outer base (surroundings s))) m \<Longrightarrow> evolves (frames (outer_e base)) (in_procs m)"
  by (auto simp: evolves_def frames_def in_procs_def split: prod.split) (metis procs.select_convs(1) snd_conv)

lemma in_continuity_outer:
  assumes "evolves (frames (\<lambda>s. outer base (cw s))) m"
  shows "evolves (frames (outer_d base)) (in_continuity m)"
proof -
  have "outer base (cw t) = outer base (wd (es s))"
    if "m \<lparr>owner = owner (es s), next_fd = next_fd (es s), unopenable = unopenable (es s), unlock_fails = unlock_fails (es s),
              cw = (wd (es s))\<lparr>journal := state_files s\<rparr>\<rparr> = (r, t)" for s r t
    using evolvesD [OF assms that] by (simp add: frames_def)
  then show ?thesis
    by (auto simp: evolves_def frames_def in_continuity_def Let_def split: prod.split)
qed

subsection \<open>Programs and locks\<close>

lemma start_outer:
  assumes "\<And>cs c w. outer base (snd (launcher P cs c w)) = outer base w"
  shows "evolves (frames (\<lambda>s. outer base (surroundings s))) (start P c)"
proof -
  have "evolves (frames (\<lambda>s. outer base (surroundings s))) (spawn (launcher P) c)"
    using assms by (auto simp: evolves_def frames_def spawn_def split: prod.split) (metis snd_conv)
  then show ?thesis unfolding start_def by (intro frame.combinators)
qed

text \<open>A view of the state that neither the lock table nor the other processes touch.\<close>

lemma poll_frames:
  assumes "\<And>k s. v (oth k s) = v s" and "\<And>s a. v (s\<lparr>owner := a\<rparr>) = v s"
  shows "evolves (frames v) (poll_lock oth f fd n k)"
proof (induction n arbitrary: k)
  case 0
  show ?case using assms(2) by (simp add: evolves_def frames_def grant_def)
next
  case (Suc n)
  have "v (snd (poll_lock oth f fd n (Suc k) (oth k s))) = v s" for s
    using Suc [of "Suc k"] assms(1) by (simp add: evolves_def frames_def)
  then show ?case using assms(2) by (simp add: evolves_def frames_def grant_def)
qed

lemma with_lock_frames:
  assumes "\<And>k s. v (oth k s) = v s" and "\<And>s a. v (s\<lparr>owner := a\<rparr>) = v s" and "\<And>s n. v (s\<lparr>next_fd := n\<rparr>) = v s"
    and "evolves (frames v) body"
  shows "evolves (frames v) (with_lock F creatable oth n lk body)"
proof -
  have "evolves (frames v) (\<lambda>s. (Inr (), s\<lparr>next_fd := Suc fd\<rparr>))" for fd
    using assms(3) by (simp add: evolves_def frames_def)
  then have acq: "evolves (frames v) (acquire F creatable oth n lk)"
    unfolding acquire_def by (intro frame.combinators poll_frames assms)
  have "v (snd (with_lock F creatable oth n lk body s)) = v s" for s
  proof -
    obtain a s1 where 1: "acquire F creatable oth n lk s = (a, s1)" by (rule prod.exhaust)
    obtain q s2 where 2: "body s1 = (q, s2)" by (rule prod.exhaust)
    from evolvesD [OF acq 1] evolvesD [OF assms(4) 2] 1 2 assms(2) show ?thesis
      by (auto simp: with_lock_eq frames_def close_fd_def split: sum.split option.split)
  qed
  then show ?thesis by (simp add: evolves_def frames_def)
qed

lemma under_lock_outer:
  assumes "harmless h base" and "evolves (frames (outer_e base)) body"
  shows "evolves (frames (outer_e base)) (under_lock h lk body)"
  using assms unfolding under_lock_def harmless_def by (intro frame.combinators with_lock_frames) simp_all

subsection \<open>Git\<close>

lemma start_here: "harmless h base \<Longrightarrow> evolves (frames (outer_e base)) (in_procs (start (plat h) c))"
  unfolding harmless_def by (intro in_procs_outer start_outer) simp

lemma launch_git_outer: "harmless h base \<Longrightarrow> evolves (frames (outer_e base)) (launch_git h self route args)"
  unfolding launch_git_def by (intro frame.combinators start_here)

lemma run_outcome_outer:
  "(\<And>rc so se. evolves R (f rc so se)) \<Longrightarrow> (\<And>m so se. evolves R (g m so se)) \<Longrightarrow> (\<And>m. evolves R (k m)) \<Longrightarrow>
   evolves R (case v of Exited rc so se \<Rightarrow> f rc so se | TimedOut m so se \<Rightarrow> g m so se | CannotStart m \<Rightarrow> k m)"
  by (cases v) simp_all

lemma run_git_outer: "harmless h base \<Longrightarrow> evolves (frames (outer_e base)) (run_git h self route args)"
  unfolding run_git_def by (intro frame.combinators launch_git_outer run_outcome_outer)

lemmas git_outer = frame.combinators run_git_outer under_lock_outer

lemma safe_mutation_outer: "harmless h base \<Longrightarrow> evolves (frames (outer_e base)) (assert_safe_git_mutation h self route)"
  unfolding assert_safe_git_mutation_def assert_safe_git_repo_def effective_git_config_def
    assert_no_executable_gitattributes_def gitattributes_files_def
  by (intro git_outer)

lemma exact_paths_outer: "harmless h base \<Longrightarrow> evolves (frames (outer_e base)) (exact_paths h self route f ps)"
  unfolding exact_paths_def exact_path_def assert_exact_file_target_def assert_path_attrs_safe_def
  by (intro git_outer)

lemma staged_files_outer: "harmless h base \<Longrightarrow> evolves (frames (outer_e base)) (staged_files h self route)"
  unfolding staged_files_def by (intro git_outer)

lemma git_succeeds_outer: "harmless h base \<Longrightarrow> evolves (frames (outer_e base)) (git_succeeds h self route args)"
  unfolding git_succeeds_def by (intro git_outer)

lemma set_staged_outer: "evolves (frames (outer_e base)) (\<lambda>s. (Inr (), s\<lparr>staged := f s\<rparr>))"
  by (simp add: evolves_def frames_def)

lemma git_stage_outer: "harmless h base \<Longrightarrow> evolves (frames (outer_e base)) (git_stage h self pid ps)"
  unfolding git_stage_def in_repository_def git_locked_def stage_locked_def stage_checks_def
  by (intro git_outer safe_mutation_outer exact_paths_outer staged_files_outer git_succeeds_outer set_staged_outer)

lemma git_commit_outer: "harmless h base \<Longrightarrow> evolves (frames (outer_e base)) (git_commit h self pid msg)"
  unfolding git_commit_def in_repository_def git_locked_def commit_locked_def commit_checks_def Let_def
  by (intro git_outer safe_mutation_outer staged_files_outer git_succeeds_outer set_staged_outer)

subsection \<open>Writes and rollbacks\<close>

text \<open>The projects of the executor and its recovery store lie in the directory.\<close>

definition housed :: "host \<Rightarrow> executor \<Rightarrow> path \<Rightarrow> bool" where
  "housed h x base \<longleftrightarrow> root_dir (recovery_store x) = path_str (base @ [''recovery'']) \<and>
     (\<forall>pid route. get_route (registry x) pid = Some route \<longrightarrow>
        is_prefix_list base (route_root h route) \<and> physical (symlinks (fs h)) (route_root h route))"

lemma bak_path_below: "base \<noteq> [] \<Longrightarrow> root_dir self = path_str (base @ [''recovery'']) \<Longrightarrow> below base (bak_path self rid)"
  by (simp add: below_def bak_path_def path_str_def is_prefix_list_iff)

lemma save_preimage_outer:
  assumes "\<And>rid. below base (bak_path self rid)"
  shows "evolves (frames (outer base)) (save_preimage H self pid t c)"
  unfolding save_preimage_def save_backup_def put_receipt_def
  by (intro frame.combinators write_bytes_outer outer_disk [OF new_receipt_id_frames_disk] assms
      outer_disk [OF failpoint_frames] outer_disk [OF put_receipt_frames_disk [unfolded put_receipt_def]])

lemma write_locked_outer:
  assumes "\<And>rid. below base (bak_path self rid)" and "below base t"
  shows "evolves (frames (outer base)) (write_locked H self pid t crel content expected)"
  unfolding write_locked_def
  by (intro frame.combinators save_preimage_outer outer_disk [OF reconcile_target_frames_disk]
      outer_but [OF replace_target_but] assms)

lemma target_housed:
  assumes "housed h x base" and "base \<noteq> []" and "resolve_project h x pid w = Inr route"
    and "assert_permitted_path (symlinks (fs h)) (route_root h route) rel priv None None = Inr (target, crel)"
  shows "below base (path_str target)"
proof -
  from assms(3) have "get_route (registry x) pid = Some route"
    by (auto simp: resolve_project_def split: option.splits if_splits)
  with assms(1) have r: "is_prefix_list base (route_root h route)" "physical (symlinks (fs h)) (route_root h route)"
    by (auto simp: housed_def)
  from assms(4) obtain b sub where b: "resolve (symlinks (fs h)) (route_root h route) = Some b" "target = b @ sub"
    by (auto simp: assert_permitted_Inr dest: canonical_target_Inr)
  with r have "is_prefix_list base b" by (simp add: resolve_idem)
  then have "is_prefix_list base target" using b(2) by (auto simp: is_prefix_list_iff)
  with assms(2) show ?thesis by (rule path_str_below)
qed

lemma write_gate_outer: "evolves (frames (outer_e base)) (write_gate h self route pid rel content expected cid token)"
  unfolding evolves_def frames_def using write_gate_cases by (metis prod.collapse)

lemma fs_write_outer:
  assumes "housed h x base" and "base \<noteq> []" and "harmless h base"
  shows "evolves (frames (outer_e base)) (fs_write h x pid rel content expected cid token lt extra)"
proof -
  have b: "below base (bak_path (recovery_store x) rid)" for rid
    using assms(1,2) by (intro bak_path_below) (simp_all add: housed_def)
  have go: "evolves (frames (outer_e base)) (bindM
      (readM (\<lambda>_. assert_permitted_path (symlinks (fs h)) (route_root h route) rel priv None None)) (\<lambda>(target, canonical_rel).
        bindM (readM (\<lambda>_. outside_host_stores h x target)) (\<lambda>_.
        under_lock h (target_lock h x target lt)
          (in_world (write_locked (sha h) (recovery_store x) pid (path_str target) canonical_rel content expected)))))"
    if route: "resolve_project h x pid w = Inr route" for route priv w
  proof (rule frame.readM_evolves_at, clarify)
    fix target crel s
    assume "assert_permitted_path (symlinks (fs h)) (route_root h route) rel priv None None = Inr (target, crel)"
    with assms(1,2) route have t: "below base (path_str target)" by (rule target_housed)
    have "evolves (frames (outer_e base)) (bindM (readM (\<lambda>_. outside_host_stores h x target)) (\<lambda>_.
        under_lock h (target_lock h x target lt)
          (in_world (write_locked (sha h) (recovery_store x) pid (path_str target) crel content expected))))"
      by (intro frame.combinators under_lock_outer in_world_outer write_locked_outer b t assms(3))
    then show "frames (outer_e base) s (snd (bindM (readM (\<lambda>_. outside_host_stores h x target)) (\<lambda>_.
        under_lock h (target_lock h x target lt)
          (in_world (write_locked (sha h) (recovery_store x) pid (path_str target) crel content expected))) s))"
      by (simp add: evolves_def)
  qed
  have gated: "evolves (frames (outer_e base)) (bindM (write_gate h x route pid rel content expected cid token) (\<lambda>g.
      case g of Propose_first d \<Rightarrow> ret d
      | Go authorized \<Rightarrow> bindM (readM (\<lambda>_. assert_permitted_path (symlinks (fs h)) (route_root h route) rel authorized None None))
          (\<lambda>(target, canonical_rel). bindM (readM (\<lambda>_. outside_host_stores h x target)) (\<lambda>_.
          under_lock h (target_lock h x target lt)
            (in_world (write_locked (sha h) (recovery_store x) pid (path_str target) canonical_rel content expected))))))"
    if "resolve_project h x pid w = Inr route" for route w
    by (intro frame.bindM_evolves write_gate_outer) (simp add: go [OF that] frame.ret_evolves split: gate.split)
  show ?thesis
    unfolding fs_write_def
    by (intro frame.if_evolves frame.raise_evolves frame.readM_evolves_at)
      (use gated in \<open>simp add: evolves_def\<close>)
qed

lemma fs_rollback_outer:
  assumes "housed h x base" and "base \<noteq> []" and "harmless h base"
  shows "evolves (frames (outer_e base)) (fs_rollback h x pid rel post lt)"
  unfolding fs_rollback_def
proof (rule frame.readM_evolves_at)
  fix route and s :: exec_state
  assume route: "resolve_project h x pid (wd s) = Inr route"
  have "evolves (frames (outer_e base)) (bindM (readM (\<lambda>_. permitted (symlinks (fs h)) (route_root h route) rel)) (\<lambda>(target, canonical_rel).
     bindM (readM (\<lambda>_. outside_host_stores h x target)) (\<lambda>_.
     under_lock h (target_lock h x target lt)
       (in_world (rollback_locked (sha h) (recovery_store x) pid (path_str target) post)))))"
  proof (rule frame.readM_evolves_at, clarify)
    fix target crel t
    assume "permitted (symlinks (fs h)) (route_root h route) rel = Inr (target, crel)"
    with assms(1,2) route have "below base (path_str target)" by (rule target_housed)
    then have "evolves (frames (outer_e base)) (bindM (readM (\<lambda>_. outside_host_stores h x target)) (\<lambda>_.
        under_lock h (target_lock h x target lt) (in_world (rollback_locked (sha h) (recovery_store x) pid (path_str target) post))))"
      unfolding rollback_locked_def
      by (intro frame.combinators under_lock_outer in_world_outer outer_but [OF rollback_frame] assms(3))
    then show "frames (outer_e base) t (snd (bindM (readM (\<lambda>_. outside_host_stores h x target)) (\<lambda>_.
        under_lock h (target_lock h x target lt) (in_world (rollback_locked (sha h) (recovery_store x) pid (path_str target) post))) t))"
      by (simp add: evolves_def)
  qed
  then show "frames (outer_e base) s (snd (bindM (readM (\<lambda>_. permitted (symlinks (fs h)) (route_root h route) rel)) (\<lambda>(target, canonical_rel).
     bindM (readM (\<lambda>_. outside_host_stores h x target)) (\<lambda>_.
     under_lock h (target_lock h x target lt)
       (in_world (rollback_locked (sha h) (recovery_store x) pid (path_str target) post)))) s))"
    by (simp add: evolves_def)
qed

subsection \<open>The continuity state\<close>

lemma write_json_disk: "evolves (frames disk) (write_json m n j)"
  unfolding write_json_def write_doc_def
  by (rule effect_evolves) (auto simp: frames_def intro: frame.evolution_axioms)

lemma draw_token_disk: "evolves (frames disk) draw_token"
  by (simp add: evolves_def frames_def draw_token_def)

lemma init_locked_disk: "evolves (frames disk) (init_locked F H m pid per priv)"
  unfolding init_locked_def by (intro frame.combinators write_json_disk)

lemma checkpoint_locked_disk: "evolves (frames disk) (checkpoint_locked F H ftext m hs payload expd)"
  unfolding checkpoint_locked_def save_state_def by (intro frame.combinators write_json_disk draw_token_disk)

lemma revisioned_outer:
  assumes "evolves (frames disk) body" and "\<And>k s. outer base (cw (smeddle S k s)) = outer base (cw s)"
  shows "evolves (frames (\<lambda>s. outer base (cw s))) (revisioned S m t body)"
proof -
  have "evolves (frames (\<lambda>s. outer base (cw s))) (in_cw body)"
    using outer_disk [OF assms(1), of base]
    by (auto simp: evolves_def frames_def in_cw_def split: prod.split) (metis snd_conv)
  with assms(2) show ?thesis unfolding revisioned_def by (intro frame.combinators with_lock_frames) simp_all
qed

subsection \<open>The steps\<close>

lemma refused_evolves: "evolves R m \<Longrightarrow> evolves R (refused c m)"
  unfolding evolves_def refused_def by (auto split: prod.split sum.split) (metis snd_conv)+

lemma refused_saying_evolves: "evolves R m \<Longrightarrow> evolves R (refused_saying say c needle m)"
  unfolding evolves_def refused_saying_def by (auto split: prod.split sum.split) (metis snd_conv)+

lemma bindM_frames_Inr:
  assumes "evolves (frames v) m" and "\<And>x s s'. m s = (Inr x, s') \<Longrightarrow> evolves (frames v) (f x)"
  shows "evolves (frames v) (bindM m f)"
proof -
  have "frames v s (snd (bindM m f s))" for s
    using assms by (intro frame.bindM_at) (auto simp: evolves_def)
  then show ?thesis by (simp add: evolves_def)
qed

lemma run_checked_outer:
  assumes "harmless h base"
  shows "evolves (frames (outer_e base)) (in_procs (run_checked (plat h) d as))"
  using assms unfolding run_checked_def harmless_def
  by (intro in_procs_outer frame.combinators start_outer run_outcome_outer) simp

lemma setup_outer:
  assumes "confined E base"
  shows "evolves (frames (outer_e base)) (setup_demo_fixtures E base)"
proof -
  have low: "below base (path_str q)"
    if "\<forall>c \<in> set r. plain_name c" "resolve (symlinks (fs (host_of E))) (base @ r) = Some q" for r q
    using assms that by (intro path_str_below) (auto simp: confined_def)
  have app: "below base (path_str q)"
    if "resolve (symlinks (fs (host_of E))) (base @ [''demo-app'']) = Some q" for q
    by (rule low [OF _ that]) (simp add: plain_name_def)
  have lib: "below base (path_str q)"
    if "resolve (symlinks (fs (host_of E))) (base @ [''demo-library'']) = Some q" for q
    by (rule low [OF _ that]) (simp add: plain_name_def)
  have app_file: "below base (path_str q)" if "(n, t) \<in> set (app_files exe r)"
    "resolve (symlinks (fs (host_of E))) ((base @ [''demo-app'']) @ [n]) = Some q" for n t exe r q
    using that low [of "[''demo-app'', n]" q] by (auto simp: app_files_def plain_name_def)
  have lib_file: "below base (path_str q)" if "(n, t) \<in> set (lib_files r)"
    "resolve (symlinks (fs (host_of E))) ((base @ [''demo-library'']) @ [n]) = Some q" for n t r q
    using that low [of "[''demo-library'', n]" q] by (auto simp: lib_files_def plain_name_def)
  have h: "harmless (host_of E) base" using assms by (simp add: confined_def)
  show ?thesis
    unfolding setup_demo_fixtures_def Let_def
    by (intro frame.combinators in_world_outer make_dir_outer write_files_outer run_checked_outer h app lib app_file lib_file)
qed

lemma query_step_outer: "evolves (frames (outer_e base)) (query_step E g q f)"
  unfolding query_step_def by (rule frame.readM_evolves)

lemma run_check_outer:
  assumes "harmless h base"
  shows "evolves (frames (outer_e base)) (in_procs (run_check (plat h) c name rt r env))"
  using assms unfolding run_check_def run_configured_def run_in_def harmless_def
  by (intro in_procs_outer frame.combinators start_outer run_outcome_outer) simp

lemma preflight_outer: "harmless (host_of E) base \<Longrightarrow> evolves (frames (outer_e base)) (preflight_step E app)"
  unfolding preflight_step_def Let_def by (intro frame.combinators run_check_outer)

lemma executor_part_outer:
  assumes "housed (host_of E) x base" and "base \<noteq> []" and "harmless (host_of E) base"
  shows "evolves (frames (outer_e base)) (governed_write E x rel content expected)"
    "evolves (frames (outer_e base)) (protected_step E x)"
    "evolves (frames (outer_e base)) (write_step E x app initial)"
    "evolves (frames (outer_e base)) (stale_step E x initial)"
    "evolves (frames (outer_e base)) (rollback_step E x app initial)"
    "evolves (frames (outer_e base)) (stage_step E x app initial)"
    "evolves (frames (outer_e base)) (commit_step E x)"
  unfolding protected_step_def write_step_def stale_step_def rollback_step_def stage_step_def commit_step_def
    governed_write_def hash_in_def Let_def
  by (intro frame.combinators refused_evolves refused_saying_evolves fs_write_outer [OF assms] fs_rollback_outer [OF assms]
      git_stage_outer git_commit_outer staged_files_outer assms(3))+

lemma start_executor_outer:
  assumes "confined E base"
  shows "evolves (frames (outer_e base)) (start_executor E base g)"
proof -
  have "evolves (frames disk) (startup_recovery (host_of E) x (await_target E))" for x
  proof -
    have "evolves (frames disk) (recover_journal (host_of E) x (await_target E))"
      using assms unfolding recover_journal_def by (intro recover_frames_disk) (simp add: confined_def)
    then show ?thesis
      unfolding evolves_def startup_recovery_def by (auto split: prod.split sum.split) (metis snd_conv)+
  qed
  then show ?thesis
    unfolding start_executor_def Let_def
    by (intro frame.combinators in_world_outer outer_disk set_staged_outer)
qed

lemma setup_Inr:
  assumes "setup_demo_fixtures E base s = (Inr (app, g), s')" and "confined E base"
  obtains app_root lib_root where "g = demo_registry app_root lib_root"
    "is_prefix_list base app_root \<and> physical (symlinks (fs (host_of E))) app_root"
    "is_prefix_list base lib_root \<and> physical (symlinks (fs (host_of E))) lib_root"
proof -
  from assms(1) obtain app_root lib_root where g: "g = demo_registry app_root lib_root"
    and "resolved_path (symlinks (fs (host_of E))) (base @ [''demo-app'']) = Inr app_root"
    "resolved_path (symlinks (fs (host_of E))) (base @ [''demo-library'']) = Inr lib_root"
    by (auto simp: setup_demo_fixtures_def Let_def bindM_readM split: sum.splits elim!: bindM_InrE)
  moreover have "is_prefix_list base q \<and> physical (symlinks (fs (host_of E))) q"
    if "resolved_path (symlinks (fs (host_of E))) (base @ [n]) = Inr q" "plain_name n" for n q
  proof -
    from that(1) have q: "resolve (symlinks (fs (host_of E))) (base @ [n]) = Some q" by (simp add: resolved_path_Inr)
    have "\<forall>c \<in> set [n]. plain_name c" using that(2) by simp
    with q assms(2) have "is_prefix_list base q" unfolding confined_def by blast
    with resolve_physical [OF q] show ?thesis by simp
  qed
  ultimately show thesis using that by (simp add: plain_name_def)
qed

lemma start_Inr_housed:
  assumes "start_executor E base g s = (Inr x, s')" and "g = demo_registry app_root lib_root"
    and "is_prefix_list base app_root \<and> physical (symlinks (fs (host_of E))) app_root"
    and "is_prefix_list base lib_root \<and> physical (symlinks (fs (host_of E))) lib_root"
  shows "housed (host_of E) x base"
proof -
  from assms(1) have "new_executor (fs (host_of E)) g (base @ [''recovery'']) None [] None []
      (temp_dir (host_of E) @ [''jvc-locks'']) = Inr x"
    by (auto simp: start_executor_def Let_def bindM_readM split: sum.splits elim!: bindM_InrE)
  then have x: "registry x = g" "root_dir (recovery_store x) = path_str (base @ [''recovery''])"
    by (auto simp: new_executor_def Let_def bindR_Inr_iff)
  have "is_prefix_list base (route_root (host_of E) route) \<and> physical (symlinks (fs (host_of E))) (route_root (host_of E) route)"
    if "get_route g pid = Some route" for pid route
  proof -
    from that have "route \<in> {demo_route ''demo-app'' [''demo-app'', ''app'', ''application''] app_root,
        demo_route ''demo-library'' [''demo-library'', ''lib'', ''library'', ''helper''] lib_root}"
      unfolding assms(2) demo_registry_def get_route_make by (auto split: if_splits)
    with assms(3,4) show ?thesis by (auto simp: demo_route_def route_root_def abs_parts_def)
  qed
  with x show ?thesis by (simp add: housed_def)
qed

lemma feature_steps_outer:
  assumes "housed (host_of E) x base" and "base \<noteq> []" and "harmless (host_of E) base"
  shows "evolves (frames (outer_e base)) (feature_steps E app g x)"
  unfolding feature_steps_def load_registry_step_def hash_in_def
  by (intro frame.combinators query_step_outer preflight_outer executor_part_outer [OF assms] assms(3))

lemma executor_steps_outer:
  assumes "confined E base"
  shows "evolves (frames (outer_e base)) (executor_steps E base)"
  unfolding executor_steps_def
proof (rule bindM_frames_Inr [OF setup_outer [OF assms]], clarify)
  fix app g s s'
  assume "setup_demo_fixtures E base s = (Inr (app, g), s')"
  then obtain app_root lib_root where g: "g = demo_registry app_root lib_root"
    "is_prefix_list base app_root \<and> physical (symlinks (fs (host_of E))) app_root"
    "is_prefix_list base lib_root \<and> physical (symlinks (fs (host_of E))) lib_root"
    using assms by (rule setup_Inr)
  show "evolves (frames (outer_e base)) (bindM (start_executor E base g) (\<lambda>x. bindM (feature_steps E app g x) (\<lambda>rs. ret (app, rs))))"
  proof (rule bindM_frames_Inr [OF start_executor_outer [OF assms]])
    fix x s s'
    assume "start_executor E base g s = (Inr x, s')"
    from start_Inr_housed [OF this g] assms
    show "evolves (frames (outer_e base)) (bindM (feature_steps E app g x) (\<lambda>rs. ret (app, rs)))"
      by (intro frame.combinators feature_steps_outer) (simp_all add: confined_def)
  qed
qed

lemma continuity_steps_outer:
  assumes "confined E base"
  shows "evolves (frames (outer_d base)) (continuity_steps E app)"
proof -
  have "evolves (frames (\<lambda>s. outer base (cw s))) (init_state (surface_of E) cm ''demo-app'' ''git'' ''standard'' 30)"
    "evolves (frames (\<lambda>s. outer base (cw s))) (checkpoint (surface_of E) cm hs payload expd 30)" for cm hs payload expd
    using assms unfolding init_state_def checkpoint_def confined_def
    by (intro revisioned_outer init_locked_disk checkpoint_locked_disk; simp)+
  then show ?thesis
    unfolding continuity_steps_def init_step_def checkpoint_step_def stale_checkpoint_step_def hash_in_def
    by (intro frame.combinators refused_saying_evolves in_continuity_outer in_exec_outer)
qed

lemma demo_steps_outer: "confined E base \<Longrightarrow> evolves (frames (outer_d base)) (demo_steps E base)"
  unfolding demo_steps_def
  by (intro frame.combinators in_exec_outer executor_steps_outer continuity_steps_outer)

lemma feature_steps_count: "feature_steps E app g x s = (Inr rs, s') \<Longrightarrow> length rs = 12"
  unfolding feature_steps_def by (auto elim!: bindM_InrE)

lemma demo_steps_count:
  assumes "demo_steps E base s = (Inr rs, s')"
  shows "\<exists>ds. length ds = 15 \<and> rs = enumerate 1 ds"
proof -
  from assms obtain app a b t u v where "in_exec (executor_steps E base) s = (Inr (app, a), t)"
    and b: "continuity_steps E app u = (Inr b, v)" and rs: "rs = enumerate 1 (a @ b)"
    unfolding demo_steps_def by (auto elim!: bindM_InrE)
  then obtain e where "executor_steps E base (es s) = (Inr (app, a), e)"
    by (auto simp: in_exec_def split: prod.splits)
  then have "length a = 12"
    unfolding executor_steps_def by (auto elim!: bindM_InrE dest: feature_steps_count)
  moreover have "length b = 3" using b unfolding continuity_steps_def by (auto elim!: bindM_InrE)
  ultimately show ?thesis using rs by (intro exI [of _ "a @ b"]) simp
qed

lemma aget_kept: "aget (filter (\<lambda>e. \<not> below base (fst e)) d) p = (if below base p then None else aget d p)"
  by (induction d) auto

lemma all_passed_enumerate: "all_passed (enumerate n ds) \<longleftrightarrow> (\<forall>d \<in> set ds. dget d ''status'' = JStr ''PASS'')"
  by (induction ds arbitrary: n) (simp_all add: all_passed_def)

lemma cleanup_outer: "evolves (frames (outer_d base)) (cleanup base)"
proof -
  have "outer base (w\<lparr>disk := filter (\<lambda>e. \<not> below base (fst e)) (disk w), journal := []\<rparr>) = outer base w" for w
    by (auto simp: outer_def restrict_map_def aget_kept)
  then have "evolves (frames (outer base)) (effect (\<lambda>w. \<exists>p \<in> set (denied w). below base p)
      (\<lambda>w. w\<lparr>disk := filter (\<lambda>e. \<not> below base (fst e)) (disk w), journal := []\<rparr>))"
    by (intro effect_evolves frame.evolution_axioms) (simp_all add: frames_def)
  then show ?thesis
    unfolding cleanup_def
    by (intro frame.bindM_evolves in_exec_outer in_world_outer) (simp_all add: evolves_def frames_def)
qed

lemma cleanup_Inr:
  assumes "cleanup base s = (Inr u, s')"
  shows "(\<forall>p. below base p \<longrightarrow> aget (disk (wd (es s'))) p = None) \<and> journal (wd (es s')) = [] \<and> state_files s' = []"
proof -
  let ?gone = "filter (\<lambda>e. \<not> below base (fst e))"
  from assms obtain w' where "effect (\<lambda>w. \<exists>p \<in> set (denied w). below base p)
      (\<lambda>w. w\<lparr>disk := ?gone (disk w), journal := []\<rparr>) (wd (es s)) = (Inr (), w')" and s': "wd (es s') = w'" "state_files s' = []"
    by (auto simp: cleanup_def in_exec_def in_world_def bindM_app split: prod.splits sum.splits)
  then have "disk w' = ?gone (disk (wd (es s)))" "journal w' = []" by (auto dest!: effect_Inr)
  then show ?thesis using s' by (simp add: aget_kept)
qed


section \<open>Example\<close>

text \<open>The host of the examples, on which Git is told to set up a repository and every program does nothing.\<close>

definition demo_stage :: stage where
  "demo_stage = \<lparr>host_of = example_host,
     surface_of = \<lparr>sview = fs example_host, shash = upper, slock_hash = hexlify, smechanism = Fcntl, smkdir = (\<lambda>_. True),
       smeddle = (\<lambda>_ s. s), sretries = 0, sfloat = (\<lambda>_. '''')\<rparr>,
     executable = ''/usr/bin/python3'', await_target = (\<lambda>_. ret ()), exception_text = (\<lambda>_ _. '''')\<rparr>"

definition demo_start :: demo_state where
  "demo_start = \<lparr>es = example_state, state_files = []\<rparr>"

lemma demo_stage_confined: "confined demo_stage [''tmp'', ''d'']"
proof -
  have "is_prefix_list [''tmp'', ''d''] q" if "\<forall>c \<in> set p. plain_name c" "resolve (\<lambda>_. None) (''tmp'' # ''d'' # p) = Some q" for p q
  proof -
    have "physical (\<lambda>_. None) (''tmp'' # ''d'' # p)" using that(1) by (auto simp: physical_def plain_name_def)
    with that(2) show ?thesis by (auto simp: resolve_idem)
  qed
  then show ?thesis
    by (simp add: confined_def harmless_def demo_stage_def example_host_def frame.ret_evolves)
qed

end
