(* ===== verification/Spec2Isabelle.thy ===== *)
theory Spec2Isabelle
  imports Boundaries Recovery Registry Authority Writes Contracts Routing Schema Continuity Guard Gitops Durable
    Commands Progress Demo
begin

text \<open>
  A verification development for the Python package \<open>jvc\<close> (\<open>src/jvc\<close>): a local layer between
  agents and the projects of a user. It routes requests to registered projects, lets governed operations
  change their files under locks, with a recovery journal and single-use capabilities, drives Git with a
  neutralised configuration, and keeps contracts, continuity state and pre-write manifests of projects.

  \<^bold>\<open>How the parts work together.\<close> A request is routed by \<open>routing.py\<close> over the registry of
  \<open>configuration.py\<close>, with the contract of each project (\<open>contracts.py\<close>). The executor
  (\<open>execution/executor.py\<close>) takes a write or a rollback: it checks the path
  (\<open>policy/boundaries.py\<close>), spends a capability where one is needed (\<open>policy/authority.py\<close>),
  takes the lock of the target (\<open>policy/locks.py\<close>), and changes the file between entries of the
  journal (\<open>recovery/store.py\<close>). Git operations and declared checks run child processes through
  \<open>execution/runner.py\<close>. \<open>policy/guard.py\<close> and \<open>continuity/state.py\<close> stand beside the
  executor and work on documents of their own. \<open>cli.py\<close> runs routing and validation, and
  \<open>demo.py\<close> walks through all of it in a directory of its own.

  \<^bold>\<open>The theories.\<close>

  \<^item> \<open>Prelude\<close>: exception classes, results (\<open>exn + 'a\<close>), the state and exception monad \<open>M\<close> with
    \<open>try\<close>/\<open>except\<close>/\<open>finally\<close>, association lists, and the locale \<open>evolution\<close>.
  \<^item> \<open>Pystr\<close>, \<open>Regex\<close>, \<open>Json\<close>, \<open>Jsontext\<close>, \<open>Pretty\<close>, \<open>Base64\<close>, \<open>Utf8\<close>: what the code uses of
    the standard library: string methods, \<open>re\<close> (derivatives, proved to decide the language),
    JSON values with Python's truth and equality, the writers and the reader of JSON text with their
    round trips, base64, and UTF-8 with the fitting of a text into a number of bytes.
  \<^item> \<open>World\<close>: files and journal, the clock, random names, refusals and the loss of power between two
    effects. \<open>Durable\<close>: one replacement of a file system call by system call, proved atomic and proved
    to refine the effect of \<open>World\<close>. \<open>Process\<close>: child processes as an oracle on the log of commands.
  \<^item> \<open>Boundaries\<close> (\<open>policy/boundaries.py\<close>); \<open>Registry\<close> (\<open>configuration.py\<close>);
    \<open>Authority\<close> (\<open>policy/authority.py\<close>); \<open>Locks\<close> (\<open>policy/locks.py\<close>); \<open>Guard\<close>
    (\<open>policy/guard.py\<close>); \<open>Contracts\<close> (\<open>contracts.py\<close>); \<open>Routing\<close> (\<open>routing.py\<close>); \<open>Continuity\<close>
    (\<open>continuity/state.py\<close>); \<open>Schema\<close> (the published schema of a contract,
    \<open>schemas/icm-execution-contract.schema.json\<close>, against the validation, and the types of a routing report);
    \<open>Runner\<close> (\<open>execution/runner.py\<close>); \<open>Commands\<close> (\<open>cli.py\<close> and the file
    readers of \<open>configuration.py\<close>).
  \<^item> \<open>Store\<close>, \<open>Store_Laws\<close>, \<open>Recovery\<close> (\<open>recovery/store.py\<close>): the operations, the state machine of
    a receipt with what every operation keeps of it, and the properties of recovery and rollback.
  \<^item> \<open>Executor\<close>, \<open>Writes\<close> (\<open>execution/executor.py\<close>, construction, status, writes and rollbacks):
    the operations, and the properties that span executor, journal, locks and authority; \<open>Progress\<close>:
    what an undisturbed write needs to go through. \<open>Git\<close>, \<open>Gitops\<close> (the Git operations and declared
    checks of the same file) likewise.
  \<^item> \<open>Demo\<close> (\<open>demo.py\<close>): the fixtures and the fifteen steps, composed from the models of the other
    components over one state of files, locks, journal, capabilities and continuity.

  Definitions carry the names of the functions they translate, without a leading underscore; a
  longer function is split into steps named after what they do. The state of a component is a record
  of what its functions read and change; an object's attributes are a record too (\<open>recovery_store\<close>,
  \<open>executor\<close>, \<open>manager\<close>). Every raise and early return is a branch of the result.
\<close>

text \<open>
  \<^bold>\<open>What is shown.\<close> A governed write changes exactly its target, from the expected preimage, and leaves a
  verified receipt with a backup; wherever it is cut off the target holds the old or the new content
  and in the latter case can be undone; of concurrent writers with one preimage one wins; a rollback
  restores the preimage. Paths that are let through lie inside the project without symbolic links, and
  secrets and the control plane are denied. Capabilities are accepted once, for the operation they were
  signed for. Receipts move along their state machine only, restart recovery returns and settles the
  journal, and a damaged journal stops all changes. Locks exclude each other, and waiting for one ends.
  Git is started with a fixed neutralised configuration, stages and commits only permitted files the session owns, and
  reads within a byte bound. A check counts as verified only when its command was run and its result
  seen. Routing is by whole words of the aliases, and its report is well typed. The validation of a contract
  decides a stated set of documents, related to the published schema. Continuity revisions count the changes that
  succeeded and decisions are permanent. Guard manifests move forward only, and a receipt proves the files.
  Exit codes and JSON output of the commands agree with the decisions behind them. An undisturbed write goes
  through, and so does every later one. The demonstration changes nothing outside its directory and leaves
  nothing there.

  \<^bold>\<open>Interfaces.\<close> Three locales state what several components rely on.

  \<^item> \<open>evolution\<close> (\<open>Prelude\<close>): a reflexive and transitive relation on states, kept by every combinator
    of the monad, so that a property of whole operations follows from that of their steps. It is
    interpreted for the receipts (\<open>journal\<close>), files outside an operation (\<open>files\<close>, \<open>frame\<close>,
    \<open>spare\<close>), spent nonces (\<open>spending\<close>), the log of commands (\<open>logging\<close>, \<open>asking\<close>), manifests
    (\<open>life\<close>), decisions (\<open>minutes\<close>), retention (\<open>pruning\<close>), a damaged journal (\<open>damage\<close>) and others.
  \<^item> \<open>single_use\<close> (\<open>Authority\<close>): a step that can succeed at most once for each key. Interpreted for
    capabilities (by nonce), for writers that race for a preimage (\<open>race\<close>) and for changes based on one
    revision (\<open>revisions\<close>).
  \<^item> \<open>mutex\<close> (\<open>Locks\<close>): an invariant of a step relation under which two clients never hold the same
    resource. Interpreted for the lock table (\<open>host_lock\<close>), with reachability by rule induction.

  \<^bold>\<open>Termination and bounds.\<close> All definitions are total functions but two: \<open>resolve_from\<close>, whose walk may
  follow symbolic links for ever (\<open>None\<close>; Python raises \<open>RuntimeError\<close>), and \<open>blocking_lock\<close>, which is
  proved to end once the clock passes the deadline. The JSON reader takes fuel of twice the length of
  the text, which the round trips show to be enough for what the writers produce. The other loops are
  structural, on the attempts of \<open>durable_replace\<close>, the journal's files or the text.
\<close>

text \<open>
  \<^bold>\<open>Parameters.\<close> SHA-256 and HMAC are functions \<open>H\<close>, \<open>D\<close> and \<open>mac\<close>; where a property needs that two
  contents do not collide it says so. Child processes, Git among them, answer through \<open>launcher\<close>, any function of
  the log of commands. What other processes do while a lock is awaited or between two reads is the
  function \<open>others\<close>. The text of an exception is \<open>explain\<close>, that of a float \<open>ftext\<close>.

  \<^bold>\<open>Bounds of the model.\<close> The platform is POSIX; branches for Windows and the hardening of permissions are
  left out. Texts are Latin-1 except in \<open>Utf8\<close>. Floats are exact rationals with their text; the JSON
  literals \<open>NaN\<close> and \<open>Infinity\<close> have no value. In \<open>World\<close> a change is atomic and durable: \<open>Durable\<close>
  shows the first part and that a restart finds the old or the new content, while
  a synced directory is best effort in the code, so that a finished rename may be lost with the
  power when the directory could not be synced. The guarded files of \<open>Guard\<close> and its manifests are
  kept apart: a manifest that guards itself is outside the model. Names of directories are not
  recorded where the code only creates them.

  \<^bold>\<open>Not modelled.\<close> The package files \<open>__init__.py\<close>: imports. \<open>scripts/release_acceptance.py\<close>:
  it builds, installs and inspects archives with external tools. Of \<open>cli.py\<close>, the declaration and parsing of
  the arguments (\<open>argparse\<close>). Of the demonstration, whether it passes depends on what Git and Python
  answer; no property says that it does.
\<close>

end
